(* ===== verification/Prelude.thy ===== *)
theory Prelude
  imports Main "HOL-Library.List_Lexorder" "HOL-Library.Char_ord" "HOL-Library.Finite_Map"
begin

section \<open>Prelude: the model's basic types, tables as row lists, and the lemmas all components share\<close>

text \<open>
  Every component of RollPig Cloud keeps its state in SQL tables. A table is modelled as the list
  of its rows in the order of the autoincrement key, a query as a filter or a search, an update as
  a map, an insert as an append. This theory holds the basic types, those table operations with
  their lemmas, and the few Python idioms the source uses everywhere (\<open>x or default\<close>,
  \<open>sorted({...})\<close>, \<open>int(float(x))\<close>, dictionaries).

  Dates are day numbers and date-times are microseconds (both integers, counted from the same
  midnight, date-times in UTC without a zone), so that \<open>timedelta\<close> arithmetic is integer
  arithmetic. Python's integers are \<open>int\<close>, its strings \<open>string\<close>.
\<close>

type_synonym date = int
type_synonym datetime = int
type_synonym user_id = string
type_synonym group_id = string
type_synonym pig_id = string
type_synonym token = string

named_theorems table_simps \<open>how lookups see updates and inserts\<close>
named_theorems frame_simps \<open>what an operation leaves unchanged\<close>

subsection \<open>Time\<close>

definition seconds :: "int \<Rightarrow> int" where
  "seconds n = n * 1000000"

definition minutes :: "int \<Rightarrow> int" where
  "minutes n = seconds (60 * n)"

definition midnight :: "date \<Rightarrow> datetime" where
  "midnight d = seconds (d * 86400)"

lemma seconds_mono [simp]: "seconds a \<le> seconds b \<longleftrightarrow> a \<le> b"
  by (simp add: seconds_def)

lemma seconds_less [simp]: "seconds a < seconds b \<longleftrightarrow> a < b"
  by (simp add: seconds_def)

lemma minutes_pos [simp]: "0 < minutes n \<longleftrightarrow> 0 < n"
  by (simp add: minutes_def seconds_def)

subsection \<open>Python idioms\<close>

text \<open>\<open>x or default\<close> on an optional integer: both \<open>None\<close> and \<open>0\<close> are false.\<close>

definition int_or :: "int option \<Rightarrow> int \<Rightarrow> int" where
  "int_or x d = (case x of None \<Rightarrow> d | Some v \<Rightarrow> if v = 0 then d else v)"

lemma int_or_simps [simp]:
  "int_or None d = d"
  "int_or (Some 0) d = d"
  "v \<noteq> 0 \<Longrightarrow> int_or (Some v) d = v"
  by (simp_all add: int_or_def)

lemma int_or_Some_0 [simp]: "int_or (Some v) 0 = v"
  by (simp add: int_or_def)

text \<open>\<open>s or default\<close> on an optional string: \<open>None\<close> and the empty string are false.\<close>

definition str_or :: "string option \<Rightarrow> string \<Rightarrow> string" where
  "str_or x d = (case x of None \<Rightarrow> d | Some s \<Rightarrow> if s = [] then d else s)"

text \<open>\<open>int(float(x))\<close> truncates towards zero; a float is modelled by the rational it denotes.\<close>

definition int_of_float :: "rat \<Rightarrow> int" where
  "int_of_float x = (if 0 \<le> x then \<lfloor>x\<rfloor> else \<lceil>x\<rceil>)"

lemma int_of_float_of_int [simp]: "int_of_float (of_int n) = n"
  by (simp add: int_of_float_def)

text \<open>\<open>sorted({str(u) for u in ids if u})\<close>: the distinct non-empty identifiers in order.\<close>

definition sorted_ids :: "string list \<Rightarrow> string list" where
  "sorted_ids ids = sort (remdups (filter (\<lambda>u. u \<noteq> []) ids))"

lemma set_sorted_ids [simp]: "set (sorted_ids ids) = {u \<in> set ids. u \<noteq> []}"
  by (auto simp: sorted_ids_def)

lemma distinct_sorted_ids [simp]: "distinct (sorted_ids ids)"
  by (simp add: sorted_ids_def)

lemma sorted_sorted_ids [simp]: "sorted (sorted_ids ids)"
  by (simp add: sorted_ids_def)

lemma sorted_ids_eq_iff: "sorted_ids xs = sorted_ids ys \<longleftrightarrow> set (sorted_ids xs) = set (sorted_ids ys)"
  by (metis distinct_sorted_ids sorted_distinct_set_unique sorted_sorted_ids)

text \<open>A Python dictionary with string keys, as the association list of its items.\<close>

type_synonym 'v dict = "(string \<times> 'v) list"

definition dict_get :: "'v dict \<Rightarrow> string \<Rightarrow> 'v \<Rightarrow> 'v" where
  "dict_get d k v = (case map_of d k of None \<Rightarrow> v | Some x \<Rightarrow> x)"

fun dict_put :: "string \<Rightarrow> 'v \<Rightarrow> 'v dict \<Rightarrow> 'v dict" where
  "dict_put k v [] = [(k, v)]"
| "dict_put k v ((k', v') # d) = (if k = k' then (k, v) # d else (k', v') # dict_put k v d)"

definition dict_pop :: "string \<Rightarrow> 'v dict \<Rightarrow> 'v dict" where
  "dict_pop k d = filter (\<lambda>(k', _). k' \<noteq> k) d"

definition dict_wf :: "'v dict \<Rightarrow> bool" where
  "dict_wf d \<longleftrightarrow> distinct (map fst d)"

text \<open>Equality of dictionaries disregards the order of the items.\<close>

definition dict_eq :: "'v dict \<Rightarrow> 'v dict \<Rightarrow> bool" where
  "dict_eq d e \<longleftrightarrow> set d = set e"

lemma map_of_dict_put [simp]: "map_of (dict_put k v d) = (map_of d)(k \<mapsto> v)"
  by (induction k v d rule: dict_put.induct) (auto simp: fun_eq_iff)

lemma map_of_dict_pop: "map_of (dict_pop k d) = (map_of d)(k := None)"
  by (induction d) (auto simp: dict_pop_def fun_eq_iff)

lemma keys_dict_put [simp]: "fst ` set (dict_put k v d) = insert k (fst ` set d)"
  by (induction k v d rule: dict_put.induct) auto

lemma dict_wf_put: "dict_wf d \<Longrightarrow> dict_wf (dict_put k v d)"
  by (induction k v d rule: dict_put.induct) (auto simp: dict_wf_def)

lemma dict_wf_pop: "dict_wf d \<Longrightarrow> dict_wf (dict_pop k d)"
  by (induction d) (auto simp: dict_wf_def dict_pop_def)

lemma dict_wf_map_of: "dict_wf d \<Longrightarrow> map_of d k = Some v \<longleftrightarrow> (k, v) \<in> set d"
  by (simp add: dict_wf_def)

lemma dict_eq_map_of: "dict_wf d \<Longrightarrow> dict_wf e \<Longrightarrow> dict_eq d e \<longleftrightarrow> map_of d = map_of e"
  unfolding dict_eq_def dict_wf_def by (rule map_of_inject_set [symmetric])

lemma set_dict_pop: "set (dict_pop k d) = {x \<in> set d. fst x \<noteq> k}"
  by (auto simp: dict_pop_def)

lemma dict_put_Nil [simp]: "dict_put k v d \<noteq> []"
  by (cases "(k, v, d)" rule: dict_put.cases) auto

text \<open>\<open>max(xs, default=0)\<close>.\<close>

fun max_default :: "int list \<Rightarrow> int" where
  "max_default [] = 0"
| "max_default (x # xs) = fold max xs x"

lemma fold_max_ge: "(x::int) \<le> fold max xs x \<and> (\<forall>y\<in>set xs. y \<le> fold max xs x)"
proof (induction xs arbitrary: x)
  case (Cons y ys)
  from Cons.IH [of "max y x"] show ?case by auto
qed simp

lemma fold_max_in: "fold max xs (x::int) \<in> insert x (set xs)"
proof (induction xs arbitrary: x)
  case (Cons y ys)
  from Cons.IH [of "max y x"] show ?case by (auto simp: max_def split: if_splits)
qed simp

lemma max_default_ge: "y \<in> set xs \<Longrightarrow> y \<le> max_default xs"
  by (cases xs) (use fold_max_ge in auto)

lemma max_default_in: "xs \<noteq> [] \<Longrightarrow> max_default xs \<in> set xs"
  by (cases xs) (use fold_max_in in auto)

lemma max_default_eq_Max: "xs \<noteq> [] \<Longrightarrow> max_default xs = Max (set xs)"
  by (metis List.finite_set Max_eqI max_default_ge max_default_in)

lemma max_default_le: "(\<And>y. y \<in> set xs \<Longrightarrow> y \<le> b) \<Longrightarrow> 0 \<le> b \<Longrightarrow> max_default xs \<le> b"
  by (cases "xs = []") (auto dest: max_default_in)

text \<open>A run that did not raise, by its components.\<close>

lemma right_projr: "\<not> isl x \<Longrightarrow> x = Inr (fst (projr x), snd (projr x))"
  by (cases x) simp_all

end
