(* ===== verification/Tables.thy ===== *)
theory Tables
  imports Prelude
begin

section \<open>Tables as row lists\<close>

text \<open>
  A table is the list of its rows in the order of the primary key. The operations here are the
  SQL statements the source issues: \<open>one_or_none\<close> is
  \<open>select(...).where(...)\<close> with \<open>scalar_one_or_none()\<close> on a unique key,
  \<open>upd_rows\<close> is an \<open>UPDATE ... WHERE\<close> (or the assignment to a loaded row),
  \<open>put_row\<close> the upsert on a unique key. \<open>unique_on\<close> is a unique constraint.
  The lemmas say what a lookup returns after each of them.
\<close>

definition one_or_none :: "('r \<Rightarrow> bool) \<Rightarrow> 'r list \<Rightarrow> 'r option" where
  "one_or_none P rs = List.find P rs"

definition upd_rows :: "('r \<Rightarrow> bool) \<Rightarrow> ('r \<Rightarrow> 'r) \<Rightarrow> 'r list \<Rightarrow> 'r list" where
  "upd_rows P f rs = map (\<lambda>r. if P r then f r else r) rs"

definition put_row :: "('r \<Rightarrow> 'k) \<Rightarrow> 'r \<Rightarrow> 'r list \<Rightarrow> 'r list" where
  "put_row key r rs =
     (if one_or_none (\<lambda>x. key x = key r) rs = None then rs @ [r]
      else upd_rows (\<lambda>x. key x = key r) (\<lambda>_. r) rs)"

definition unique_on :: "('r \<Rightarrow> 'k) \<Rightarrow> 'r list \<Rightarrow> bool" where
  "unique_on key rs \<longleftrightarrow> distinct (map key rs)"

subsection \<open>Searches\<close>

lemma one_or_none_Nil [simp]: "one_or_none P [] = None"
  by (simp add: one_or_none_def)

lemma one_or_none_Cons [simp]:
  "one_or_none P (r # rs) = (if P r then Some r else one_or_none P rs)"
  by (simp add: one_or_none_def)

lemma one_or_none_None_iff: "one_or_none P rs = None \<longleftrightarrow> (\<forall>r\<in>set rs. \<not> P r)"
  by (induction rs) auto

lemma one_or_none_SomeD: "one_or_none P rs = Some r \<Longrightarrow> r \<in> set rs \<and> P r"
  by (induction rs) (auto split: if_splits)

lemma one_or_none_append [table_simps]:
  "one_or_none P (rs @ ss) = (case one_or_none P rs of None \<Rightarrow> one_or_none P ss | Some r \<Rightarrow> Some r)"
  by (induction rs) auto

lemma one_or_none_cong:
  "(\<And>r. r \<in> set rs \<Longrightarrow> P r = Q r) \<Longrightarrow> one_or_none P rs = one_or_none Q rs"
  by (induction rs) auto

lemma one_or_none_unique:
  assumes "unique_on key rs" and "r \<in> set rs" and "P r" and "\<And>x. P x \<Longrightarrow> key x = key r"
  shows "one_or_none P rs = Some r"
proof (cases "one_or_none P rs")
  case None
  with assms(2,3) show ?thesis by (auto simp: one_or_none_None_iff)
next
  case (Some x)
  then have "x \<in> set rs" and "P x" by (auto dest: one_or_none_SomeD)
  moreover from \<open>P x\<close> have "key x = key r" by (rule assms(4))
  ultimately have "x = r" using assms(1,2) by (auto simp: unique_on_def distinct_map dest: inj_onD)
  with Some show ?thesis by simp
qed

subsection \<open>Updates\<close>

lemma upd_rows_Nil [simp]: "upd_rows P f [] = []"
  by (simp add: upd_rows_def)

lemma upd_rows_Cons [simp]:
  "upd_rows P f (r # rs) = (if P r then f r else r) # upd_rows P f rs"
  by (simp add: upd_rows_def)

lemma upd_rows_append [simp]: "upd_rows P f (rs @ ss) = upd_rows P f rs @ upd_rows P f ss"
  by (simp add: upd_rows_def)

lemma length_upd_rows [simp]: "length (upd_rows P f rs) = length rs"
  by (simp add: upd_rows_def)

lemma set_upd_rows: "set (upd_rows P f rs) = (\<lambda>r. if P r then f r else r) ` set rs"
  by (simp add: upd_rows_def)

lemma map_key_upd_rows:
  "(\<And>r. r \<in> set rs \<Longrightarrow> P r \<Longrightarrow> key (f r) = key r) \<Longrightarrow> map key (upd_rows P f rs) = map key rs"
  by (auto simp: upd_rows_def)

lemma upd_rows_id: "(\<And>r. r \<in> set rs \<Longrightarrow> P r \<Longrightarrow> f r = r) \<Longrightarrow> upd_rows P f rs = rs"
  by (induction rs) auto

lemma upd_rows_none: "(\<And>r. r \<in> set rs \<Longrightarrow> \<not> P r) \<Longrightarrow> upd_rows P f rs = rs"
  by (rule upd_rows_id) auto

lemma upd_rows_cong:
  "(\<And>r. r \<in> set rs \<Longrightarrow> P r = Q r) \<Longrightarrow> (\<And>r. r \<in> set rs \<Longrightarrow> Q r \<Longrightarrow> f r = g r) \<Longrightarrow>
   upd_rows P f rs = upd_rows Q g rs"
  by (induction rs) auto

lemma upd_rows_twice:
  "(\<And>r. P r \<Longrightarrow> P (f r)) \<Longrightarrow> upd_rows P g (upd_rows P f rs) = upd_rows P (\<lambda>r. g (f r)) rs"
  by (induction rs) auto

text \<open>A search that the update cannot influence, and a search for the updated row itself.\<close>

lemma one_or_none_upd_other [table_simps]:
  assumes "\<And>r. P r \<Longrightarrow> \<not> Q r" and "\<And>r. P r \<Longrightarrow> \<not> Q (f r)"
  shows "one_or_none Q (upd_rows P f rs) = one_or_none Q rs"
  using assms by (induction rs) auto

lemma one_or_none_upd_same:
  assumes "\<And>r. Q r \<Longrightarrow> P r" and "\<And>r. P r \<Longrightarrow> Q (f r) = Q r"
  shows "one_or_none Q (upd_rows P f rs) = map_option f (one_or_none Q rs)"
  using assms by (induction rs) auto

lemma one_or_none_upd_key:
  assumes "\<And>r. key (f r) = key r"
  shows "one_or_none (\<lambda>r. key r = k) (upd_rows (\<lambda>r. key r = k') f rs) =
     (if k = k' then map_option f (one_or_none (\<lambda>r. key r = k) rs)
      else one_or_none (\<lambda>r. key r = k) rs)"
  using assms by (induction rs) auto

lemma filter_upd_rows_other:
  "(\<And>r. P r \<Longrightarrow> \<not> Q r) \<Longrightarrow> (\<And>r. P r \<Longrightarrow> \<not> Q (f r)) \<Longrightarrow> filter Q (upd_rows P f rs) = filter Q rs"
  by (induction rs) auto

subsection \<open>Unique constraints\<close>

lemma unique_on_Nil [simp]: "unique_on key []"
  by (simp add: unique_on_def)

lemma unique_on_upd:
  "unique_on key rs \<Longrightarrow> (\<And>r. r \<in> set rs \<Longrightarrow> P r \<Longrightarrow> key (f r) = key r) \<Longrightarrow>
   unique_on key (upd_rows P f rs)"
  by (simp add: unique_on_def map_key_upd_rows)

lemma unique_on_append1:
  "unique_on key (rs @ [r]) \<longleftrightarrow> unique_on key rs \<and> (\<forall>x\<in>set rs. key x \<noteq> key r)"
  by (auto simp: unique_on_def image_iff)

lemma unique_on_filter: "unique_on key rs \<Longrightarrow> unique_on key (filter P rs)"
  by (simp add: unique_on_def distinct_map_filter)

lemma unique_onD: "unique_on key rs \<Longrightarrow> x \<in> set rs \<Longrightarrow> y \<in> set rs \<Longrightarrow> key x = key y \<Longrightarrow> x = y"
  by (auto simp: unique_on_def distinct_map dest: inj_onD)

lemma one_or_none_key:
  "unique_on key rs \<Longrightarrow> r \<in> set rs \<Longrightarrow> one_or_none (\<lambda>x. key x = key r) rs = Some r"
  by (rule one_or_none_unique [of key]) auto

subsection \<open>Upserts\<close>

lemma unique_on_put: "unique_on key rs \<Longrightarrow> unique_on key (put_row key r rs)"
  by (auto simp: put_row_def unique_on_append1 one_or_none_None_iff intro: unique_on_upd)

lemma one_or_none_put [table_simps]:
  "one_or_none (\<lambda>x. key x = k) (put_row key r rs) =
     (if k = key r then Some r else one_or_none (\<lambda>x. key x = k) rs)"
proof (cases "one_or_none (\<lambda>x. key x = key r) rs")
  case None
  then show ?thesis
    by (auto simp: put_row_def one_or_none_append split: option.splits)
next
  case (Some y)
  have "one_or_none (\<lambda>x. key x = k) (upd_rows (\<lambda>x. key x = key r) (\<lambda>_. r) rs) =
     (if k = key r then Some r else one_or_none (\<lambda>x. key x = k) rs)"
  proof (cases "k = key r")
    case True
    have "one_or_none (\<lambda>x. key x = key r) (upd_rows (\<lambda>x. key x = key r) (\<lambda>_. r) rs) =
        map_option (\<lambda>_. r) (one_or_none (\<lambda>x. key x = key r) rs)"
      by (rule one_or_none_upd_same) auto
    with True Some show ?thesis by simp
  next
    case False
    then show ?thesis by (subst one_or_none_upd_other) auto
  qed
  with Some show ?thesis by (simp add: put_row_def)
qed

lemma put_row_id: "unique_on key rs \<Longrightarrow> r \<in> set rs \<Longrightarrow> put_row key r rs = rs"
  by (auto simp: put_row_def one_or_none_key intro!: upd_rows_id dest: unique_onD)

lemma put_row_twice: "put_row key r (put_row key r rs) = put_row key r rs"
proof (cases "one_or_none (\<lambda>x. key x = key r) rs")
  case None
  then have "upd_rows (\<lambda>x. key x = key r) (\<lambda>_. r) rs = rs"
    by (intro upd_rows_none) (auto simp: one_or_none_None_iff)
  with None show ?thesis
    by (simp add: put_row_def one_or_none_append)
next
  case (Some y)
  then have "one_or_none (\<lambda>x. key x = key r) (upd_rows (\<lambda>x. key x = key r) (\<lambda>_. r) rs) \<noteq> None"
    by (auto simp: one_or_none_None_iff set_upd_rows dest!: one_or_none_SomeD)
  with Some show ?thesis
    by (auto simp: put_row_def upd_rows_twice)
qed

end
