(* ===== verification/Models.thy ===== *)
theory Models
  imports Tables
begin

section \<open>The tables of \<^verbatim>\<open>rollpig_cloud/models.py\<close> and the database state\<close>

text \<open>
  One record per mapped class, one field per column (the autoincrement \<open>id\<close> is the row's
  position, except for the roast events, whose \<open>id\<close> is part of the API). A nullable column
  is an option. The unique constraints are the keys named \<open><table>_key\<close>; \<open>db\<close> is the
  whole database. Columns the server never reads (\<open>updated_at\<close>) are left out.

  The JSON columns are typed by what the source writes into them: a roll's appearance snapshot
  (the makeup flag and the client's payload), the protection sources and baselines (dictionaries
  from source names to levels), the waiting notice of a reservation, the participant snapshot of
  an event. The outcome snapshot of a reservation is the client's own JSON object.
\<close>

subsection \<open>JSON values supplied by clients\<close>

datatype json =
    JNull
  | JBool bool
  | JInt int
  | JStr string
  | JArr "json list"
  | JObj "(string, json) fmap"

type_synonym json_object = "(string, json) fmap"

subsection \<open>Rolls, collections and growth\<close>

text \<open>
  \<open>appearance_snapshot\<close>: \<open>{"is_makeup": True}\<close>, the four keys of \<open>_snapshot_payload\<close>, or both.
\<close>

record appearance_payload =
  resolved_variant_level :: int
  resolved_image_name :: string
  unlocked_variant_levels :: "int list"
  unlocked_variant_fields :: "string list"

record appearance =
  ap_is_makeup :: bool
  ap_payload :: "appearance_payload option"

record daily_roll =
  dr_date_str :: date
  dr_user_id :: user_id
  dr_pig_id :: pig_id
  dr_is_new_pig :: "bool option"
  dr_previous_copies :: "int option"
  dr_copies_after_roll :: "int option"
  dr_previous_expert_level :: "int option"
  dr_expert_level_after_roll :: "int option"
  dr_collection_size_after_roll :: "int option"
  dr_previous_duplicate_streak :: "int option"
  dr_duplicate_streak_after_roll :: "int option"
  dr_resource_version :: "string option"
  dr_appearance_snapshot :: "appearance option"
  dr_created_at :: datetime

record group_roll =
  gr_date_str :: date
  gr_group_id :: group_id
  gr_user_id :: user_id
  gr_pig_id :: pig_id
  gr_seen_at :: datetime

record collection =
  co_user_id :: user_id
  co_pig_id :: pig_id
  co_first_seen_at :: datetime

record user_pig_progress =
  up_tenant_id :: string
  up_user_id :: user_id
  up_pig_id :: pig_id
  up_copies :: int
  up_growth_bonus :: int
  up_first_obtained_at :: datetime

record user_daily_feed =
  df_date_str :: date
  df_user_id :: user_id
  df_pig_id :: pig_id
  df_source_type :: string
  df_source_id :: string
  df_previous_level :: int
  df_new_level :: int
  df_created_at :: datetime

record user_draw_state =
  ds_tenant_id :: string
  ds_user_id :: user_id
  ds_duplicate_streak :: int

subsection \<open>Charges and key usage\<close>

record user_usage =
  uu_user_id :: user_id
  uu_last_roast_ts :: "int option"
  uu_roast_charges :: "int option"
  uu_roast_charge_updated_ts :: "int option"
  uu_last_force_date :: "date option"

record source_key_identity =
  ki_key_id :: string
  ki_key_name :: string
  ki_first_seen_at :: datetime
  ki_last_seen_at :: datetime

record source_key_daily_usage =
  ku_date_str :: date
  ku_source_key_id :: string
  ku_operation :: string
  ku_authenticated_requests :: int
  ku_successful_requests :: int
  ku_successful_mutations :: int
  ku_failed_requests :: int
  ku_created_records :: int
  ku_updated_records :: int
  ku_deleted_records :: int
  ku_idempotent_hits :: int

subsection \<open>Events and protections\<close>

text \<open>\<open>participant_snapshot\<close>: each key that the writer may leave out is an option.\<close>

record participant_snapshot =
  ps_ids :: "string list option"
  ps_names :: "string list option"
  ps_count :: "int option"
  ps_backfire_victim_id :: "string option"
  ps_backfire_victim_name :: "string option"
  ps_backfire_victim_ids :: "string list option"
  ps_backfire_victim_names :: "string list option"
  ps_special_reason :: "string option"
  ps_force_mode :: "string option"
  ps_protection_level :: "int option"
  ps_reservation_owner_id :: "string option"
  ps_reservation_owner_name :: "string option"

record roast_event =
  ev_id :: nat
  ev_date_str :: date
  ev_group_id :: group_id
  ev_event_type :: string
  ev_attacker_id :: user_id
  ev_target_id :: user_id
  ev_attacker_name :: string
  ev_target_name :: string
  ev_food_name :: string
  ev_reservation_id :: string
  ev_participant_snapshot :: "participant_snapshot option"
  ev_created_at :: datetime

record group_protection =
  gp_protect_date :: date
  gp_group_id :: group_id
  gp_user_id :: user_id
  gp_roast_success_count :: int
  gp_source_levels :: "int dict option"
  gp_source_baselines :: "int dict option"
  gp_base_level :: int
  gp_consecutive_days :: int

record unrolled_roast_attempt =
  ua_date_str :: date
  ua_user_id :: user_id
  ua_attempt_count :: int

subsection \<open>Reservations\<close>

text \<open>The states of a reservation and of its waiting notice, stored as strings in the source.\<close>

datatype reservation_status = Pending | Ready | Processing | Prepared | Sending | Completed

datatype notice_status = NPending | NProcessing | NSending | NSent

record waiting_notice =
  wn_status :: notice_status
  wn_claim_token :: "token option"
  wn_claimed_at :: "datetime option"

datatype feed_status = Fed | AlreadyFed | MaxLevel | NoDailyPig

text \<open>\<open>schemas.DailyFeedResult\<close>, also stored with the reservation.\<close>

record daily_feed_result =
  fr_status :: feed_status
  fr_user_id :: user_id
  fr_pig_id :: pig_id
  fr_previous_level :: int
  fr_new_level :: int
  fr_source_type :: string
  fr_source_id :: string
  fr_created_at :: "datetime option"

record roast_reservation =
  rr_reservation_id :: string
  rr_date_str :: date
  rr_group_id :: group_id
  rr_target_id :: user_id
  rr_target_name :: string
  rr_target_pig_id :: pig_id
  rr_owner_id :: user_id
  rr_owner_name :: string
  rr_owner_pig_id :: pig_id
  rr_delivery_bot_id :: string
  rr_force_mode :: "string option"
  rr_status :: reservation_status
  rr_active_slot :: "int option"
  rr_protection_required :: int
  rr_protection_source :: string
  rr_waiting_notice :: "waiting_notice option"
  rr_delivery_gathering_version :: int
  rr_force_operator_id :: string
  rr_force_operator_name :: string
  rr_force_feed_user_ids :: "user_id list option"
  rr_outcome_snapshot :: "json_object option"
  rr_daily_feed_results :: "daily_feed_result list option"
  rr_claim_token :: "token option"
  rr_ready_at :: "datetime option"
  rr_claimed_at :: "datetime option"
  rr_completed_at :: "datetime option"

record roast_reservation_message =
  rm_bot_id :: string
  rm_group_id :: group_id
  rm_message_id :: string
  rm_reservation_id :: string
  rm_date_str :: date

record roast_reservation_participant =
  rp_reservation_id :: string
  rp_user_id :: user_id
  rp_display_name :: string
  rp_pig_id :: pig_id
  rp_contribution :: int

subsection \<open>Report deliveries and refill requests\<close>

datatype delivery_status = DPending | DClaimed | DSending | DSent | DUncertain | DSkipped | DFailed

record daily_report_delivery =
  rd_date_str :: date
  rd_group_id :: group_id
  rd_status :: delivery_status
  rd_instance_id :: string
  rd_delivery_bot_id :: string
  rd_claim_token :: "token option"
  rd_cutoff_at :: datetime
  rd_claimed_at :: "datetime option"
  rd_attempt_count :: int
  rd_next_attempt_at :: "datetime option"
  rd_sent_at :: "datetime option"
  rd_message_id :: string
  rd_last_error :: string

record group_daily_active_user =
  ga_date_str :: date
  ga_group_id :: group_id
  ga_user_id :: user_id
  ga_active_at :: datetime

datatype refill_status = Voting | Succeeded | Failed | Expired

record group_roast_refill_request =
  rf_request_id :: string
  rf_active_key :: "(date \<times> group_id) option"
  rf_date_str :: date
  rf_group_id :: group_id
  rf_initiator_id :: user_id
  rf_initiator_name :: string
  rf_delivery_bot_id :: string
  rf_message_id :: string
  rf_active_count_snapshot :: int
  rf_required_ratio :: int
  rf_required_votes :: int
  rf_success_count_before :: int
  rf_status :: refill_status
  rf_benefited_user_ids :: "user_id list option"
  rf_failure_reason :: string
  rf_created_at :: datetime
  rf_expires_at :: datetime
  rf_completed_at :: "datetime option"

subsection \<open>The database\<close>

record db =
  daily_rolls :: "daily_roll list"
  group_rolls :: "group_roll list"
  collections :: "collection list"
  user_pig_progress :: "user_pig_progress list"
  user_daily_feeds :: "user_daily_feed list"
  user_draw_state :: "user_draw_state list"
  user_usage :: "user_usage list"
  source_key_identities :: "source_key_identity list"
  source_key_daily_usage :: "source_key_daily_usage list"
  roast_events :: "roast_event list"
  group_protections :: "group_protection list"
  unrolled_roast_attempts :: "unrolled_roast_attempt list"
  roast_reservations :: "roast_reservation list"
  roast_reservation_messages :: "roast_reservation_message list"
  roast_reservation_participants :: "roast_reservation_participant list"
  daily_report_deliveries :: "daily_report_delivery list"
  group_daily_active_users :: "group_daily_active_user list"
  group_roast_refill_requests :: "group_roast_refill_request list"

definition empty_db :: db where
  "empty_db = \<lparr>daily_rolls = [], group_rolls = [], collections = [], user_pig_progress = [],
     user_daily_feeds = [], user_draw_state = [], user_usage = [], source_key_identities = [],
     source_key_daily_usage = [], roast_events = [], group_protections = [],
     unrolled_roast_attempts = [], roast_reservations = [], roast_reservation_messages = [],
     roast_reservation_participants = [], daily_report_deliveries = [],
     group_daily_active_users = [], group_roast_refill_requests = []\<rparr>"

subsection \<open>Unique constraints\<close>

definition daily_roll_key :: "daily_roll \<Rightarrow> date \<times> user_id" where
  "daily_roll_key r = (dr_date_str r, dr_user_id r)"

definition group_roll_key :: "group_roll \<Rightarrow> date \<times> group_id \<times> user_id" where
  "group_roll_key r = (gr_date_str r, gr_group_id r, gr_user_id r)"

definition collection_key :: "collection \<Rightarrow> user_id \<times> pig_id" where
  "collection_key r = (co_user_id r, co_pig_id r)"

definition progress_key :: "user_pig_progress \<Rightarrow> string \<times> user_id \<times> pig_id" where
  "progress_key r = (up_tenant_id r, up_user_id r, up_pig_id r)"

definition daily_feed_key :: "user_daily_feed \<Rightarrow> date \<times> user_id" where
  "daily_feed_key r = (df_date_str r, df_user_id r)"

definition draw_state_key :: "user_draw_state \<Rightarrow> string \<times> user_id" where
  "draw_state_key r = (ds_tenant_id r, ds_user_id r)"

definition daily_usage_key :: "source_key_daily_usage \<Rightarrow> date \<times> string \<times> string" where
  "daily_usage_key r = (ku_date_str r, ku_source_key_id r, ku_operation r)"

definition protection_key :: "group_protection \<Rightarrow> date \<times> group_id \<times> user_id" where
  "protection_key r = (gp_protect_date r, gp_group_id r, gp_user_id r)"

definition attempt_key :: "unrolled_roast_attempt \<Rightarrow> date \<times> user_id" where
  "attempt_key r = (ua_date_str r, ua_user_id r)"

text \<open>A reservation occupies its target's slot only while \<open>active_slot\<close> is not NULL.\<close>

definition active_target_key :: "roast_reservation \<Rightarrow> (date \<times> group_id \<times> user_id \<times> int) option" where
  "active_target_key r =
     (case rr_active_slot r of None \<Rightarrow> None
      | Some s \<Rightarrow> Some (rr_date_str r, rr_group_id r, rr_target_id r, s))"

definition message_key :: "roast_reservation_message \<Rightarrow> string \<times> group_id \<times> string" where
  "message_key r = (rm_bot_id r, rm_group_id r, rm_message_id r)"

definition participant_key :: "roast_reservation_participant \<Rightarrow> string \<times> user_id" where
  "participant_key r = (rp_reservation_id r, rp_user_id r)"

definition delivery_key :: "daily_report_delivery \<Rightarrow> date \<times> group_id" where
  "delivery_key r = (rd_date_str r, rd_group_id r)"

definition active_user_key :: "group_daily_active_user \<Rightarrow> date \<times> group_id \<times> user_id" where
  "active_user_key r = (ga_date_str r, ga_group_id r, ga_user_id r)"

text \<open>A unique constraint on a nullable key: NULL never conflicts.\<close>

definition unique_some :: "('r \<Rightarrow> 'k option) \<Rightarrow> 'r list \<Rightarrow> bool" where
  "unique_some key rs \<longleftrightarrow> distinct (List.map_filter key rs)"

definition no_conflict :: "('r \<Rightarrow> 'k option) \<Rightarrow> 'r \<Rightarrow> 'r list \<Rightarrow> bool" where
  "no_conflict key r rs \<longleftrightarrow> key r = None \<or> (\<forall>x\<in>set rs. key x \<noteq> key r)"

subsection \<open>Errors\<close>

text \<open>
  The exceptions a handler can end with; the session is rolled back, so no state comes with them.
  An operational error carries the driver's code (\<open>error.orig.args[0]\<close>) and whether its text
  mentions a lock.
\<close>

datatype error =
    IntegrityError
  | OperationalError "int option" bool
  | RuntimeError string
  | HTTPException int
  | ValueError

datatype dialect = MySQL | SQLite | OtherDialect

end
