(* ===== verification/Transactions.thy ===== *)
theory Transactions
  imports Models
begin

section \<open>Transactions, retries and stored times (\<^verbatim>\<open>db.py\<close> and the routers' retry loops)\<close>

text \<open>
  A transaction body either commits and returns a value or raises; the session is then rolled
  back, so a failed attempt leaves no trace. Other writers may commit between two attempts, so
  the body is given as the outcome of each attempt, \<open>op k\<close> for the \<open>k\<close>-th. Each
  retry loop of the source is an instance of \<open>retry_loop\<close>, which runs at most \<open>n\<close>
  attempts and goes on after an error exactly when \<open>again\<close> says so.
\<close>

fun retry_loop :: "(nat \<Rightarrow> error \<Rightarrow> bool) \<Rightarrow> error \<Rightarrow> nat \<Rightarrow> nat \<Rightarrow> (nat \<Rightarrow> error + 'a) \<Rightarrow> error + 'a" where
  "retry_loop again exhausted 0 k op = Inl exhausted"
| "retry_loop again exhausted (Suc n) k op =
     (case op k of
        Inr a \<Rightarrow> Inr a
      | Inl e \<Rightarrow> if again k e then retry_loop again exhausted n (Suc k) op else Inl e)"

definition SQLITE_LOCK_RETRY_ATTEMPTS :: nat where
  "SQLITE_LOCK_RETRY_ATTEMPTS = 2"

fun is_sqlite_lock :: "dialect \<Rightarrow> error \<Rightarrow> bool" where
  "is_sqlite_lock d (OperationalError code locked) = (d = SQLite \<and> locked)"
| "is_sqlite_lock d _ = False"

definition run_transaction_with_sqlite_lock_retry :: "dialect \<Rightarrow> (nat \<Rightarrow> error + 'a) \<Rightarrow> error + 'a" where
  "run_transaction_with_sqlite_lock_retry d op =
     retry_loop (\<lambda>k e. is_sqlite_lock d e \<and> \<not> SQLITE_LOCK_RETRY_ATTEMPTS \<le> k + 1)
       (RuntimeError ''SQLite transaction retry exhausted'') SQLITE_LOCK_RETRY_ATTEMPTS 0 op"

text \<open>
  \<open>_run_protection_transaction\<close>: three rounds of the above; the body's outcome is given per
  round and attempt. \<open>None\<close> would be the function falling off its loop.
\<close>

fun protection_retryable :: "dialect \<Rightarrow> error \<Rightarrow> bool" where
  "protection_retryable d IntegrityError = True"
| "protection_retryable d (OperationalError code locked) =
     (d = MySQL \<and> (code = Some 1205 \<or> code = Some 1213))"
| "protection_retryable d _ = False"

definition run_protection_transaction :: "dialect \<Rightarrow> (nat \<Rightarrow> nat \<Rightarrow> error + 'a) \<Rightarrow> error + 'a" where
  "run_protection_transaction d op =
     retry_loop (\<lambda>k e. \<not> (k = 2 \<or> \<not> protection_retryable d e)) (RuntimeError ''unreachable'') 3 0
       (\<lambda>k. run_transaction_with_sqlite_lock_retry d (op k))"

text \<open>\<open>_retry_roll_conflicts\<close>: three attempts of a roll handler.\<close>

fun roll_retryable :: "error \<Rightarrow> bool" where
  "roll_retryable IntegrityError = True"
| "roll_retryable (OperationalError code locked) = (code = Some 1205 \<or> code = Some 1213)"
| "roll_retryable _ = False"

definition retry_roll_conflicts :: "(nat \<Rightarrow> error + 'a) \<Rightarrow> error + 'a" where
  "retry_roll_conflicts op =
     retry_loop (\<lambda>k e. \<not> (\<not> roll_retryable e \<or> k = 2)) (RuntimeError ''unreachable'') 3 0 op"

text \<open>
  The loops \<open>for _ in range(n): try ... except IntegrityError: session.rollback()\<close> followed by
  a \<open>RuntimeError\<close>, and the two message endpoints, which re-raise on the second attempt.
\<close>

definition retry_integrity :: "string \<Rightarrow> nat \<Rightarrow> (nat \<Rightarrow> error + 'a) \<Rightarrow> error + 'a" where
  "retry_integrity msg n op = retry_loop (\<lambda>k e. e = IntegrityError) (RuntimeError msg) n 0 op"

definition retry_message_transaction :: "dialect \<Rightarrow> (nat \<Rightarrow> nat \<Rightarrow> error + 'a) \<Rightarrow> error + 'a" where
  "retry_message_transaction d op =
     retry_loop (\<lambda>k e. e = IntegrityError \<and> k = 0) (RuntimeError ''unreachable'') 2 0
       (\<lambda>k. run_transaction_with_sqlite_lock_retry d (op k))"

subsection \<open>What a retry loop can return\<close>

lemma retry_loop_result:
  "retry_loop again x n k op = r \<Longrightarrow> (\<exists>j. k \<le> j \<and> j < k + n \<and> op j = r) \<or> r = Inl x"
proof (induction n arbitrary: k)
  case (Suc n)
  show ?case
  proof (cases "op k")
    case (Inl e)
    show ?thesis
    proof (cases "again k e")
      case True
      with Inl Suc.prems have "retry_loop again x n (Suc k) op = r" by simp
      from Suc.IH [OF this] show ?thesis by (auto intro: Suc_leD)
    next
      case False
      with Inl Suc.prems have "op k = r" by simp
      then show ?thesis by auto
    qed
  next
    case (Inr a)
    with Suc.prems have "op k = r" by simp
    then show ?thesis by auto
  qed
qed simp

text \<open>When the last permitted attempt never asks for another one, the loop cannot be exhausted.\<close>

lemma retry_loop_attempt:
  assumes "0 < n" and "\<And>e. \<not> again (k + n - 1) e"
  shows "\<exists>j. k \<le> j \<and> j < k + n \<and> retry_loop again x n k op = op j"
  using assms
proof (induction n arbitrary: k)
  case (Suc n)
  show ?case
  proof (cases "\<exists>e. op k = Inl e \<and> again k e")
    case True
    then obtain e where e: "op k = Inl e" "again k e" by blast
    with Suc.prems have "n \<noteq> 0" by (cases n) auto
    with Suc.IH [of "Suc k"] Suc.prems
    obtain j where "Suc k \<le> j" "j < Suc k + n" "retry_loop again x n (Suc k) op = op j" by auto
    with e show ?thesis by (intro exI [of _ j]) simp
  next
    case False
    then have "retry_loop again x (Suc n) k op = op k"
      by (auto split: sum.splits)
    then show ?thesis by (intro exI [of _ k]) simp
  qed
qed simp

lemma retry_loop_success: "op k = Inr a \<Longrightarrow> retry_loop again x (Suc n) k op = Inr a"
  by simp

lemma retry_loop_fatal: "op k = Inl e \<Longrightarrow> \<not> again k e \<Longrightarrow> retry_loop again x (Suc n) k op = Inl e"
  by simp

lemma retry_loop_hopeless:
  "(\<And>j. k \<le> j \<Longrightarrow> op j = Inl e) \<Longrightarrow> (\<And>j. again j e) \<Longrightarrow> retry_loop again x n k op = Inl x"
  by (induction n arbitrary: k) auto

lemma run_transaction_attempt:
  "\<exists>j<2. run_transaction_with_sqlite_lock_retry d op = op j"
  unfolding run_transaction_with_sqlite_lock_retry_def SQLITE_LOCK_RETRY_ATTEMPTS_def
  using retry_loop_attempt [of 2 "\<lambda>k e. is_sqlite_lock d e \<and> \<not> 2 \<le> k + 1" 0
      "RuntimeError ''SQLite transaction retry exhausted''" op]
  by (simp add: numeral_2_eq_2 del: retry_loop.simps)

lemma run_transaction_success [simp]:
  "op 0 = Inr a \<Longrightarrow> run_transaction_with_sqlite_lock_retry d op = Inr a"
  by (simp add: run_transaction_with_sqlite_lock_retry_def SQLITE_LOCK_RETRY_ATTEMPTS_def
      numeral_2_eq_2)

lemma retry_integrity_success [simp]: "op 0 = Inr a \<Longrightarrow> 0 < n \<Longrightarrow> retry_integrity msg n op = Inr a"
  by (cases n) (simp_all add: retry_integrity_def)

lemma retry_integrity_hopeless:
  "(\<And>j. op j = Inl IntegrityError) \<Longrightarrow> retry_integrity msg n op = Inl (RuntimeError msg)"
  by (simp add: retry_integrity_def retry_loop_hopeless)

lemma protection_attempt: "\<exists>k<3. \<exists>j<2. run_protection_transaction d op = op k j"
proof -
  obtain k where "k < 3" and
    "run_protection_transaction d op = run_transaction_with_sqlite_lock_retry d (op k)"
    using retry_loop_attempt [of 3 "\<lambda>k e. \<not> (k = 2 \<or> \<not> protection_retryable d e)" 0
        "RuntimeError ''unreachable''" "\<lambda>k. run_transaction_with_sqlite_lock_retry d (op k)"]
    by (auto simp: run_protection_transaction_def)
  with run_transaction_attempt [of d "op k"] show ?thesis by metis
qed

subsection \<open>Stored and requested times\<close>

text \<open>
  A request's date-time is naive or carries an offset; \<open>Aware local offset\<close> denotes the
  instant \<open>local - offset\<close>. MySQL evaluates \<open>FROM_UNIXTIME\<close> in the session's zone, whose
  offset is \<open>tz\<close>; SQLite stores UTC.
\<close>

datatype py_datetime = Naive datetime | Aware datetime int

fun utc_of :: "py_datetime \<Rightarrow> datetime" where
  "utc_of (Naive t) = t"
| "utc_of (Aware t off) = t - off"

definition ROLLPIG_TIMEZONE :: int where
  "ROLLPIG_TIMEZONE = seconds (8 * 3600)"

definition database_cutoff_value :: "dialect \<Rightarrow> int \<Rightarrow> py_datetime \<Rightarrow> datetime" where
  "database_cutoff_value d tz v =
     (case v of
        Naive t \<Rightarrow> t
      | Aware t off \<Rightarrow> (if d = MySQL then t - off + tz else t - off))"

definition database_datetime_for_response :: "dialect \<Rightarrow> py_datetime \<Rightarrow> py_datetime" where
  "database_datetime_for_response d v =
     (case v of
        Aware t off \<Rightarrow> Aware t off
      | Naive t \<Rightarrow> if d = MySQL then Aware t ROLLPIG_TIMEZONE else Aware t 0)"

text \<open>The business date: the date in Shanghai at the instant \<open>now\<close> (UTC).\<close>

definition rollpig_today :: "datetime \<Rightarrow> date" where
  "rollpig_today now = (now + ROLLPIG_TIMEZONE) div seconds 86400"

lemma div_eq_iff_bounds: "(0::int) < s \<Longrightarrow> n div s = d \<longleftrightarrow> d * s \<le> n \<and> n < (d + 1) * s"
proof -
  assume s: "0 < s"
  have n: "(n div s) * s \<le> n" "n < (n div s + 1) * s"
    using s by (simp_all add: algebra_simps minus_mod_eq_mult_div [symmetric])
  show ?thesis
  proof
    assume "d * s \<le> n \<and> n < (d + 1) * s"
    with n have "d * s < (n div s + 1) * s" and "(n div s) * s < (d + 1) * s" by linarith+
    with s have "d < n div s + 1" and "n div s < d + 1" by simp_all
    then show "n div s = d" by simp
  qed (use n in auto)
qed

lemma rollpig_today_iff:
  "rollpig_today now = d \<longleftrightarrow>
     midnight d - ROLLPIG_TIMEZONE \<le> now \<and> now < midnight (d + 1) - ROLLPIG_TIMEZONE"
proof -
  have "n div 86400000000 = d \<longleftrightarrow> d * 86400000000 \<le> n \<and> n < (d + 1) * 86400000000" for n :: int
    by (rule div_eq_iff_bounds) simp
  then show ?thesis
    by (simp add: rollpig_today_def midnight_def seconds_def algebra_simps)
qed

end
