(* ===== verification/Contracts.thy ===== *)
theory Contracts
  imports Main
begin

section \<open>The contracts several components share\<close>

text \<open>
  RollPig Cloud is called by bots that retry: a response may be lost after the transaction was
  committed, two bots may deliver for the same group, and a user may call any number of times.
  Three contracts recur in its services, and each is a locale here with the lemmas its clients
  need. The components interpret them on their own definitions.

  \<^item> \<open>retry_safe\<close>: repeating a call changes nothing further; \<open>replay_safe\<close> adds
    that the repeated call also gives the first answer again.
  \<^item> \<open>send_once\<close>: a job that has crossed its point of no return is never handed out again.
  \<^item> \<open>quota\<close>: a per-user budget that is consumed unit by unit.
\<close>

subsection \<open>Retries\<close>

locale retry_safe =
  fixes op :: "'s \<Rightarrow> 's \<times> 'r"
    and ok :: "'s \<Rightarrow> bool"
  assumes ok_op: "ok s \<Longrightarrow> ok (fst (op s))"
    and op_again: "ok s \<Longrightarrow> fst (op (fst (op s))) = fst (op s)"
begin

lemma op_power: "ok s \<Longrightarrow> 0 < n \<Longrightarrow> ((\<lambda>s. fst (op s)) ^^ n) s = fst (op s)"
proof (induction n)
  case (Suc n)
  show ?case
  proof (cases "n = 0")
    case False
    with Suc have "((\<lambda>s. fst (op s)) ^^ n) s = fst (op s)" by simp
    with Suc.prems show ?thesis by (simp add: op_again)
  qed simp
qed simp

lemma answer_settles: "ok s \<Longrightarrow> 0 < n \<Longrightarrow> snd (op (((\<lambda>s. fst (op s)) ^^ n) s)) = snd (op (fst (op s)))"
  by (simp add: op_power)

end

locale replay_safe = retry_safe op ok
  for op :: "'s \<Rightarrow> 's \<times> 'r" and ok :: "'s \<Rightarrow> bool" +
  assumes same_answer: "ok s \<Longrightarrow> snd (op (fst (op s))) = snd (op s)"
begin

lemma replay: "ok s \<Longrightarrow> op (((\<lambda>s. fst (op s)) ^^ n) s) = op s"
proof (cases "n = 0")
  case False
  assume "ok s"
  with False have "((\<lambda>s. fst (op s)) ^^ n) s = fst (op s)" by (simp add: op_power)
  with \<open>ok s\<close> show ?thesis by (simp add: prod_eq_iff op_again same_answer)
qed simp

end

subsection \<open>Jobs that are sent at most once\<close>

locale send_once =
  fixes step :: "'r \<Rightarrow> 'r \<Rightarrow> bool"
    and committed :: "'r \<Rightarrow> bool"
    and claimable :: "'r \<Rightarrow> bool"
  assumes committed_step: "step r r' \<Longrightarrow> committed r \<Longrightarrow> committed r'"
    and committed_not_claimable: "committed r \<Longrightarrow> \<not> claimable r"
begin

lemma committed_steps: "step\<^sup>*\<^sup>* r r' \<Longrightarrow> committed r \<Longrightarrow> committed r'"
  by (induction rule: rtranclp_induct) (auto dest: committed_step)

lemma never_claimable_again: "step\<^sup>*\<^sup>* r r' \<Longrightarrow> committed r \<Longrightarrow> \<not> claimable r'"
  by (blast dest: committed_steps committed_not_claimable)

end

subsection \<open>Budgets\<close>

locale quota =
  fixes consume :: "'u \<Rightarrow> 's \<Rightarrow> 's \<times> bool"
    and budget :: "'s \<Rightarrow> 'u \<Rightarrow> nat"
    and wf :: "'s \<Rightarrow> bool"
  assumes wf_consume: "wf s \<Longrightarrow> wf (fst (consume u s))"
    and granted_iff: "wf s \<Longrightarrow> snd (consume u s) \<longleftrightarrow> 0 < budget s u"
    and budget_consume: "wf s \<Longrightarrow> budget (fst (consume u s)) u = budget s u - 1"
    and budget_other: "wf s \<Longrightarrow> v \<noteq> u \<Longrightarrow> budget (fst (consume u s)) v = budget s v"
begin

text \<open>The answers to a sequence of calls by the users \<open>us\<close>.\<close>

fun answers :: "'u list \<Rightarrow> 's \<Rightarrow> ('u \<times> bool) list" where
  "answers [] s = []"
| "answers (u # us) s = (u, snd (consume u s)) # answers us (fst (consume u s))"

lemma grants_exact:
  "wf s \<Longrightarrow> length (filter (\<lambda>a. a = (u, True)) (answers us s)) = min (count_list us u) (budget s u)"
proof (induction us arbitrary: s)
  case (Cons v us)
  then have IH: "length (filter (\<lambda>a. a = (u, True)) (answers us (fst (consume v s)))) =
      min (count_list us u) (budget (fst (consume v s)) u)"
    by (simp add: wf_consume)
  show ?case
  proof (cases "v = u")
    case True
    with Cons.prems IH show ?thesis
      by (auto simp: granted_iff budget_consume)
  next
    case False
    with Cons.prems IH show ?thesis
      by (auto simp: budget_other [of s u v])
  qed
qed simp

end

end
