(* ===== verification/Usage.thy ===== *)
theory Usage
  imports Transactions Contracts
begin

section \<open>Roast charges and the daily rush (\<^verbatim>\<open>services/usage.py\<close>, \<^verbatim>\<open>routers/cooldowns.py\<close>)\<close>

text \<open>
  Each user has a bucket of at most \<open>max_charges\<close> roasts that refills one charge per
  \<open>cooldown_seconds\<close>. The code recovers lazily: it stores the charges and the time of the last
  whole recovery. Here are the service's functions, the ideal continuous bucket they implement
  (\<open>credit\<close>, in seconds) and the refinement between the two; the second budget is the
  forced roast, once per user and date.
\<close>

definition DEFAULT_ROAST_CHARGE_MAX :: int where
  "DEFAULT_ROAST_CHARGE_MAX = 2"

definition DEFAULT_ROAST_CHARGE_RECOVER_SECONDS :: int where
  "DEFAULT_ROAST_CHARGE_RECOVER_SECONDS = 8 * 3600"

definition clamp_charge_settings :: "int option \<Rightarrow> int option \<Rightarrow> int \<times> int" where
  "clamp_charge_settings max_charges recover_seconds =
     (max 1 (min 6 (int_or max_charges DEFAULT_ROAST_CHARGE_MAX)),
      max 60 (min (7 * 24 * 3600) (int_or recover_seconds DEFAULT_ROAST_CHARGE_RECOVER_SECONDS)))"

definition state_from_legacy_last_use :: "int \<Rightarrow> int \<Rightarrow> int \<Rightarrow> int \<Rightarrow> int \<times> int" where
  "state_from_legacy_last_use last_roast_ts now_ts max_charges recover_seconds =
     (if last_roast_ts \<le> 0 then (max_charges, now_ts)
      else
        let elapsed = max 0 (now_ts - last_roast_ts);
            recovered = elapsed div recover_seconds;
            charges = min max_charges (1 + recovered);
            updated_ts = (if max_charges \<le> charges then now_ts
                          else last_roast_ts + recovered * recover_seconds)
        in (charges, updated_ts))"

definition recover_charges :: "int \<Rightarrow> int \<Rightarrow> int \<Rightarrow> int \<Rightarrow> int \<Rightarrow> int \<times> int" where
  "recover_charges charges updated_ts now_ts max_charges recover_seconds =
     (let charges = max 0 (min max_charges charges);
          updated_ts = int_or (Some updated_ts) now_ts
      in if max_charges \<le> charges then (max_charges, now_ts)
         else
           let elapsed = max 0 (now_ts - updated_ts);
               recovered = elapsed div recover_seconds
           in if recovered \<le> 0 then (charges, updated_ts)
              else
                let charges = min max_charges (charges + recovered);
                    updated_ts = (if max_charges \<le> charges then now_ts
                                  else updated_ts + recovered * recover_seconds)
                in (charges, updated_ts))"

definition next_recover_seconds :: "int \<Rightarrow> int \<Rightarrow> int \<Rightarrow> int \<Rightarrow> int \<Rightarrow> int" where
  "next_recover_seconds charges updated_ts now_ts max_charges recover_seconds =
     (if max_charges \<le> charges then 0
      else
        let elapsed = max 0 (now_ts - int_or (Some updated_ts) now_ts)
        in max 1 (recover_seconds - elapsed mod recover_seconds))"

record consume_roast_response =
  cr_allowed :: bool
  cr_remaining_seconds :: int
  cr_charges_left :: int
  cr_max_charges :: int
  cr_next_recover_seconds :: int

text \<open>The charges and their timestamp that a stored row stands for at \<open>now\<close>.\<close>

definition bucket_of_row :: "user_usage \<Rightarrow> int \<Rightarrow> int \<Rightarrow> int \<Rightarrow> int \<times> int" where
  "bucket_of_row usage now charge_max recover_seconds =
     (let (charges, updated_ts) =
        (case (uu_roast_charges usage, uu_roast_charge_updated_ts usage) of
           (Some c, Some u) \<Rightarrow> (int_or (Some c) 0, int_or (Some u) now)
         | _ \<Rightarrow> state_from_legacy_last_use (int_or (uu_last_roast_ts usage) 0) now charge_max recover_seconds)
      in recover_charges charges updated_ts now charge_max recover_seconds)"

text \<open>The part of \<open>consume_roast_usage\<close> for an existing row.\<close>

definition consume_row :: "user_usage \<Rightarrow> int \<Rightarrow> int \<Rightarrow> int \<Rightarrow> user_usage \<times> consume_roast_response" where
  "consume_row usage now charge_max recover_seconds =
     (let (charges, updated_ts) = bucket_of_row usage now charge_max recover_seconds
      in if charges \<le> 0 then
           let remaining = next_recover_seconds charges updated_ts now charge_max recover_seconds
           in (usage\<lparr>uu_roast_charges := Some charges, uu_roast_charge_updated_ts := Some updated_ts\<rparr>,
               \<lparr>cr_allowed = False, cr_remaining_seconds = remaining, cr_charges_left = 0,
                cr_max_charges = charge_max, cr_next_recover_seconds = remaining\<rparr>)
         else
           let was_full = (charge_max \<le> charges);
               charges = charges - 1;
               updated_ts = (if was_full then now else updated_ts)
           in (usage\<lparr>uu_last_roast_ts := Some now, uu_roast_charges := Some charges,
                     uu_roast_charge_updated_ts := Some updated_ts\<rparr>,
               \<lparr>cr_allowed = True, cr_remaining_seconds = 0, cr_charges_left = charges,
                cr_max_charges = charge_max,
                cr_next_recover_seconds =
                  next_recover_seconds charges updated_ts now charge_max recover_seconds\<rparr>))"

text \<open>\<open>now_ts or time.time()\<close>; \<open>clock\<close> is the server's clock.\<close>

definition effective_now :: "rat option \<Rightarrow> rat \<Rightarrow> int" where
  "effective_now now_ts clock =
     int_of_float (case now_ts of None \<Rightarrow> clock | Some t \<Rightarrow> if t = 0 then clock else t)"

definition consume_roast_usage ::
  "user_id \<Rightarrow> rat option \<Rightarrow> int option \<Rightarrow> int option \<Rightarrow> rat \<Rightarrow> db \<Rightarrow> db \<times> consume_roast_response" where
  "consume_roast_usage user_id now_ts cooldown_seconds max_charges clock db =
     (let now = effective_now now_ts clock;
          (charge_max, recover_seconds) = clamp_charge_settings max_charges cooldown_seconds
      in case one_or_none (\<lambda>u. uu_user_id u = user_id) (user_usage db) of
           None \<Rightarrow>
             let charges_left = max 0 (charge_max - 1)
             in (db\<lparr>user_usage := user_usage db @
                    [\<lparr>uu_user_id = user_id, uu_last_roast_ts = Some now,
                      uu_roast_charges = Some charges_left, uu_roast_charge_updated_ts = Some now,
                      uu_last_force_date = None\<rparr>]\<rparr>,
                 \<lparr>cr_allowed = True, cr_remaining_seconds = 0, cr_charges_left = charges_left,
                  cr_max_charges = charge_max,
                  cr_next_recover_seconds =
                    next_recover_seconds charges_left now now charge_max recover_seconds\<rparr>)
         | Some usage \<Rightarrow>
             (db\<lparr>user_usage := upd_rows (\<lambda>u. uu_user_id u = user_id)
                    (\<lambda>u. fst (consume_row u now charge_max recover_seconds)) (user_usage db)\<rparr>,
              snd (consume_row usage now charge_max recover_seconds)))"

definition consume_force_usage :: "user_id \<Rightarrow> date \<Rightarrow> db \<Rightarrow> db \<times> bool" where
  "consume_force_usage user_id date_str db =
     (case one_or_none (\<lambda>u. uu_user_id u = user_id) (user_usage db) of
        None \<Rightarrow>
          (db\<lparr>user_usage := user_usage db @
             [\<lparr>uu_user_id = user_id, uu_last_roast_ts = None, uu_roast_charges = None,
               uu_roast_charge_updated_ts = None, uu_last_force_date = Some date_str\<rparr>]\<rparr>, True)
      | Some usage \<Rightarrow>
          if uu_last_force_date usage = Some date_str then (db, False)
          else (db\<lparr>user_usage := upd_rows (\<lambda>u. uu_user_id u = user_id)
                     (\<lambda>u. u\<lparr>uu_last_force_date := Some date_str\<rparr>) (user_usage db)\<rparr>, True))"

text \<open>The two endpoints of \<^verbatim>\<open>routers/cooldowns.py\<close>: commit, or retry after a conflicting insert.\<close>

record consume_roast_request =
  cq_user_id :: user_id
  cq_now_ts :: "rat option"
  cq_cooldown_seconds :: "int option"
  cq_max_charges :: "int option"

definition consume_roast :: "consume_roast_request \<Rightarrow> rat \<Rightarrow> (nat \<Rightarrow> error + db) \<Rightarrow> error + db \<times> consume_roast_response" where
  "consume_roast req clock attempt =
     retry_integrity ''consume roast cooldown retry exhausted'' 2
       (\<lambda>k. case attempt k of Inl e \<Rightarrow> Inl e
            | Inr db \<Rightarrow> Inr (consume_roast_usage (cq_user_id req) (cq_now_ts req)
                               (cq_cooldown_seconds req) (cq_max_charges req) clock db))"

definition consume_force :: "user_id \<Rightarrow> date \<Rightarrow> (nat \<Rightarrow> error + db) \<Rightarrow> error + db \<times> bool" where
  "consume_force user_id date_str attempt =
     retry_integrity ''consume force usage retry exhausted'' 2
       (\<lambda>k. case attempt k of Inl e \<Rightarrow> Inl e | Inr db \<Rightarrow> Inr (consume_force_usage user_id date_str db))"

subsection \<open>Settings\<close>

lemma clamp_bounds:
  "clamp_charge_settings mc rs = (m, r) \<Longrightarrow> 1 \<le> m \<and> m \<le> 6 \<and> 60 \<le> r \<and> r \<le> 604800"
  by (auto simp: clamp_charge_settings_def)

subsection \<open>The ideal bucket\<close>

text \<open>
  \<open>credit\<close> is the time credit of a bucket in seconds: each charge is worth
  \<open>recover_seconds\<close>, the time since the last whole recovery counts too, a full bucket does
  not grow.
\<close>

definition credit :: "int \<Rightarrow> int \<Rightarrow> int \<Rightarrow> int \<Rightarrow> int \<Rightarrow> int" where
  "credit m r now c u =
     (if m \<le> max 0 (min m c) then m * r else min (m * r) (max 0 (min m c) * r + (now - u)))"

lemma credit_bounds: "0 < r \<Longrightarrow> 1 \<le> m \<Longrightarrow> u \<le> now \<Longrightarrow> 0 \<le> credit m r now c u \<and> credit m r now c u \<le> m * r"
  by (auto simp: credit_def)

lemma le_div_iff_mult_le: "(0::int) < r \<Longrightarrow> m \<le> k div r \<longleftrightarrow> m * r \<le> k"
proof -
  assume r: "0 < r"
  have "k div r * r \<le> k" and "k < (k div r + 1) * r"
    using div_eq_iff_bounds [OF r, of k "k div r"] by simp_all
  show ?thesis
  proof
    assume "m \<le> k div r"
    with r have "m * r \<le> k div r * r" by simp
    with \<open>k div r * r \<le> k\<close> show "m * r \<le> k" by linarith
  next
    assume "m * r \<le> k"
    with \<open>k < (k div r + 1) * r\<close> have "m * r < (k div r + 1) * r" by linarith
    with r show "m \<le> k div r" by simp
  qed
qed

lemma mod_add_times: "(a * r + e) mod (r::int) = e mod r"
  by simp

lemma recover_charges_refines:
  assumes "0 < r" and "1 \<le> m" and "u \<noteq> 0" and "u \<le> now"
  shows "recover_charges c u now m r =
     (credit m r now c u div r, now - credit m r now c u mod r)"
proof -
  define c0 where "c0 = max 0 (min m c)"
  define e where "e = now - u"
  have c0: "0 \<le> c0" and e: "0 \<le> e" and elapsed: "max 0 (now - u) = e"
    using assms by (auto simp: c0_def e_def)
  have ed: "e = e div r * r + e mod r" and em: "0 \<le> e mod r" "e mod r < r" and q: "0 \<le> e div r"
    using \<open>0 < r\<close> e by (simp_all add: pos_imp_zdiv_nonneg_iff)
  show ?thesis
  proof (cases "m \<le> c0")
    case True
    then have "credit m r now c u = m * r" by (simp add: credit_def c0_def)
    with True \<open>0 < r\<close> show ?thesis by (simp add: recover_charges_def c0_def Let_def)
  next
    case False
    have cr: "credit m r now c u = min (m * r) (c0 * r + e)"
      using False by (simp add: credit_def c0_def e_def)
    have dv: "(c0 * r + e) div r = c0 + e div r"
      using \<open>0 < r\<close> by simp
    have full: "m * r \<le> c0 * r + e \<longleftrightarrow> m \<le> c0 + e div r"
      using le_div_iff_mult_le [OF \<open>0 < r\<close>, of m "c0 * r + e"] dv by simp
    have u: "u = now - e" by (simp add: e_def)
    have lhs: "recover_charges c u now m r =
      (if e div r \<le> 0 then (c0, u)
       else (min m (c0 + e div r),
             if m \<le> c0 + e div r then now else u + e div r * r))"
      unfolding recover_charges_def Let_def c0_def [symmetric] int_or_simps(3) [OF assms(3)] elapsed
      using False by simp
    show ?thesis
    proof (cases "m \<le> c0 + e div r")
      case True
      with False full cr \<open>0 < r\<close> lhs q show ?thesis by (auto simp: min_def)
    next
      case nf: False
      with full have "\<not> m * r \<le> c0 * r + e" by blast
      with cr have "credit m r now c u = c0 * r + e" by simp
      moreover have "u + e div r * r = now - e mod r" using ed u by linarith
      moreover have "e div r = 0 \<Longrightarrow> u = now - e mod r" using ed u by simp
      ultimately show ?thesis
        using nf lhs dv q by (auto simp: mod_add_times)
    qed
  qed
qed


subsection \<open>Rows and the refinement of \<open>consume_roast_usage\<close>\<close>

text \<open>
  The credit a row stands for; a row from before the charge columns existed counts one charge
  since its last use. A row is settled at \<open>now\<close> when its stored times are not in the
  future (and not the \<open>0\<close> that Python takes for a missing value).
\<close>

definition row_credit :: "int \<Rightarrow> int \<Rightarrow> int \<Rightarrow> user_usage \<Rightarrow> int" where
  "row_credit m r now x =
     (case (uu_roast_charges x, uu_roast_charge_updated_ts x) of
        (Some c, Some u) \<Rightarrow> credit m r now c u
      | _ \<Rightarrow> if int_or (uu_last_roast_ts x) 0 \<le> 0 then m * r
             else min (m * r) (r + (now - int_or (uu_last_roast_ts x) 0)))"

definition settled_row :: "int \<Rightarrow> user_usage \<Rightarrow> bool" where
  "settled_row now x \<longleftrightarrow>
     (case (uu_roast_charges x, uu_roast_charge_updated_ts x) of
        (Some c, Some u) \<Rightarrow> 0 < u \<and> u \<le> now
      | _ \<Rightarrow> int_or (uu_last_roast_ts x) 0 \<le> now)"

lemma row_credit_bounds:
  "0 < r \<Longrightarrow> 1 \<le> m \<Longrightarrow> settled_row now x \<Longrightarrow> 0 \<le> row_credit m r now x \<and> row_credit m r now x \<le> m * r"
  using credit_bounds [of r m]
  by (auto simp: row_credit_def settled_row_def split: option.splits)

lemma legacy_bucket:
  assumes "0 < r" and "1 \<le> m" and "0 < now" and "l \<le> now"
    and "state_from_legacy_last_use l now m r = (c, u)"
  shows "0 < u \<and> u \<le> now \<and>
     credit m r now c u = (if l \<le> 0 then m * r else min (m * r) (r + (now - l)))"
proof (cases "l \<le> 0")
  case True
  with assms show ?thesis by (auto simp: state_from_legacy_last_use_def credit_def)
next
  case False
  define e where "e = now - l"
  have e: "0 \<le> e" and elapsed: "max 0 (now - l) = e" and l: "l = now - e"
    using assms(4) by (auto simp: e_def)
  have ed: "e = e div r * r + e mod r" and em: "0 \<le> e mod r" and q: "0 \<le> e div r"
    using \<open>0 < r\<close> e by (simp_all add: pos_imp_zdiv_nonneg_iff)
  have cu: "c = min m (1 + e div r)" "u = (if m \<le> 1 + e div r then now else l + e div r * r)"
    using assms(5) False elapsed
    by (auto simp: state_from_legacy_last_use_def Let_def min_def split: if_splits)
  have full: "m \<le> 1 + e div r \<longleftrightarrow> m * r \<le> r + e"
    using le_div_iff_mult_le [OF \<open>0 < r\<close>, of m "1 * r + e"] \<open>0 < r\<close>
    by (simp add: add.commute)
  show ?thesis
  proof (cases "m \<le> 1 + e div r")
    case True
    with cu full False \<open>0 < now\<close> assms(2) l show ?thesis by (simp add: credit_def min_def)
  next
    case nf: False
    have "credit m r now c u = min (m * r) ((1 + e div r) * r + (now - u))"
      using nf cu(1) q by (simp add: credit_def)
    moreover have "(1 + e div r) * r + (now - u) = r + e"
      using nf cu(2) ed l by (simp add: algebra_simps)
    moreover have "0 < u \<and> u \<le> now"
    proof -
      have "e div r * r \<le> e" using ed em by linarith
      moreover have "0 \<le> e div r * r" using q \<open>0 < r\<close> by simp
      ultimately show ?thesis using nf cu(2) l False by simp
    qed
    ultimately show ?thesis using False l by simp
  qed
qed

lemma bucket_of_row_refines:
  assumes "0 < r" and "1 \<le> m" and "0 < now" and "settled_row now x"
  shows "bucket_of_row x now m r =
     (row_credit m r now x div r, now - row_credit m r now x mod r)"
proof (cases "\<exists>c u. uu_roast_charges x = Some c \<and> uu_roast_charge_updated_ts x = Some u")
  case True
  then obtain c u where cu: "uu_roast_charges x = Some c" "uu_roast_charge_updated_ts x = Some u"
    by blast
  with assms(4) have "0 < u" "u \<le> now" by (auto simp: settled_row_def)
  with cu recover_charges_refines [OF assms(1,2), of u now c] show ?thesis
    by (simp add: bucket_of_row_def row_credit_def)
next
  case False
  define l where "l = int_or (uu_last_roast_ts x) 0"
  obtain c u where cu: "state_from_legacy_last_use l now m r = (c, u)"
    by (metis surj_pair)
  have "l \<le> now" and k: "row_credit m r now x = (if l \<le> 0 then m * r else min (m * r) (r + (now - l)))"
    and b: "bucket_of_row x now m r = recover_charges c u now m r"
    using False assms(4) cu
    by (auto simp: settled_row_def row_credit_def bucket_of_row_def l_def split: option.splits)
  from legacy_bucket [OF assms(1-3) \<open>l \<le> now\<close> cu] k b
    recover_charges_refines [OF assms(1,2), of u now c]
  show ?thesis by simp
qed


lemma updated_positive:
  assumes "0 < r" and "1 \<le> m" and "0 < now" and "settled_row now x"
  shows "0 < now - row_credit m r now x mod r"
proof -
  have small: "(a * r + e) mod r \<le> e" if "0 \<le> e" for a e
    using that \<open>0 < r\<close> by (simp add: zmod_le_nonneg_dividend)
  have full: "m * r mod r = 0" by simp
  show ?thesis
  proof (cases "\<exists>c u. uu_roast_charges x = Some c \<and> uu_roast_charge_updated_ts x = Some u")
    case True
    then obtain c u where cu: "uu_roast_charges x = Some c" "uu_roast_charge_updated_ts x = Some u"
      by blast
    with assms(4) have "0 < u" "u \<le> now" by (auto simp: settled_row_def)
    with small [of "now - u" "max 0 (min m c)"] full \<open>0 < now\<close> cu show ?thesis
      by (auto simp: row_credit_def credit_def min_def simp del: mod_mult_self3)
  next
    case False
    define l where "l = int_or (uu_last_roast_ts x) 0"
    have "l \<le> now"
      and "row_credit m r now x = (if l \<le> 0 then m * r else min (m * r) (1 * r + (now - l)))"
      using False assms(4)
      by (auto simp: settled_row_def row_credit_def l_def split: option.splits)
    with small [of "now - l" 1] full \<open>0 < now\<close> show ?thesis
      by (auto simp: min_def simp del: mod_add_self1 mod_mult_self3)
  qed
qed

lemma row_credit_later:
  assumes "settled_row now x" and "now \<le> t"
  shows "row_credit m r t x = min (m * r) (row_credit m r now x + (t - now))"
  using assms by (auto simp: row_credit_def settled_row_def credit_def min_def split: option.splits)

lemma settled_row_later: "settled_row now x \<Longrightarrow> now \<le> t \<Longrightarrow> settled_row t x"
  by (auto simp: settled_row_def split: option.splits)

lemma quotient_bounds:
  assumes "0 < r" and "0 \<le> K" and "K \<le> m * (r::int)"
  shows "0 \<le> K div r" and "K div r \<le> m" and "K div r \<le> 0 \<longleftrightarrow> \<not> r \<le> K"
  using assms zdiv_mono1 [OF assms(3,1)] le_div_iff_mult_le [OF assms(1), of 1 K]
  by (auto simp: pos_imp_zdiv_nonneg_iff)

text \<open>Taking a charge costs exactly one recovery time of credit, a refusal costs nothing.\<close>

lemma credit_after:
  assumes "0 < r" and "1 \<le> m" and "0 \<le> K" and "K \<le> m * r"
  shows "r \<le> K \<Longrightarrow> credit m r now (K div r - 1) (now - K mod r) = K - r"
    and "\<not> r \<le> K \<Longrightarrow> credit m r now 0 (now - K) = K"
proof -
  note q = quotient_bounds [OF assms(1,3,4)]
  assume "r \<le> K"
  then have "credit m r now (K div r - 1) (now - K mod r) = min (m * r) ((K div r - 1) * r + K mod r)"
    using q by (simp add: credit_def)
  also have "\<dots> = K - r" using assms(1,4) by (simp add: algebra_simps)
  finally show "credit m r now (K div r - 1) (now - K mod r) = K - r" .
next
  assume "\<not> r \<le> K"
  with assms show "credit m r now 0 (now - K) = K" by (simp add: credit_def)
qed

lemma consume_row_refines:
  assumes "0 < r" and "1 \<le> m" and "0 < now" and "settled_row now x"
    and "K = row_credit m r now x" and "consume_row x now m r = (x', resp)"
  shows "cr_allowed resp \<longleftrightarrow> r \<le> K"
    and "settled_row now x'"
    and "row_credit m r now x' = (if r \<le> K then K - r else K)"
    and "\<not> r \<le> K \<Longrightarrow> cr_remaining_seconds resp = r - K"
    and "cr_charges_left resp = (if r \<le> K then K div r - 1 else 0)"
proof -
  have Kb: "0 \<le> K" "K \<le> m * r" using row_credit_bounds [OF assms(1,2,4)] assms(5) by simp_all
  have up: "0 < now - K mod r" using updated_positive [OF assms(1-4)] assms(5) by simp
  have bucket: "bucket_of_row x now m r = (K div r, now - K mod r)"
    using bucket_of_row_refines [OF assms(1-4)] assms(5) by simp
  have K: "K = K div r * r + K mod r" and Km: "0 \<le> K mod r" "K mod r < r"
    using \<open>0 < r\<close> by simp_all
  note q = quotient_bounds [OF assms(1) Kb]
  show "cr_allowed resp \<longleftrightarrow> r \<le> K"
    and "cr_charges_left resp = (if r \<le> K then K div r - 1 else 0)"
    using assms(6) bucket q(3) by (auto simp: consume_row_def Let_def)
  have full: "now = now - K mod r" if "m \<le> K div r"
  proof -
    from that q have "K div r = m" by simp
    with K Kb(2) Km show ?thesis by simp
  qed
  show "settled_row now x'"
    using assms(6) bucket up Km \<open>0 < now\<close>
    by (auto simp: consume_row_def Let_def settled_row_def split: if_splits)
  show "row_credit m r now x' = (if r \<le> K then K - r else K)"
  proof (cases "r \<le> K")
    case True
    then have "row_credit m r now x' = credit m r now (K div r - 1) (now - K mod r)"
      using assms(6) bucket q full by (auto simp: consume_row_def Let_def row_credit_def)
    with True credit_after(1) [OF assms(1,2) Kb] show ?thesis by simp
  next
    case False
    then have "K div r = 0" and "K mod r = K" using q K by auto
    then have "row_credit m r now x' = credit m r now 0 (now - K)"
      using assms(6) bucket by (auto simp: consume_row_def Let_def row_credit_def)
    with False credit_after(2) [OF assms(1,2) Kb] show ?thesis by simp
  qed
  show "cr_remaining_seconds resp = r - K" if "\<not> r \<le> K"
  proof -
    have zero: "K div r = 0" and mk: "K mod r = K" using that q K by auto
    have "next_recover_seconds 0 (now - K) now m r = r - K"
      using up mk assms(2) that Kb by (simp add: next_recover_seconds_def Let_def)
    with zero mk show ?thesis
      using assms(6) bucket by (auto simp: consume_row_def Let_def)
  qed
qed


subsection \<open>The service on the database\<close>

definition user_credit :: "int \<Rightarrow> int \<Rightarrow> int \<Rightarrow> user_id \<Rightarrow> db \<Rightarrow> int" where
  "user_credit m r now u db =
     (case one_or_none (\<lambda>x. uu_user_id x = u) (user_usage db) of
        None \<Rightarrow> m * r | Some x \<Rightarrow> row_credit m r now x)"

definition settled :: "int \<Rightarrow> user_id \<Rightarrow> db \<Rightarrow> bool" where
  "settled now u db \<longleftrightarrow>
     (case one_or_none (\<lambda>x. uu_user_id x = u) (user_usage db) of
        None \<Rightarrow> True | Some x \<Rightarrow> settled_row now x)"

lemma settled_later: "settled now u db \<Longrightarrow> now \<le> t \<Longrightarrow> settled t u db"
  by (auto simp: settled_def settled_row_later split: option.splits)

lemma user_credit_later:
  "settled now u db \<Longrightarrow> now \<le> t \<Longrightarrow>
   user_credit m r t u db = min (m * r) (user_credit m r now u db + (t - now))"
proof (cases "one_or_none (\<lambda>x. uu_user_id x = u) (user_usage db)")
  case (Some x)
  assume "settled now u db" and "now \<le> t"
  with Some row_credit_later [of now x t m r] show ?thesis
    by (simp add: settled_def user_credit_def)
qed (simp add: user_credit_def)

lemma user_credit_bounds:
  "0 < r \<Longrightarrow> 1 \<le> m \<Longrightarrow> settled now u db \<Longrightarrow>
   0 \<le> user_credit m r now u db \<and> user_credit m r now u db \<le> m * r"
  by (cases "one_or_none (\<lambda>x. uu_user_id x = u) (user_usage db)")
     (simp_all add: settled_def user_credit_def row_credit_bounds)

lemma fst_consume_row_user [simp]: "uu_user_id (fst (consume_row x now m r)) = uu_user_id x"
  by (simp add: consume_row_def Let_def split: prod.split)

lemma fst_consume_row_force [simp]:
  "uu_last_force_date (fst (consume_row x now m r)) = uu_last_force_date x"
  by (simp add: consume_row_def Let_def split: prod.split)

lemma effective_now_int [simp]: "0 < t \<Longrightarrow> effective_now (Some (of_int t)) clock = t"
  by (simp add: effective_now_def)

lemma consume_lookup:
  assumes "consume_roast_usage u now_ts cd mc clock db = (db', resp)"
    and "clamp_charge_settings mc cd = (m, r)" and "now = effective_now now_ts clock"
  shows "one_or_none (\<lambda>x. uu_user_id x = v) (user_usage db') =
     (if v = u
      then (case one_or_none (\<lambda>x. uu_user_id x = u) (user_usage db) of
              None \<Rightarrow> Some \<lparr>uu_user_id = u, uu_last_roast_ts = Some now,
                uu_roast_charges = Some (max 0 (m - 1)), uu_roast_charge_updated_ts = Some now,
                uu_last_force_date = None\<rparr>
            | Some x \<Rightarrow> Some (fst (consume_row x now m r)))
      else one_or_none (\<lambda>x. uu_user_id x = v) (user_usage db))"
  using assms
  by (auto simp: consume_roast_usage_def Let_def one_or_none_append one_or_none_upd_key
      split: option.splits)

theorem consume_roast_usage_refines:
  assumes "clamp_charge_settings mc cd = (m, r)" and "0 < t" and "settled t u db"
    and "K = user_credit m r t u db"
    and "consume_roast_usage u (Some (of_int t)) cd mc clock db = (db', resp)"
  shows "(cr_allowed resp \<longleftrightarrow> r \<le> K) \<and>
     user_credit m r t u db' = (if r \<le> K then K - r else K) \<and>
     cr_charges_left resp = (if r \<le> K then K div r - 1 else 0) \<and>
     (r \<le> K \<or> cr_remaining_seconds resp = r - K) \<and>
     settled t u db'"
proof -
  have mr: "1 \<le> m" "0 < r" using clamp_bounds [OF assms(1)] by auto
  note look = consume_lookup [OF assms(5,1) refl, of u, unfolded effective_now_int [OF assms(2)]]
  show ?thesis
  proof (cases "one_or_none (\<lambda>x. uu_user_id x = u) (user_usage db)")
    case None
    have "m * r div r = m" "r \<le> m * r" using mr by simp_all
    moreover have "credit m r t (m - 1) t = m * r - r"
      using mr by (simp add: credit_def algebra_simps)
    moreover have "cr_allowed resp" "cr_charges_left resp = m - 1"
      using assms(1,2,5) None mr(1) by (auto simp: consume_roast_usage_def Let_def)
    ultimately show ?thesis
      using None assms(2-4) mr look
      by (simp add: user_credit_def row_credit_def settled_def settled_row_def)
  next
    case (Some x)
    then have x: "settled_row t x" "K = row_credit m r t x"
      using assms(3,4) by (auto simp: settled_def user_credit_def)
    have resp: "resp = snd (consume_row x t m r)"
      using assms(1,2,5) Some by (auto simp: consume_roast_usage_def)
    from consume_row_refines [OF mr(2,1) assms(2) x, of "fst (consume_row x t m r)" resp] resp Some look
    show ?thesis by (auto simp: user_credit_def settled_def)
  qed
qed

text \<open>The calls of one user at the given (integer) times, and what each was answered.\<close>

fun roast_calls :: "user_id \<Rightarrow> int option \<Rightarrow> int option \<Rightarrow> int list \<Rightarrow> db \<Rightarrow> bool list" where
  "roast_calls u cd mc [] db = []"
| "roast_calls u cd mc (t # ts) db =
     (let (db', resp) = consume_roast_usage u (Some (of_int t)) cd mc 0 db
      in cr_allowed resp # roast_calls u cd mc ts db')"

lemma roast_calls_credit:
  assumes "clamp_charge_settings mc cd = (m, r)" and "0 < now" and "settled now u db"
    and "sorted (now # ts)" and "\<forall>t\<in>set ts. t \<le> end" and "now \<le> end"
  shows "int (count_list (roast_calls u cd mc ts db) True) * r \<le> user_credit m r now u db + (end - now)"
  using assms(2-)
proof (induction ts arbitrary: db now)
  case Nil
  have mr: "1 \<le> m" "0 < r" using clamp_bounds [OF assms(1)] by auto
  with Nil user_credit_bounds [of r m now u db] show ?case by simp
next
  case (Cons t ts)
  obtain db' resp where call: "consume_roast_usage u (Some (of_int t)) cd mc 0 db = (db', resp)"
    by (metis surj_pair)
  define K where "K = user_credit m r t u db"
  have t: "now \<le> t" "0 < t" "t \<le> end" "settled t u db"
    using Cons.prems settled_later by auto
  note ref = consume_roast_usage_refines [OF assms(1) t(2,4) K_def call]
  have "int (count_list (roast_calls u cd mc ts db') True) * r \<le> user_credit m r t u db' + (end - t)"
    using Cons.prems t ref by (intro Cons.IH) auto
  moreover have "K \<le> user_credit m r now u db + (t - now)"
    using user_credit_later [OF Cons.prems(2) t(1), of m r] by (simp add: K_def)
  ultimately show ?case
    using call ref K_def by (cases "r \<le> K") (simp_all add: distrib_right)
qed

subsection \<open>The forced roast\<close>

lemma consume_force_lookup:
  "one_or_none (\<lambda>x. uu_user_id x = v) (user_usage (fst (consume_force_usage u d db))) =
     (if v = u
      then (case one_or_none (\<lambda>x. uu_user_id x = u) (user_usage db) of
              None \<Rightarrow> Some \<lparr>uu_user_id = u, uu_last_roast_ts = None, uu_roast_charges = None,
                uu_roast_charge_updated_ts = None, uu_last_force_date = Some d\<rparr>
            | Some x \<Rightarrow> Some (x\<lparr>uu_last_force_date := Some d\<rparr>))
      else one_or_none (\<lambda>x. uu_user_id x = v) (user_usage db))"
  by (auto simp: consume_force_usage_def one_or_none_append one_or_none_upd_key
      dest: one_or_none_SomeD split: option.splits)

definition force_left :: "date \<Rightarrow> db \<Rightarrow> user_id \<Rightarrow> nat" where
  "force_left d db u =
     (case one_or_none (\<lambda>x. uu_user_id x = u) (user_usage db) of
        None \<Rightarrow> 1 | Some x \<Rightarrow> if uu_last_force_date x = Some d then 0 else 1)"


text \<open>
  Both budgets meet the contract: the forced roast is a budget of one unit per user and date, and
  at a fixed instant the bucket is a budget of its whole charges.
\<close>

interpretation force_quota: quota "\<lambda>u. consume_force_usage u d" "force_left d" "\<lambda>_. True"
  for d :: date
proof unfold_locales
  fix u s
  show "snd (consume_force_usage u d s) \<longleftrightarrow> 0 < force_left d s u"
    by (simp add: consume_force_usage_def force_left_def split: option.split)
  show "force_left d (fst (consume_force_usage u d s)) u = force_left d s u - 1"
    by (auto simp: force_left_def consume_force_lookup split: option.splits)
  show "force_left d (fst (consume_force_usage u d s)) v = force_left d s v" if "v \<noteq> u" for v
    using that by (simp add: force_left_def consume_force_lookup)
qed simp

definition roast_at :: "int \<Rightarrow> int option \<Rightarrow> int option \<Rightarrow> user_id \<Rightarrow> db \<Rightarrow> db \<times> bool" where
  "roast_at t cd mc u db =
     (let (db', resp) = consume_roast_usage u (Some (of_int t)) cd mc 0 db in (db', cr_allowed resp))"

definition roasts_left :: "int \<Rightarrow> int option \<Rightarrow> int option \<Rightarrow> db \<Rightarrow> user_id \<Rightarrow> nat" where
  "roasts_left t cd mc db u =
     (let (m, r) = clamp_charge_settings mc cd in nat (user_credit m r t u db div r))"

lemma roast_at_other:
  assumes "v \<noteq> u" and "0 < t"
  shows "user_credit m r t v (fst (roast_at t cd mc u db)) = user_credit m r t v db"
    and "settled t v (fst (roast_at t cd mc u db)) = settled t v db"
proof -
  obtain db' resp where call: "consume_roast_usage u (Some (of_int t)) cd mc 0 db = (db', resp)"
    by (metis surj_pair)
  obtain m' r' where clamp: "clamp_charge_settings mc cd = (m', r')" by (metis surj_pair)
  from consume_lookup [OF call clamp refl, of v] assms(1) call
  show "user_credit m r t v (fst (roast_at t cd mc u db)) = user_credit m r t v db"
    and "settled t v (fst (roast_at t cd mc u db)) = settled t v db"
    by (simp_all add: roast_at_def user_credit_def settled_def)
qed

lemma roast_at_same:
  assumes "clamp_charge_settings mc cd = (m, r)" and "0 < t" and "settled t u db"
  shows "snd (roast_at t cd mc u db) \<longleftrightarrow> r \<le> user_credit m r t u db"
    and "user_credit m r t u (fst (roast_at t cd mc u db)) =
      (if r \<le> user_credit m r t u db then user_credit m r t u db - r else user_credit m r t u db)"
    and "settled t u (fst (roast_at t cd mc u db))"
proof -
  obtain db' resp where call: "consume_roast_usage u (Some (of_int t)) cd mc 0 db = (db', resp)"
    by (metis surj_pair)
  from consume_roast_usage_refines [OF assms refl call] call
  show "snd (roast_at t cd mc u db) \<longleftrightarrow> r \<le> user_credit m r t u db"
    and "user_credit m r t u (fst (roast_at t cd mc u db)) =
      (if r \<le> user_credit m r t u db then user_credit m r t u db - r else user_credit m r t u db)"
    and "settled t u (fst (roast_at t cd mc u db))"
    by (simp_all add: roast_at_def)
qed

interpretation roast_quota: quota "roast_at t cd mc" "roasts_left t cd mc"
    "\<lambda>db. 0 < t \<and> (\<forall>u. settled t u db)"
  for t :: int and cd mc :: "int option"
proof unfold_locales
  fix u s
  obtain m r where clamp: "clamp_charge_settings mc cd = (m, r)" by (metis surj_pair)
  with clamp_bounds have r: "0 < r" by fastforce
  assume "0 < t \<and> (\<forall>u. settled t u s)"
  then have t: "0 < t" and all: "\<And>v. settled t v s" by auto
  note same = roast_at_same [OF clamp t all [of u]]
  show "0 < t \<and> (\<forall>v. settled t v (fst (roast_at t cd mc u s)))"
    using t all same(3) roast_at_other(2) [OF _ t] by metis
  show "snd (roast_at t cd mc u s) \<longleftrightarrow> 0 < roasts_left t cd mc s u"
    using same(1) clamp le_div_iff_mult_le [OF r, of 1 "user_credit m r t u s"]
    by (auto simp: roasts_left_def)
  have "(user_credit m r t u s - r) div r = user_credit m r t u s div r - 1"
    using r div_add_self2 [of r "user_credit m r t u s - r"] by simp
  then show "roasts_left t cd mc (fst (roast_at t cd mc u s)) u = roasts_left t cd mc s u - 1"
    using same(2) clamp le_div_iff_mult_le [OF r, of 1 "user_credit m r t u s"]
    by (cases "r \<le> user_credit m r t u s") (simp_all add: roasts_left_def nat_diff_distrib)
  show "roasts_left t cd mc (fst (roast_at t cd mc u s)) v = roasts_left t cd mc s v" if "v \<noteq> u" for v
    using roast_at_other(1) [OF that t] by (simp add: roasts_left_def)
qed

text \<open>The answers to a sequence of forced calls for one date, by the users \<open>us\<close>.\<close>

fun force_calls :: "date \<Rightarrow> user_id list \<Rightarrow> db \<Rightarrow> (user_id \<times> bool) list" where
  "force_calls d [] db = []"
| "force_calls d (u # us) db =
     (let (db', granted) = consume_force_usage u d db in (u, granted) # force_calls d us db')"

lemma force_calls_answers: "force_calls d us db = force_quota.answers d us db"
  by (induction us arbitrary: db) (auto split: prod.splits)

subsection \<open>Properties\<close>

text \<open>
  C1: The roast limit is a true rate limit. Whatever the calls of a user between the instants
  \<open>a\<close> and \<open>b\<close> are, the server grants at most the bucket size plus one roast per whole
  recovery period of the window.
\<close>

theorem roast_rate_bound:
  assumes "clamp_charge_settings mc cd = (m, r)" and "0 < a" and "settled a u db"
    and "sorted (a # ts)" and "\<forall>t\<in>set ts. t \<le> b" and "a \<le> b"
  shows "int (count_list (roast_calls u cd mc ts db) True) \<le> m + (b - a) div r"
proof -
  have mr: "1 \<le> m" "0 < r" using clamp_bounds [OF assms(1)] by auto
  have "int (count_list (roast_calls u cd mc ts db) True) * r \<le> m * r + (b - a)"
    using roast_calls_credit [OF assms] user_credit_bounds [OF mr(2,1) assms(3)] by linarith
  then have "int (count_list (roast_calls u cd mc ts db) True) \<le> (m * r + (b - a)) div r"
    using le_div_iff_mult_le [OF mr(2)] by blast
  also have "\<dots> = m + (b - a) div r" using mr by simp
  finally show ?thesis .
qed

theorem roast_rate_bound_witness:
  "int (count_list (roast_calls ''u'' (Some 60) (Some 3) [1000, 1001, 1059, 1060] empty_db) True) \<le> 3 + (1060 - 1000) div 60"
  by (rule roast_rate_bound [where m = 3 and r = 60])
     (simp_all add: clamp_charge_settings_def settled_def empty_db_def)

text \<open>
  C14: A refusal names the exact waiting time. After a call at \<open>t\<close> was refused with
  \<open>remaining_seconds\<close>, the next call at \<open>t'\<close> is granted if and only if that time has passed.
\<close>

theorem roast_refusal_exact:
  assumes "clamp_charge_settings mc cd = (m, r)" and "0 < t" and "settled t u db" and "t \<le> t'"
    and "consume_roast_usage u (Some (of_int t)) cd mc clock db = (db', resp)"
    and "\<not> cr_allowed resp"
  shows "cr_allowed (snd (consume_roast_usage u (Some (of_int t')) cd mc clock db')) \<longleftrightarrow>
     t + cr_remaining_seconds resp \<le> t'"
proof -
  have mr: "1 \<le> m" "0 < r" using clamp_bounds [OF assms(1)] by auto
  define K where "K = user_credit m r t u db"
  from consume_roast_usage_refines [OF assms(1-3) K_def assms(5)] assms(6)
  have K: "\<not> r \<le> K" "user_credit m r t u db' = K" "cr_remaining_seconds resp = r - K" "settled t u db'"
    by auto
  have "r \<le> m * r" using mr by simp
  moreover have "user_credit m r t' u db' = min (m * r) (K + (t' - t))"
    using user_credit_later [OF K(4) assms(4), of m r] K(2) by simp
  ultimately have "r \<le> user_credit m r t' u db' \<longleftrightarrow> t + (r - K) \<le> t'" by auto
  moreover obtain db'' resp' where call:
    "consume_roast_usage u (Some (of_int t')) cd mc clock db' = (db'', resp')" by (metis surj_pair)
  moreover have "settled t' u db'" using K(4) assms(4) by (rule settled_later)
  ultimately show ?thesis
    using consume_roast_usage_refines [OF assms(1) _ _ refl call] assms(2,4) K(3) by simp
qed

definition busy_db :: db where
  "busy_db = empty_db\<lparr>user_usage := [\<lparr>uu_user_id = ''u'', uu_last_roast_ts = Some 990,
     uu_roast_charges = Some 0, uu_roast_charge_updated_ts = Some 990, uu_last_force_date = None\<rparr>]\<rparr>"

theorem roast_refusal_exact_witness:
  "cr_allowed (snd (consume_roast_usage ''u'' (Some (of_int 1050)) (Some 60) (Some 3) 0
     (fst (consume_roast_usage ''u'' (Some (of_int 1000)) (Some 60) (Some 3) 0 busy_db)))) \<longleftrightarrow>
   1000 + cr_remaining_seconds (snd (consume_roast_usage ''u'' (Some (of_int 1000)) (Some 60) (Some 3) 0 busy_db)) \<le> 1050"
proof (rule roast_refusal_exact [where m = 3 and r = 60])
  show "\<not> cr_allowed (snd (consume_roast_usage ''u'' (Some (of_int 1000)) (Some 60) (Some 3) 0 busy_db))"
    by (simp add: consume_roast_usage_def effective_now_def int_of_float_def clamp_charge_settings_def
        busy_db_def empty_db_def consume_row_def bucket_of_row_def recover_charges_def Let_def)
qed (simp_all add: clamp_charge_settings_def settled_def settled_row_def busy_db_def)

text \<open>
  C16: The forced roast is granted at most once per user and date: among any calls of any users
  for one date, each user gets exactly one grant if he called at all and none was used before.
\<close>

theorem force_once_per_date:
  "length (filter (\<lambda>a. a = (u, True)) (force_calls d us db)) = min (count_list us u) (force_left d db u)"
  unfolding force_calls_answers by (rule force_quota.grants_exact) simp

end
