(* ===== verification/Progress.thy ===== *)
theory Progress
  imports Transactions Contracts
begin

section \<open>Growth, collections and the daily feed (\<^verbatim>\<open>services/progress.py\<close>)\<close>

text \<open>
  A roll gives the user a copy of a pig, a roast success feeds the pig of the day once per date.
  Both raise the pig's EX level. \<open>tenant\<close> is \<open>settings.default_tenant_id\<close>, \<open>now\<close> the
  database's clock (\<open>server_default=func.now()\<close>).
\<close>

definition MAX_EXPERT_LEVEL :: int where
  "MAX_EXPERT_LEVEL = 5"

record created_roll_progress =
  cp_is_new_pig :: bool
  cp_previous_copies :: int
  cp_copies_after_roll :: int
  cp_previous_expert_level :: int
  cp_expert_level_after_roll :: int
  cp_collection_size_after_roll :: int
  cp_previous_duplicate_streak :: int
  cp_duplicate_streak_after_roll :: int

definition expert_level :: "int \<Rightarrow> int \<Rightarrow> int" where
  "expert_level copies growth_bonus = min (max (copies - 1 + growth_bonus) 0) MAX_EXPERT_LEVEL"

definition get_collection :: "user_id \<Rightarrow> pig_id \<Rightarrow> db \<Rightarrow> collection option" where
  "get_collection user_id pig_id db =
     one_or_none (\<lambda>c. collection_key c = (user_id, pig_id)) (collections db)"

definition ensure_collection :: "datetime \<Rightarrow> user_id \<Rightarrow> pig_id \<Rightarrow> db \<Rightarrow> db" where
  "ensure_collection now user_id pig_id db =
     (case get_collection user_id pig_id db of
        Some _ \<Rightarrow> db
      | None \<Rightarrow> db\<lparr>collections := collections db @
          [\<lparr>co_user_id = user_id, co_pig_id = pig_id, co_first_seen_at = now\<rparr>]\<rparr>)"

definition get_progress :: "string \<Rightarrow> user_id \<Rightarrow> pig_id \<Rightarrow> db \<Rightarrow> user_pig_progress option" where
  "get_progress tenant user_id pig_id db =
     one_or_none (\<lambda>p. progress_key p = (tenant, user_id, pig_id)) (user_pig_progress db)"

definition get_draw_state :: "string \<Rightarrow> user_id \<Rightarrow> db \<Rightarrow> user_draw_state option" where
  "get_draw_state tenant user_id db =
     one_or_none (\<lambda>s. draw_state_key s = (tenant, user_id)) (user_draw_state db)"

text \<open>The assignment to a loaded progress or draw-state row.\<close>

definition set_progress :: "string \<Rightarrow> user_id \<Rightarrow> pig_id \<Rightarrow> (user_pig_progress \<Rightarrow> user_pig_progress) \<Rightarrow> db \<Rightarrow> db" where
  "set_progress tenant user_id pig_id f db =
     db\<lparr>user_pig_progress :=
          upd_rows (\<lambda>p. progress_key p = (tenant, user_id, pig_id)) f (user_pig_progress db)\<rparr>"

definition add_progress :: "user_pig_progress \<Rightarrow> db \<Rightarrow> db" where
  "add_progress p db = db\<lparr>user_pig_progress := user_pig_progress db @ [p]\<rparr>"

definition set_streak :: "string \<Rightarrow> user_id \<Rightarrow> int \<Rightarrow> db \<Rightarrow> db" where
  "set_streak tenant user_id streak db =
     (case get_draw_state tenant user_id db of
        Some _ \<Rightarrow> db\<lparr>user_draw_state :=
          upd_rows (\<lambda>s. draw_state_key s = (tenant, user_id))
            (\<lambda>s. s\<lparr>ds_duplicate_streak := streak\<rparr>) (user_draw_state db)\<rparr>
      | None \<Rightarrow> db\<lparr>user_draw_state := user_draw_state db @
          [\<lparr>ds_tenant_id = tenant, ds_user_id = user_id, ds_duplicate_streak = streak\<rparr>]\<rparr>)"

definition collection_size :: "user_id \<Rightarrow> db \<Rightarrow> int" where
  "collection_size user_id db = int (length (filter (\<lambda>c. co_user_id c = user_id) (collections db)))"

definition apply_created_roll_progress ::
  "string \<Rightarrow> datetime \<Rightarrow> user_id \<Rightarrow> pig_id \<Rightarrow> db \<Rightarrow> db \<times> created_roll_progress" where
  "apply_created_roll_progress tenant now user_id pig_id db =
     (let collection = get_collection user_id pig_id db;
          progress = get_progress tenant user_id pig_id db;
          draw_state = get_draw_state tenant user_id db;
          previous_duplicate_streak = (case draw_state of Some s \<Rightarrow> ds_duplicate_streak s | None \<Rightarrow> 0);
          is_new_pig = (collection = None \<and> progress = None);
          growth_bonus = (case progress of Some p \<Rightarrow> max 0 (up_growth_bonus p) | None \<Rightarrow> 0);
          db1 = ensure_collection now user_id pig_id db;
          (previous_copies, copies, duplicate_streak, db2) =
            (if is_new_pig then
               (0, 1, 0,
                add_progress \<lparr>up_tenant_id = tenant, up_user_id = user_id, up_pig_id = pig_id,
                  up_copies = 1, up_growth_bonus = 0, up_first_obtained_at = now\<rparr> db1)
             else
               let previous_copies = (case progress of Some p \<Rightarrow> up_copies p | None \<Rightarrow> 1);
                   copies = previous_copies + 1;
                   duplicate_streak = previous_duplicate_streak + 1
               in (previous_copies, copies, duplicate_streak,
                   case progress of
                     Some _ \<Rightarrow> set_progress tenant user_id pig_id (\<lambda>p. p\<lparr>up_copies := copies\<rparr>) db1
                   | None \<Rightarrow> add_progress \<lparr>up_tenant_id = tenant, up_user_id = user_id,
                       up_pig_id = pig_id, up_copies = copies, up_growth_bonus = 0,
                       up_first_obtained_at =
                         (case collection of Some c \<Rightarrow> co_first_seen_at c | None \<Rightarrow> now)\<rparr> db1));
          db3 = set_streak tenant user_id duplicate_streak db2
      in (db3,
          \<lparr>cp_is_new_pig = is_new_pig,
           cp_previous_copies = previous_copies,
           cp_copies_after_roll = copies,
           cp_previous_expert_level = expert_level previous_copies growth_bonus,
           cp_expert_level_after_roll = expert_level copies growth_bonus,
           cp_collection_size_after_roll = collection_size user_id db3,
           cp_previous_duplicate_streak = previous_duplicate_streak,
           cp_duplicate_streak_after_roll = duplicate_streak\<rparr>))"

subsection \<open>The daily feed\<close>

text \<open>\<open>(row.appearance_snapshot or {}).get("is_makeup") is True\<close>.\<close>

definition is_makeup :: "daily_roll \<Rightarrow> bool" where
  "is_makeup r = (case dr_appearance_snapshot r of None \<Rightarrow> False | Some a \<Rightarrow> ap_is_makeup a)"

definition get_daily_roll :: "date \<Rightarrow> user_id \<Rightarrow> db \<Rightarrow> daily_roll option" where
  "get_daily_roll d user_id db = one_or_none (\<lambda>r. daily_roll_key r = (d, user_id)) (daily_rolls db)"

definition get_daily_feed :: "date \<Rightarrow> user_id \<Rightarrow> db \<Rightarrow> user_daily_feed option" where
  "get_daily_feed d user_id db = one_or_none (\<lambda>r. daily_feed_key r = (d, user_id)) (user_daily_feeds db)"

text \<open>The answer when the date's feed of the user is already recorded.\<close>

definition existing_feed_result :: "user_id \<Rightarrow> string \<Rightarrow> string \<Rightarrow> user_daily_feed \<Rightarrow> daily_feed_result" where
  "existing_feed_result user_id source_type source_id existing =
     (let same_source = (df_source_type existing = source_type \<and> df_source_id existing = source_id)
      in \<lparr>fr_status = (if same_source then Fed else AlreadyFed), fr_user_id = user_id,
          fr_pig_id = df_pig_id existing, fr_previous_level = df_previous_level existing,
          fr_new_level = df_new_level existing, fr_source_type = source_type,
          fr_source_id = source_id, fr_created_at = Some (df_created_at existing)\<rparr>)"

text \<open>The progress row of the fed pig, created with one copy when an old roll has none.\<close>

definition loaded_progress ::
  "string \<Rightarrow> datetime \<Rightarrow> user_id \<Rightarrow> pig_id \<Rightarrow> db \<Rightarrow> user_pig_progress \<times> db" where
  "loaded_progress tenant now user_id pig_id db =
     (case get_progress tenant user_id pig_id db of
        Some p \<Rightarrow> (p, db)
      | None \<Rightarrow>
        let p = \<lparr>up_tenant_id = tenant, up_user_id = user_id, up_pig_id = pig_id,
                 up_copies = 1, up_growth_bonus = 0,
                 up_first_obtained_at =
                   (case get_collection user_id pig_id db of
                      Some c \<Rightarrow> co_first_seen_at c | None \<Rightarrow> now)\<rparr>
        in (p, add_progress p db))"

text \<open>
  \<open>race\<close> is what the insert in the savepoint meets: \<open>None\<close> that it succeeds,
  \<open>Some x\<close> that another transaction has inserted the same key, \<open>x\<close> being the row the
  following select finds (\<open>None\<close> if it finds none, and the conflict is re-raised).
\<close>

definition apply_daily_feed ::
  "string \<Rightarrow> datetime \<Rightarrow> date \<Rightarrow> user_id \<Rightarrow> string \<Rightarrow> string \<Rightarrow> user_daily_feed option option \<Rightarrow>
   db \<Rightarrow> error + db \<times> daily_feed_result" where
  "apply_daily_feed tenant now date_str user_id source_type source_id race db =
     (case get_daily_roll date_str user_id db of
        None \<Rightarrow> Inr (db, \<lparr>fr_status = NoDailyPig, fr_user_id = user_id, fr_pig_id = '''',
                  fr_previous_level = 0, fr_new_level = 0, fr_source_type = source_type,
                  fr_source_id = source_id, fr_created_at = None\<rparr>)
      | Some daily_roll \<Rightarrow>
        if is_makeup daily_roll then
          Inr (db, \<lparr>fr_status = NoDailyPig, fr_user_id = user_id, fr_pig_id = '''',
                  fr_previous_level = 0, fr_new_level = 0, fr_source_type = source_type,
                  fr_source_id = source_id, fr_created_at = None\<rparr>)
        else (case get_daily_feed date_str user_id db of
          Some existing \<Rightarrow> Inr (db, existing_feed_result user_id source_type source_id existing)
        | None \<Rightarrow>
          let pig_id = dr_pig_id daily_roll;
              (progress, db1) = loaded_progress tenant now user_id pig_id db;
              previous_level = expert_level (up_copies progress) (up_growth_bonus progress)
          in if MAX_EXPERT_LEVEL \<le> previous_level then
               Inr (db1, \<lparr>fr_status = MaxLevel, fr_user_id = user_id, fr_pig_id = pig_id,
                  fr_previous_level = previous_level, fr_new_level = previous_level,
                  fr_source_type = source_type, fr_source_id = source_id, fr_created_at = None\<rparr>)
             else
               let next_growth_bonus = max 0 (up_growth_bonus progress) + 1;
                   new_level = expert_level (up_copies progress) next_growth_bonus;
                   feed_row = \<lparr>df_date_str = date_str, df_user_id = user_id, df_pig_id = pig_id,
                     df_source_type = source_type, df_source_id = source_id,
                     df_previous_level = previous_level, df_new_level = new_level,
                     df_created_at = now\<rparr>
               in (case race of
                     Some None \<Rightarrow> Inl IntegrityError
                   | Some (Some existing) \<Rightarrow>
                       Inr (db1, existing_feed_result user_id source_type source_id existing)
                   | None \<Rightarrow>
                       Inr (set_progress tenant user_id pig_id
                              (\<lambda>p. p\<lparr>up_growth_bonus := next_growth_bonus\<rparr>)
                              (db1\<lparr>user_daily_feeds := user_daily_feeds db1 @ [feed_row]\<rparr>),
                            \<lparr>fr_status = Fed, fr_user_id = user_id, fr_pig_id = pig_id,
                             fr_previous_level = previous_level, fr_new_level = new_level,
                             fr_source_type = source_type, fr_source_id = source_id,
                             fr_created_at = Some now\<rparr>))))"


subsection \<open>Lookup responses\<close>

record outcome_snapshot =
  os_snapshot_available :: bool
  os_collection_size_after_roll :: int
  os_resource_version :: string
  os_payload :: appearance_payload

record daily_roll_lookup_response =
  lr_is_makeup :: bool
  lr_pig_id :: "pig_id option"
  lr_created :: bool
  lr_is_new_pig :: bool
  lr_previous_copies :: int
  lr_copies :: int
  lr_previous_expert_level :: int
  lr_expert_level :: int
  lr_daily_feed_result :: "daily_feed_result option"
  lr_previous_duplicate_streak :: int
  lr_duplicate_streak :: int
  lr_outcome_snapshot :: "outcome_snapshot option"

definition empty_payload :: appearance_payload where
  "empty_payload = \<lparr>resolved_variant_level = 0, resolved_image_name = [],
     unlocked_variant_levels = [], unlocked_variant_fields = []\<rparr>"

definition growth_snapshot_available :: "daily_roll \<Rightarrow> bool" where
  "growth_snapshot_available r \<longleftrightarrow>
     dr_is_new_pig r \<noteq> None \<and> dr_previous_copies r \<noteq> None \<and> dr_copies_after_roll r \<noteq> None \<and>
     dr_collection_size_after_roll r \<noteq> None \<and> dr_previous_duplicate_streak r \<noteq> None \<and>
     dr_duplicate_streak_after_roll r \<noteq> None"

definition no_roll_response :: "bool \<Rightarrow> daily_roll_lookup_response" where
  "no_roll_response created =
     \<lparr>lr_is_makeup = False, lr_pig_id = None, lr_created = created, lr_is_new_pig = False,
      lr_previous_copies = 0, lr_copies = 0, lr_previous_expert_level = 0, lr_expert_level = 0,
      lr_daily_feed_result = None, lr_previous_duplicate_streak = 0, lr_duplicate_streak = 0,
      lr_outcome_snapshot = None\<rparr>"

definition stored_outcome_snapshot :: "daily_roll \<Rightarrow> outcome_snapshot" where
  "stored_outcome_snapshot r =
     (let available = (str_or (dr_resource_version r) [] \<noteq> [] \<and> dr_appearance_snapshot r \<noteq> None)
      in \<lparr>os_snapshot_available = available,
          os_collection_size_after_roll = int_or (dr_collection_size_after_roll r) 0,
          os_resource_version = (if available then str_or (dr_resource_version r) [] else []),
          os_payload =
            (case (available, dr_appearance_snapshot r) of
               (True, Some a) \<Rightarrow> (case ap_payload a of Some p \<Rightarrow> p | None \<Rightarrow> empty_payload)
             | _ \<Rightarrow> empty_payload)\<rparr>)"

definition build_lookup_response ::
  "string \<Rightarrow> daily_roll option \<Rightarrow> bool \<Rightarrow> db \<Rightarrow> daily_roll_lookup_response" where
  "build_lookup_response tenant daily_roll created db =
     (case daily_roll of
        None \<Rightarrow> no_roll_response created
      | Some r \<Rightarrow>
        let user_id = dr_user_id r;
            pig_id = dr_pig_id r;
            progress = get_progress tenant user_id pig_id db;
            collection = get_collection user_id pig_id db;
            draw_state = get_draw_state tenant user_id db;
            daily_feed = get_daily_feed (dr_date_str r) user_id db;
            copies = (case progress of Some p \<Rightarrow> up_copies p
                      | None \<Rightarrow> if collection \<noteq> None then 1 else 0);
            growth_bonus = (case progress of Some p \<Rightarrow> up_growth_bonus p | None \<Rightarrow> 0);
            duplicate_streak = (case draw_state of Some s \<Rightarrow> ds_duplicate_streak s | None \<Rightarrow> 0);
            available = growth_snapshot_available r;
            previous_copies = (if available then int_or (dr_previous_copies r) 0 else copies);
            response_copies = (if available then int_or (dr_copies_after_roll r) 0 else copies);
            previous_level =
              (if available then
                 (case dr_previous_expert_level r of
                    Some l \<Rightarrow> l | None \<Rightarrow> expert_level previous_copies 0)
               else expert_level copies growth_bonus);
            level =
              (if available then
                 (case dr_expert_level_after_roll r of
                    Some l \<Rightarrow> l | None \<Rightarrow> expert_level response_copies 0)
               else previous_level)
        in \<lparr>lr_is_makeup = is_makeup r, lr_pig_id = Some pig_id, lr_created = created,
            lr_is_new_pig = (available \<and> dr_is_new_pig r = Some True),
            lr_previous_copies = previous_copies, lr_copies = response_copies,
            lr_previous_expert_level = previous_level, lr_expert_level = level,
            lr_daily_feed_result =
              (case daily_feed of
                 None \<Rightarrow> None
               | Some f \<Rightarrow> Some \<lparr>fr_status = Fed, fr_user_id = user_id, fr_pig_id = df_pig_id f,
                   fr_previous_level = df_previous_level f, fr_new_level = df_new_level f,
                   fr_source_type = df_source_type f, fr_source_id = df_source_id f,
                   fr_created_at = Some (df_created_at f)\<rparr>),
            lr_previous_duplicate_streak =
              (if available then int_or (dr_previous_duplicate_streak r) 0 else duplicate_streak),
            lr_duplicate_streak =
              (if available then int_or (dr_duplicate_streak_after_roll r) 0 else duplicate_streak),
            lr_outcome_snapshot = (if available then Some (stored_outcome_snapshot r) else None)\<rparr>)"

record pig_progress_item =
  pi_copies :: int
  pi_growth_bonus :: int
  pi_first_obtained_at :: "datetime option"

record draw_state_response =
  dsr_pig_ids :: "pig_id list"
  dsr_progress :: "pig_progress_item dict"
  dsr_duplicate_streak :: int

definition progress_item :: "user_pig_progress \<Rightarrow> pig_progress_item" where
  "progress_item p = \<lparr>pi_copies = up_copies p, pi_growth_bonus = max 0 (up_growth_bonus p),
     pi_first_obtained_at = Some (up_first_obtained_at p)\<rparr>"

text \<open>\<open>progress.setdefault(pig_id, item)\<close>.\<close>

definition dict_setdefault :: "string \<Rightarrow> 'v \<Rightarrow> 'v dict \<Rightarrow> 'v dict" where
  "dict_setdefault k v d = (if map_of d k = None then dict_put k v d else d)"

definition build_draw_state_response :: "string \<Rightarrow> user_id \<Rightarrow> db \<Rightarrow> draw_state_response" where
  "build_draw_state_response tenant user_id db =
     (let progress_rows = filter (\<lambda>p. up_tenant_id p = tenant \<and> up_user_id p = user_id) (user_pig_progress db);
          collection_rows = filter (\<lambda>c. co_user_id c = user_id) (collections db);
          draw_state = get_draw_state tenant user_id db;
          progress = fold (\<lambda>p. dict_put (up_pig_id p) (progress_item p)) progress_rows [];
          progress = fold (\<lambda>c. dict_setdefault (co_pig_id c)
                       \<lparr>pi_copies = 1, pi_growth_bonus = 0, pi_first_obtained_at = Some (co_first_seen_at c)\<rparr>)
                       collection_rows progress
      in \<lparr>dsr_pig_ids = sort (map fst progress),
          dsr_progress = sort_key fst progress,
          dsr_duplicate_streak = (case draw_state of Some s \<Rightarrow> ds_duplicate_streak s | None \<Rightarrow> 0)\<rparr>)"

subsection \<open>Facts about the tables\<close>

lemma expert_level_range: "0 \<le> expert_level c g \<and> expert_level c g \<le> 5"
  by (simp add: expert_level_def MAX_EXPERT_LEVEL_def)

lemma expert_level_Suc:
  "1 \<le> c \<Longrightarrow> 0 \<le> g \<Longrightarrow> expert_level c g < 5 \<Longrightarrow> expert_level c (g + 1) = expert_level c g + 1"
  by (auto simp: expert_level_def MAX_EXPERT_LEVEL_def)

lemma expert_level_mono: "c \<le> c' \<Longrightarrow> g \<le> g' \<Longrightarrow> expert_level c g \<le> expert_level c' g'"
  by (auto simp: expert_level_def)

lemmas progress_lookup_defs = get_collection_def get_progress_def get_draw_state_def
  get_daily_roll_def get_daily_feed_def

lemma get_progress_add [table_simps]:
  "get_progress t u p (add_progress x db) =
     (case get_progress t u p db of Some y \<Rightarrow> Some y
      | None \<Rightarrow> if progress_key x = (t, u, p) then Some x else None)"
  by (simp add: get_progress_def add_progress_def one_or_none_append split: option.split)

lemma get_progress_set [table_simps]:
  "(\<And>x. progress_key (f x) = progress_key x) \<Longrightarrow>
   get_progress t u p (set_progress t' u' p' f db) =
     (if (t, u, p) = (t', u', p') then map_option f (get_progress t u p db) else get_progress t u p db)"
  unfolding get_progress_def set_progress_def
  by (simp add: one_or_none_upd_key [where key = progress_key])

lemma progress_key_copies [simp]: "progress_key (x\<lparr>up_copies := c\<rparr>) = progress_key x"
  by (simp add: progress_key_def)

lemma progress_key_bonus [simp]: "progress_key (x\<lparr>up_growth_bonus := c\<rparr>) = progress_key x"
  by (simp add: progress_key_def)

lemma add_progress_frame [frame_simps]:
  "get_collection u p (add_progress x db) = get_collection u p db"
  "get_draw_state t u (add_progress x db) = get_draw_state t u db"
  "get_daily_roll d u (add_progress x db) = get_daily_roll d u db"
  "get_daily_feed d u (add_progress x db) = get_daily_feed d u db"
  "collection_size u (add_progress x db) = collection_size u db"
  by (simp_all add: add_progress_def progress_lookup_defs collection_size_def)

lemma set_progress_frame [frame_simps]:
  "get_collection u p (set_progress t' u' p' f db) = get_collection u p db"
  "get_draw_state t u (set_progress t' u' p' f db) = get_draw_state t u db"
  "get_daily_roll d u (set_progress t' u' p' f db) = get_daily_roll d u db"
  "get_daily_feed d u (set_progress t' u' p' f db) = get_daily_feed d u db"
  "collection_size u (set_progress t' u' p' f db) = collection_size u db"
  by (simp_all add: set_progress_def progress_lookup_defs collection_size_def)

lemma set_streak_frame [frame_simps]:
  "get_collection u p (set_streak t' u' n db) = get_collection u p db"
  "get_progress t u p (set_streak t' u' n db) = get_progress t u p db"
  "get_daily_roll d u (set_streak t' u' n db) = get_daily_roll d u db"
  "get_daily_feed d u (set_streak t' u' n db) = get_daily_feed d u db"
  "collection_size u (set_streak t' u' n db) = collection_size u db"
  by (simp_all add: set_streak_def progress_lookup_defs collection_size_def split: option.split)

lemma draw_state_key_streak [simp]: "draw_state_key (s\<lparr>ds_duplicate_streak := n\<rparr>) = draw_state_key s"
  by (simp add: draw_state_key_def)

lemma get_draw_state_set [table_simps]:
  "map_option ds_duplicate_streak (get_draw_state t u (set_streak t u n db)) = Some n"
proof (cases "get_draw_state t u db")
  case None
  then show ?thesis
    by (simp add: set_streak_def get_draw_state_def one_or_none_append draw_state_key_def)
next
  case (Some s)
  then show ?thesis
    by (simp add: set_streak_def get_draw_state_def one_or_none_upd_key [where key = draw_state_key])
qed

lemma ensure_collection_frame [frame_simps]:
  "get_progress t u p (ensure_collection now u' p' db) = get_progress t u p db"
  "get_draw_state t u (ensure_collection now u' p' db) = get_draw_state t u db"
  "get_daily_roll d u (ensure_collection now u' p' db) = get_daily_roll d u db"
  "get_daily_feed d u (ensure_collection now u' p' db) = get_daily_feed d u db"
  by (simp_all add: ensure_collection_def progress_lookup_defs split: option.split)

lemma get_collection_ensure [table_simps]:
  "get_collection u p (ensure_collection now u' p' db) =
     (if (u, p) = (u', p') \<and> get_collection u p db = None
      then Some \<lparr>co_user_id = u, co_pig_id = p, co_first_seen_at = now\<rparr>
      else get_collection u p db)"
  by (auto simp: ensure_collection_def get_collection_def one_or_none_append collection_key_def
      split: option.split)

lemma collection_size_ensure [table_simps]:
  "collection_size u (ensure_collection now u p db) =
     (if get_collection u p db = None then collection_size u db + 1 else collection_size u db)"
  by (auto simp: ensure_collection_def collection_size_def split: option.split)

subsection \<open>What a feed changes\<close>

text \<open>Rows grow from one copy and no bonus; both only go up.\<close>

definition well_grown :: "db \<Rightarrow> bool" where
  "well_grown db \<longleftrightarrow> unique_on progress_key (user_pig_progress db) \<and>
     (\<forall>p\<in>set (user_pig_progress db). 1 \<le> up_copies p \<and> 0 \<le> up_growth_bonus p)"

definition total_bonus :: "string \<Rightarrow> user_id \<Rightarrow> db \<Rightarrow> int" where
  "total_bonus tenant user_id db =
     sum_list (map up_growth_bonus
       (filter (\<lambda>p. up_tenant_id p = tenant \<and> up_user_id p = user_id) (user_pig_progress db)))"

lemma well_grownD: "well_grown db \<Longrightarrow> get_progress t u p db = Some x \<Longrightarrow> 1 \<le> up_copies x \<and> 0 \<le> up_growth_bonus x"
  by (auto simp: well_grown_def get_progress_def dest!: one_or_none_SomeD)

lemma well_grown_add:
  "well_grown db \<Longrightarrow> get_progress t u p db = None \<Longrightarrow> progress_key x = (t, u, p) \<Longrightarrow>
   1 \<le> up_copies x \<Longrightarrow> 0 \<le> up_growth_bonus x \<Longrightarrow> well_grown (add_progress x db)"
  by (auto simp: well_grown_def add_progress_def get_progress_def unique_on_append1 one_or_none_None_iff)

lemma well_grown_set:
  assumes "well_grown db" and "\<And>x. progress_key (f x) = progress_key x"
    and "\<And>x. 1 \<le> up_copies x \<Longrightarrow> 0 \<le> up_growth_bonus x \<Longrightarrow> 1 \<le> up_copies (f x) \<and> 0 \<le> up_growth_bonus (f x)"
  shows "well_grown (set_progress t u p f db)"
  using assms by (auto simp: well_grown_def set_progress_def set_upd_rows intro!: unique_on_upd)

lemma well_grown_feeds [simp]: "well_grown (db\<lparr>user_daily_feeds := fs\<rparr>) = well_grown db"
  by (simp add: well_grown_def)

lemma feeds_frame [frame_simps]:
  "get_progress t u p (db\<lparr>user_daily_feeds := fs\<rparr>) = get_progress t u p db"
  "get_daily_roll d u (db\<lparr>user_daily_feeds := fs\<rparr>) = get_daily_roll d u db"
  "total_bonus t u (db\<lparr>user_daily_feeds := fs\<rparr>) = total_bonus t u db"
  by (simp_all add: progress_lookup_defs total_bonus_def)

lemma loaded_progress:
  assumes "loaded_progress t now u p db = (x, db1)"
  shows "get_progress t u p db1 = Some x" "daily_rolls db1 = daily_rolls db"
    "user_daily_feeds db1 = user_daily_feeds db" "total_bonus t' u' db1 = total_bonus t' u' db"
    "well_grown db \<Longrightarrow> well_grown db1 \<and> 1 \<le> up_copies x \<and> 0 \<le> up_growth_bonus x"
    "get_progress t' u' p' db \<noteq> None \<Longrightarrow> get_progress t' u' p' db1 = get_progress t' u' p' db"
    "progress_key x = (t, u, p)"
  using assms
  by (auto simp: loaded_progress_def Let_def get_progress_add progress_key_def add_progress_def
      total_bonus_def well_grownD get_progress_def one_or_none_append
      intro: well_grown_add [unfolded add_progress_def get_progress_def progress_key_def]
      dest: one_or_none_SomeD split: option.splits)

lemma sum_list_upd:
  fixes g :: "'r \<Rightarrow> int"
  assumes "unique_on key rs" and "x \<in> set rs" and "key x = k" and "Q x" and "\<And>r. Q (f r) = Q r"
  shows "sum_list (map g (filter Q (upd_rows (\<lambda>r. key r = k) f rs))) =
     sum_list (map g (filter Q rs)) + (g (f x) - g x)"
  using assms
proof (induction rs)
  case (Cons r rs)
  show ?case
  proof (cases "key r = k")
    case True
    with Cons.prems have "r = x"
      by (metis list.set_intros(1) unique_onD)
    moreover from True Cons.prems have "\<And>y. y \<in> set rs \<Longrightarrow> key y \<noteq> k"
      by (metis distinct.simps(2) image_eqI list.set_map list.simps(9) unique_on_def)
    then have "upd_rows (\<lambda>r. key r = k) f rs = rs" by (intro upd_rows_none)
    ultimately show ?thesis using True Cons.prems by simp
  next
    case False
    with Cons show ?thesis by (auto simp: unique_on_def)
  qed
qed simp

lemma total_bonus_set:
  assumes "well_grown db" and "get_progress t u p db = Some x"
  shows "total_bonus t u (set_progress t u p (\<lambda>p. p\<lparr>up_growth_bonus := n\<rparr>) db) =
     total_bonus t u db + (n - up_growth_bonus x)"
proof -
  from assms have x: "unique_on progress_key (user_pig_progress db)" "x \<in> set (user_pig_progress db)"
    "progress_key x = (t, u, p)"
    by (auto simp: well_grown_def get_progress_def dest: one_or_none_SomeD)
  have "up_tenant_id x = t \<and> up_user_id x = u" using x(3) by (simp add: progress_key_def)
  from sum_list_upd [OF x(1,2,3), of "\<lambda>p. up_tenant_id p = t \<and> up_user_id p = u"
      "\<lambda>p. p\<lparr>up_growth_bonus := n\<rparr>" up_growth_bonus, OF this]
  show ?thesis by (simp add: total_bonus_def set_progress_def)
qed

lemma total_bonus_set_other:
  assumes "\<And>r. progress_key (f r) = progress_key r" and "(t', u') \<noteq> (t, u)"
  shows "total_bonus t' u' (set_progress t u p f db) = total_bonus t' u' db"
proof -
  have key: "up_tenant_id (f r) = up_tenant_id r \<and> up_user_id (f r) = up_user_id r" for r
    using assms(1) [of r] by (simp add: progress_key_def)
  have "filter (\<lambda>p. up_tenant_id p = t' \<and> up_user_id p = u')
        (upd_rows (\<lambda>r. progress_key r = (t, u, p)) f (user_pig_progress db)) =
      filter (\<lambda>p. up_tenant_id p = t' \<and> up_user_id p = u') (user_pig_progress db)"
    using assms(2) key by (intro filter_upd_rows_other) (auto simp: progress_key_def)
  then show ?thesis by (simp add: total_bonus_def set_progress_def)
qed

text \<open>The four ways a feed can end when no other transaction interferes.\<close>

lemma apply_daily_feed_cases:
  assumes "apply_daily_feed t now d u st si None db = Inr (db', r)"
  obtains (no_pig) "db' = db" "fr_status r = NoDailyPig"
      "get_daily_roll d u db = None \<or> (\<exists>x. get_daily_roll d u db = Some x \<and> is_makeup x)"
  | (existing) e where "db' = db" "get_daily_feed d u db = Some e" "r = existing_feed_result u st si e"
  | (max_level) roll x where "get_daily_roll d u db = Some roll" "\<not> is_makeup roll"
      "get_daily_feed d u db = None" "loaded_progress t now u (dr_pig_id roll) db = (x, db')"
      "expert_level (up_copies x) (up_growth_bonus x) = 5" "fr_status r = MaxLevel"
      "fr_pig_id r = dr_pig_id roll" "fr_previous_level r = 5" "fr_new_level r = 5"
  | (fed) roll x db1 where "get_daily_roll d u db = Some roll" "\<not> is_makeup roll"
      "get_daily_feed d u db = None" "loaded_progress t now u (dr_pig_id roll) db = (x, db1)"
      "expert_level (up_copies x) (up_growth_bonus x) < 5"
      "r = \<lparr>fr_status = Fed, fr_user_id = u, fr_pig_id = dr_pig_id roll,
            fr_previous_level = expert_level (up_copies x) (up_growth_bonus x),
            fr_new_level = expert_level (up_copies x) (max 0 (up_growth_bonus x) + 1),
            fr_source_type = st, fr_source_id = si, fr_created_at = Some now\<rparr>"
      "db' = set_progress t u (dr_pig_id roll) (\<lambda>p. p\<lparr>up_growth_bonus := max 0 (up_growth_bonus x) + 1\<rparr>)
         (db1\<lparr>user_daily_feeds := user_daily_feeds db1 @
           [\<lparr>df_date_str = d, df_user_id = u, df_pig_id = dr_pig_id roll,
             df_source_type = st, df_source_id = si,
             df_previous_level = expert_level (up_copies x) (up_growth_bonus x),
             df_new_level = expert_level (up_copies x) (max 0 (up_growth_bonus x) + 1),
             df_created_at = now\<rparr>]\<rparr>)"
proof (cases "get_daily_roll d u db")
  case None
  with assms show ?thesis by (intro no_pig) (auto simp: apply_daily_feed_def)
next
  case (Some roll)
  show ?thesis
  proof (cases "is_makeup roll")
    case True
    with Some assms show ?thesis by (intro no_pig) (auto simp: apply_daily_feed_def)
  next
    case False
    obtain x db1 where l: "loaded_progress t now u (dr_pig_id roll) db = (x, db1)" by (metis surj_pair)
    show ?thesis
    proof (cases "get_daily_feed d u db")
      case None
      have le5: "expert_level (up_copies x) (up_growth_bonus x) \<le> 5" using expert_level_range by blast
      show ?thesis
      proof (cases "expert_level (up_copies x) (up_growth_bonus x) = 5")
        case True
        with assms Some False None l show ?thesis
          by (intro max_level [of roll x]) (auto simp: apply_daily_feed_def MAX_EXPERT_LEVEL_def)
      next
        case nmax: False
        with assms Some False None l le5 show ?thesis
          by (intro fed [of roll x db1]) (auto simp: apply_daily_feed_def MAX_EXPERT_LEVEL_def Let_def)
      qed
    next
      case (Some e)
      with \<open>get_daily_roll d u db = Some roll\<close> False assms show ?thesis
        by (intro existing [of e]) (auto simp: apply_daily_feed_def)
    qed
  qed
qed

lemma apply_daily_feed_returns: "\<exists>db' r. apply_daily_feed t now d u st si None db = Inr (db', r)"
  by (auto simp: apply_daily_feed_def Let_def split: option.split prod.split)

lemma get_daily_feed_add:
  "get_daily_feed d u (db\<lparr>user_daily_feeds := user_daily_feeds db @ [x]\<rparr>) =
     (case get_daily_feed d u db of Some y \<Rightarrow> Some y
      | None \<Rightarrow> if daily_feed_key x = (d, u) then Some x else None)"
  by (simp add: get_daily_feed_def one_or_none_append split: option.split)

text \<open>What one attempt of \<open>u\<close> keeps and changes, as a relation between the two states.\<close>

definition feed_effect :: "string \<Rightarrow> date \<Rightarrow> user_id \<Rightarrow> db \<Rightarrow> db \<Rightarrow> bool" where
  "feed_effect t d u db db' \<longleftrightarrow>
     well_grown db' \<and> daily_rolls db' = daily_rolls db \<and>
     (get_daily_feed d u db \<noteq> None \<longrightarrow> db' = db) \<and>
     total_bonus t u db' = total_bonus t u db +
       (if get_daily_feed d u db = None \<and> get_daily_feed d u db' \<noteq> None then 1 else 0) \<and>
     (\<forall>v. v \<noteq> u \<longrightarrow> total_bonus t v db' = total_bonus t v db \<and>
        get_daily_feed d v db' = get_daily_feed d v db)"

lemma apply_daily_feed_effect:
  assumes "well_grown db" and "apply_daily_feed t now d u st si None db = Inr (db', r)"
  shows "feed_effect t d u db db'"
  using assms(2)
proof (cases rule: apply_daily_feed_cases)
  case no_pig
  with assms(1) show ?thesis by (auto simp: feed_effect_def)
next
  case existing
  with assms(1) show ?thesis by (auto simp: feed_effect_def)
next
  case (max_level roll x)
  note l = loaded_progress [OF max_level(4)]
  have "get_daily_feed d w db' = get_daily_feed d w db" for w
    using l(3) by (simp add: get_daily_feed_def)
  with l assms(1) max_level(3) show ?thesis by (auto simp: feed_effect_def)
next
  case (fed roll x db1)
  note l = loaded_progress [OF fed(4)]
  have wf: "well_grown db1" "0 \<le> up_growth_bonus x" using l(5) assms(1) by auto
  then have "well_grown db'" unfolding fed(7) by (intro well_grown_set) auto
  moreover have "daily_rolls db' = daily_rolls db" using l(2) fed(7) by (simp add: set_progress_def)
  moreover have feeds: "get_daily_feed d w db1 = get_daily_feed d w db" for w
    using l(3) by (simp add: get_daily_feed_def)
  then have new: "get_daily_feed d u db' \<noteq> None"
    and other: "v \<noteq> u \<Longrightarrow> get_daily_feed d v db' = get_daily_feed d v db" for v
    by (auto simp: fed(7) frame_simps get_daily_feed_add daily_feed_key_def split: option.split)
  moreover have "total_bonus t u db' = total_bonus t u db + 1"
    using wf l(1,4) by (simp add: fed(7) total_bonus_set [where x = x] frame_simps)
  moreover have "v \<noteq> u \<Longrightarrow> total_bonus t v db' = total_bonus t v db" for v
    using l(4) by (simp add: fed(7) total_bonus_set_other frame_simps)
  ultimately show ?thesis using fed(3) by (auto simp: feed_effect_def)
qed

text \<open>A sequence of feed attempts of one date: the time, the user and the source of each.\<close>

fun feed_all :: "string \<Rightarrow> date \<Rightarrow> (datetime \<times> user_id \<times> string \<times> string) list \<Rightarrow> db \<Rightarrow> db" where
  "feed_all t d [] db = db"
| "feed_all t d ((now, u, st, si) # calls) db =
     (case apply_daily_feed t now d u st si None db of
        Inl e \<Rightarrow> feed_all t d calls db
      | Inr (db', r) \<Rightarrow> feed_all t d calls db')"

lemma feed_again:
  assumes "get_daily_roll d u db = Some roll" "\<not> is_makeup roll" "get_daily_feed d u db = Some e"
  shows "apply_daily_feed t now d u st si race db = Inr (db, existing_feed_result u st si e)"
  using assms by (simp add: apply_daily_feed_def)

lemma feed_all_effect:
  assumes "well_grown db"
  shows "well_grown (feed_all t d calls db) \<and>
     daily_rolls (feed_all t d calls db) = daily_rolls db \<and>
     (get_daily_feed d u db \<noteq> None \<longrightarrow> get_daily_feed d u (feed_all t d calls db) = get_daily_feed d u db) \<and>
     total_bonus t u (feed_all t d calls db) = total_bonus t u db +
       (if get_daily_feed d u db = None \<and> get_daily_feed d u (feed_all t d calls db) \<noteq> None then 1 else 0)"
  using assms
proof (induction calls arbitrary: db)
  case Nil
  then show ?case by (cases "get_daily_feed d u db") auto
next
  case (Cons c calls)
  obtain now v st si where c: "c = (now, v, st, si)" by (cases c) auto
  obtain db' r where call: "apply_daily_feed t now d v st si None db = Inr (db', r)"
    using apply_daily_feed_returns by blast
  from Cons.prems call have eff: "feed_effect t d v db db'" by (rule apply_daily_feed_effect)
  then have "well_grown db'" by (simp add: feed_effect_def)
  note IH = Cons.IH [OF this]
  show ?case
  proof (cases "v = u")
    case True
    with eff IH c call show ?thesis
      by (cases "get_daily_feed d u db") (auto simp: feed_effect_def)
  next
    case False
    with eff IH c call show ?thesis by (auto simp: feed_effect_def)
  qed
qed

text \<open>
  A bot that lost the answer sends the feed again from the same source. The feed is safe to
  replay: nothing further changes and the same answer comes back.
\<close>

definition feed_op ::
  "string \<Rightarrow> datetime \<Rightarrow> date \<Rightarrow> user_id \<Rightarrow> string \<Rightarrow> string \<Rightarrow> db \<Rightarrow> db \<times> (error + daily_feed_result)" where
  "feed_op t now d u st si db =
     (case apply_daily_feed t now d u st si None db of
        Inl e \<Rightarrow> (db, Inl e) | Inr (db', r) \<Rightarrow> (db', Inr r))"

lemma feed_op_again: "feed_op t now d u st si (fst (feed_op t now d u st si db)) = feed_op t now d u st si db"
proof -
  obtain db' r where call: "apply_daily_feed t now d u st si None db = Inr (db', r)"
    using apply_daily_feed_returns by blast
  then have "apply_daily_feed t now d u st si None db' = Inr (db', r)"
  proof (cases rule: apply_daily_feed_cases)
    case (max_level roll x)
    note l = loaded_progress [OF max_level(4)]
    have "get_daily_roll d u db' = Some roll" "get_daily_feed d u db' = None"
      using l(2,3) max_level(1,3) by (simp_all add: get_daily_roll_def get_daily_feed_def)
    moreover have "loaded_progress t now u (dr_pig_id roll) db' = (x, db')"
      using l(1) by (simp add: loaded_progress_def)
    moreover have "r = \<lparr>fr_status = MaxLevel, fr_user_id = u, fr_pig_id = dr_pig_id roll,
        fr_previous_level = 5, fr_new_level = 5, fr_source_type = st, fr_source_id = si,
        fr_created_at = None\<rparr>"
      using call max_level(1-5) by (simp add: apply_daily_feed_def MAX_EXPERT_LEVEL_def)
    ultimately show ?thesis
      using max_level(2,5) by (simp add: apply_daily_feed_def MAX_EXPERT_LEVEL_def)
  next
    case (fed roll x db1)
    note l = loaded_progress [OF fed(4)]
    have "get_daily_roll d u db' = Some roll"
      using l(2) fed(1) by (simp add: fed(7) set_progress_def get_daily_roll_def)
    moreover have "get_daily_feed d u db1 = None" using l(3) fed(3) by (simp add: get_daily_feed_def)
    then have "\<exists>e. get_daily_feed d u db' = Some e \<and> r = existing_feed_result u st si e"
      by (simp add: fed(6,7) frame_simps get_daily_feed_add daily_feed_key_def existing_feed_result_def)
    ultimately show ?thesis using feed_again fed(2) by blast
  qed (use call in simp_all)
  with call show ?thesis by (simp add: feed_op_def)
qed

interpretation feed_replay: replay_safe "feed_op t now d u st si" "\<lambda>_. True"
  for t :: string and now :: datetime and d :: date and u :: user_id and st si :: string
  by unfold_locales (simp_all add: feed_op_again)

subsection \<open>What a created roll changes\<close>

lemma well_grown_frame [simp]:
  "well_grown (ensure_collection now u p db) = well_grown db"
  "well_grown (set_streak t u n db) = well_grown db"
  by (simp_all add: well_grown_def ensure_collection_def set_streak_def split: option.split)

lemma expert_level_copy:
  "expert_level c g \<le> expert_level (c + 1) g \<and> expert_level (c + 1) g \<le> expert_level c g + 1"
  by (auto simp: expert_level_def MAX_EXPERT_LEVEL_def min_def max_def)

lemma ensure_collection_present: "get_collection u p (ensure_collection now u p db) \<noteq> None"
  by (simp add: get_collection_ensure)

text \<open>The state after a roll, by whether the user had a progress row.\<close>

lemma created_roll_state:
  assumes "apply_created_roll_progress t now u p db = (db', c)"
  shows "get_progress t u p db = None \<Longrightarrow>
       \<exists>n time. db' = set_streak t u n (add_progress \<lparr>up_tenant_id = t, up_user_id = u, up_pig_id = p,
         up_copies = cp_copies_after_roll c, up_growth_bonus = 0, up_first_obtained_at = time\<rparr>
         (ensure_collection now u p db))"
    and "get_progress t u p db = Some x \<Longrightarrow>
       \<exists>n. db' = set_streak t u n (set_progress t u p (\<lambda>p. p\<lparr>up_copies := cp_copies_after_roll c\<rparr>)
         (ensure_collection now u p db))"
proof -
  show "get_progress t u p db = None \<Longrightarrow>
       \<exists>n time. db' = set_streak t u n (add_progress \<lparr>up_tenant_id = t, up_user_id = u, up_pig_id = p,
         up_copies = cp_copies_after_roll c, up_growth_bonus = 0, up_first_obtained_at = time\<rparr>
         (ensure_collection now u p db))"
    using assms
    by (cases "get_collection u p db") (auto simp: apply_created_roll_progress_def Let_def, (intro exI, rule refl)+)
  show "get_progress t u p db = Some x \<Longrightarrow>
       \<exists>n. db' = set_streak t u n (set_progress t u p (\<lambda>p. p\<lparr>up_copies := cp_copies_after_roll c\<rparr>)
         (ensure_collection now u p db))"
    using assms by (auto simp: apply_created_roll_progress_def Let_def)
qed

lemma created_roll_numbers:
  assumes "apply_created_roll_progress t now u p db = (db', c)"
  shows "cp_copies_after_roll c = cp_previous_copies c + 1"
    and "cp_is_new_pig c \<longleftrightarrow> get_collection u p db = None \<and> get_progress t u p db = None"
    and "cp_previous_copies c =
      (case get_progress t u p db of Some x \<Rightarrow> up_copies x
       | None \<Rightarrow> if get_collection u p db = None then 0 else 1)"
    and "cp_previous_expert_level c = expert_level (cp_previous_copies c)
      (case get_progress t u p db of Some x \<Rightarrow> max 0 (up_growth_bonus x) | None \<Rightarrow> 0)"
    and "cp_expert_level_after_roll c = expert_level (cp_copies_after_roll c)
      (case get_progress t u p db of Some x \<Rightarrow> max 0 (up_growth_bonus x) | None \<Rightarrow> 0)"
    and "cp_collection_size_after_roll c = collection_size u db'"
  using assms
  by (auto simp: apply_created_roll_progress_def Let_def split: option.splits if_splits)

subsection \<open>The draw-state response\<close>

lemma map_of_setdefault [simp]:
  "map_of (dict_setdefault k v d) = (if map_of d k = None then (map_of d)(k \<mapsto> v) else map_of d)"
  by (simp add: dict_setdefault_def)

lemma dict_wf_setdefault: "dict_wf d \<Longrightarrow> dict_wf (dict_setdefault k v d)"
  by (simp add: dict_setdefault_def dict_wf_put)

lemma fold_dict_wf:
  "(\<And>x d. dict_wf d \<Longrightarrow> dict_wf (f x d)) \<Longrightarrow> dict_wf d \<Longrightarrow> dict_wf (fold f xs d)"
  by (induction xs arbitrary: d) auto

lemma map_of_sort_key: "dict_wf d \<Longrightarrow> map_of (sort_key fst d) = map_of d"
  by (rule map_of_inject_set [THEN iffD2]) (auto simp: dict_wf_def distinct_map)

lemma map_of_fold_put:
  "map_of (fold (\<lambda>x. dict_put (k x) (f x)) xs d) p =
     (case one_or_none (\<lambda>x. k x = p) (rev xs) of Some x \<Rightarrow> Some (f x) | None \<Rightarrow> map_of d p)"
  by (induction xs arbitrary: d) (auto simp: one_or_none_append split: option.split)

lemma map_of_fold_setdefault:
  "map_of (fold (\<lambda>x. dict_setdefault (k x) (f x)) xs d) p =
     (case map_of d p of Some v \<Rightarrow> Some v
      | None \<Rightarrow> map_option f (one_or_none (\<lambda>x. k x = p) xs))"
  by (induction xs arbitrary: d) (auto split: option.split)

lemma one_or_none_filter: "one_or_none P (filter Q xs) = one_or_none (\<lambda>x. P x \<and> Q x) xs"
  by (induction xs) auto

lemma one_or_none_rev:
  assumes "unique_on key rs" and "\<And>x y. P x \<Longrightarrow> P y \<Longrightarrow> key x = key y"
  shows "one_or_none P (rev rs) = one_or_none P rs"
proof (cases "one_or_none P rs")
  case None
  moreover from None have "one_or_none P (rev rs) = None" by (simp add: one_or_none_None_iff)
  ultimately show ?thesis by simp
next
  case (Some x)
  then have x: "x \<in> set (rev rs)" "P x" by (auto dest: one_or_none_SomeD)
  have "unique_on key (rev rs)" using assms(1) by (simp add: unique_on_def rev_map [symmetric])
  then have "one_or_none P (rev rs) = Some x"
    using x assms(2) [OF _ \<open>P x\<close>] by (rule one_or_none_unique)
  with Some show ?thesis by simp
qed

text \<open>The dictionary the response is built from.\<close>

definition owned_pigs :: "string \<Rightarrow> user_id \<Rightarrow> db \<Rightarrow> pig_progress_item dict" where
  "owned_pigs t u db =
     fold (\<lambda>c. dict_setdefault (co_pig_id c)
              \<lparr>pi_copies = 1, pi_growth_bonus = 0, pi_first_obtained_at = Some (co_first_seen_at c)\<rparr>)
       (filter (\<lambda>c. co_user_id c = u) (collections db))
       (fold (\<lambda>p. dict_put (up_pig_id p) (progress_item p))
         (filter (\<lambda>p. up_tenant_id p = t \<and> up_user_id p = u) (user_pig_progress db)) [])"

lemma owned_pigs_wf: "dict_wf (owned_pigs t u db)"
  unfolding owned_pigs_def
  by (intro fold_dict_wf dict_wf_setdefault dict_wf_put) (simp_all add: dict_wf_def)

lemma owned_pigs_lookup:
  assumes "unique_on progress_key (user_pig_progress db)"
  shows "map_of (owned_pigs t u db) p =
     (case get_progress t u p db of Some x \<Rightarrow> Some (progress_item x)
      | None \<Rightarrow> map_option (\<lambda>c. \<lparr>pi_copies = 1, pi_growth_bonus = 0,
                              pi_first_obtained_at = Some (co_first_seen_at c)\<rparr>)
                 (get_collection u p db))"
proof -
  have "one_or_none (\<lambda>x. up_pig_id x = p \<and> up_tenant_id x = t \<and> up_user_id x = u) (rev (user_pig_progress db)) =
      get_progress t u p db"
    using one_or_none_rev [OF assms, of "\<lambda>x. progress_key x = (t, u, p)"]
    by (simp add: get_progress_def progress_key_def conj_ac cong: one_or_none_cong)
  moreover have "one_or_none (\<lambda>x. co_pig_id x = p \<and> co_user_id x = u) (collections db) = get_collection u p db"
    by (simp add: get_collection_def collection_key_def conj_ac)
  ultimately show ?thesis
    by (simp add: owned_pigs_def map_of_fold_setdefault map_of_fold_put rev_filter one_or_none_filter
        split: option.split)
qed

subsection \<open>Properties\<close>

text \<open>
  C4: A user grows by at most one level point per date, whatever feeds are attempted: over any
  sequence of attempts (any users, sources and times) the sum of a user's growth bonuses increases
  by exactly one if his feed of the date was recorded during the sequence, and not at all otherwise.
\<close>

theorem feed_once_per_date:
  assumes "well_grown db"
  shows "total_bonus t u (feed_all t d calls db) = total_bonus t u db +
     (if get_daily_feed d u db = None \<and> get_daily_feed d u (feed_all t d calls db) \<noteq> None then 1 else 0)"
  using feed_all_effect [OF assms] by blast

definition roll_of :: "date \<Rightarrow> user_id \<Rightarrow> pig_id \<Rightarrow> daily_roll" where
  "roll_of d u p = \<lparr>dr_date_str = d, dr_user_id = u, dr_pig_id = p, dr_is_new_pig = None,
     dr_previous_copies = None, dr_copies_after_roll = None, dr_previous_expert_level = None,
     dr_expert_level_after_roll = None, dr_collection_size_after_roll = None,
     dr_previous_duplicate_streak = None, dr_duplicate_streak_after_roll = None,
     dr_resource_version = None, dr_appearance_snapshot = None, dr_created_at = 0\<rparr>"

definition rolled_db :: db where
  "rolled_db = empty_db\<lparr>daily_rolls := [roll_of 1 ''u'' ''pig'']\<rparr>"

theorem feed_once_per_date_witness:
  "total_bonus ''t'' ''u'' (feed_all ''t'' 1 [(5, ''u'', ''event'', ''1''), (6, ''u'', ''event'', ''2'')] rolled_db) =
   total_bonus ''t'' ''u'' rolled_db +
     (if get_daily_feed 1 ''u'' rolled_db = None \<and>
         get_daily_feed 1 ''u'' (feed_all ''t'' 1 [(5, ''u'', ''event'', ''1''), (6, ''u'', ''event'', ''2'')] rolled_db) \<noteq> None
      then 1 else 0)"
  by (rule feed_once_per_date) (simp add: well_grown_def rolled_db_def empty_db_def)

text \<open>
  C17: A recorded feed raises the pig of the day by exactly one EX level from the level it had before,
  never above five: one is added to the growth bonus of the stored row (a row with one copy if an old
  roll has none), its other columns and every other progress row stay as they were, the answer gives
  the level before and after, and so does the record of the date's feed.
\<close>

theorem feed_raises_level:
  assumes "well_grown db" and "get_daily_feed d u db = None"
    and "apply_daily_feed t now d u st si None db = Inr (db', r)" and "fr_status r = Fed"
  shows "\<exists>roll before after. get_daily_roll d u db = Some roll \<and> \<not> is_makeup roll \<and> fr_pig_id r = dr_pig_id roll \<and>
     (case get_progress t u (dr_pig_id roll) db of
        Some x \<Rightarrow> x = before | None \<Rightarrow> up_copies before = 1 \<and> up_growth_bonus before = 0) \<and>
     get_progress t u (dr_pig_id roll) db' = Some after \<and>
     after = before\<lparr>up_growth_bonus := up_growth_bonus before + 1\<rparr> \<and>
     (\<forall>t' u' p. (t', u', p) \<noteq> (t, u, dr_pig_id roll) \<longrightarrow> get_progress t' u' p db' = get_progress t' u' p db) \<and>
     fr_previous_level r = expert_level (up_copies before) (up_growth_bonus before) \<and>
     fr_new_level r = expert_level (up_copies after) (up_growth_bonus after) \<and>
     fr_new_level r = fr_previous_level r + 1 \<and> fr_new_level r \<le> 5 \<and>
     map_option (\<lambda>f. (df_pig_id f, df_previous_level f, df_new_level f)) (get_daily_feed d u db') =
       Some (fr_pig_id r, fr_previous_level r, fr_new_level r)"
  using assms(3)
proof (cases rule: apply_daily_feed_cases)
  case (fed roll x db1)
  note l = loaded_progress [OF fed(4)]
  from l(5) assms(1) have x: "1 \<le> up_copies x" "0 \<le> up_growth_bonus x" by auto
  let ?after = "x\<lparr>up_growth_bonus := up_growth_bonus x + 1\<rparr>"
  have stored: "get_progress t u (dr_pig_id roll) db' = Some ?after"
    using l(1) x by (simp add: fed(7) get_progress_set frame_simps)
  have before: "case get_progress t u (dr_pig_id roll) db of
      Some y \<Rightarrow> y = x | None \<Rightarrow> up_copies x = 1 \<and> up_growth_bonus x = 0"
    using fed(4) by (auto simp: loaded_progress_def Let_def split: option.splits)
  have others: "get_progress t' u' p db' = get_progress t' u' p db" if "(t', u', p) \<noteq> (t, u, dr_pig_id roll)" for t' u' p
  proof -
    have "get_progress t' u' p db1 = get_progress t' u' p db"
      using fed(4) that by (auto simp: loaded_progress_def Let_def get_progress_add progress_key_def split: option.splits)
    with that show ?thesis by (auto simp: fed(7) get_progress_set frame_simps)
  qed
  have "get_daily_feed d u db1 = None" using assms(2) l(3) by (simp add: get_daily_feed_def)
  then have noted: "map_option (\<lambda>f. (df_pig_id f, df_previous_level f, df_new_level f)) (get_daily_feed d u db') =
      Some (fr_pig_id r, fr_previous_level r, fr_new_level r)"
    by (simp add: fed(6,7) get_daily_feed_def daily_feed_key_def one_or_none_append set_progress_def)
  from x fed(5) have "expert_level (up_copies x) (up_growth_bonus x + 1) =
      expert_level (up_copies x) (up_growth_bonus x) + 1"
    by (intro expert_level_Suc)
  with stored before others noted fed x show ?thesis
    by (intro exI [of _ roll] exI [of _ x] exI [of _ ?after]) simp
qed (use assms(2,4) in auto)

text \<open>A pig with two copies and two feeds is at level three and gets to level four.\<close>

definition grown_db :: db where
  "grown_db = rolled_db\<lparr>user_pig_progress := [\<lparr>up_tenant_id = ''t'', up_user_id = ''u'', up_pig_id = ''pig'', up_copies = 2,
     up_growth_bonus = 2, up_first_obtained_at = 0\<rparr>]\<rparr>"

theorem feed_raises_level_witness:
  "map_option up_growth_bonus (get_progress ''t'' ''u'' ''pig'' (feed_all ''t'' 1 [(5, ''u'', ''event'', ''1'')] grown_db)) = Some 3"
proof -
  obtain db' r where call: "apply_daily_feed ''t'' 5 1 ''u'' ''event'' ''1'' None grown_db = Inr (db', r)"
    using apply_daily_feed_returns by blast
  have "snd (projr (apply_daily_feed ''t'' 5 1 ''u'' ''event'' ''1'' None grown_db)) =
    \<lparr>fr_status = Fed, fr_user_id = ''u'', fr_pig_id = ''pig'', fr_previous_level = 3, fr_new_level = 4,
     fr_source_type = ''event'', fr_source_id = ''1'', fr_created_at = Some 5\<rparr>"
    by code_simp
  with call have r: "fr_status r = Fed" "fr_pig_id r = ''pig''" by simp_all
  have "well_grown grown_db" and "get_daily_feed 1 ''u'' grown_db = None"
    by (simp_all add: well_grown_def grown_db_def rolled_db_def empty_db_def get_daily_feed_def unique_on_def)
  moreover have "map_option up_growth_bonus (get_progress ''t'' ''u'' ''pig'' grown_db) = Some 2" by code_simp
  ultimately show ?thesis using feed_raises_level [OF _ _ call r(1)] r(2) call by auto
qed

text \<open>
  A feed whose answer was lost can be sent again any number of times: the state does not
  change any further and the first answer, growth included, is given again.
\<close>

theorem feed_replay_safe:
  "feed_op t now d u st si (((\<lambda>db. fst (feed_op t now d u st si db)) ^^ n) db) = feed_op t now d u st si db"
  by (rule feed_replay.replay) simp

text \<open>
  A created roll adds exactly one copy: the reported copies are the stored ones, the level after
  the roll is the stored row's level and at most one above the level before it, and a user whose
  pig is new has no copy before and a collection larger by one.
\<close>

theorem created_roll_adds_copy:
  assumes "well_grown db" and "apply_created_roll_progress t now u p db = (db', c)"
  shows "well_grown db' \<and> get_collection u p db' \<noteq> None \<and>
     (\<exists>x. get_progress t u p db' = Some x \<and> up_copies x = cp_copies_after_roll c \<and>
        cp_expert_level_after_roll c = expert_level (up_copies x) (up_growth_bonus x)) \<and>
     cp_copies_after_roll c = cp_previous_copies c + 1 \<and>
     cp_previous_expert_level c \<le> cp_expert_level_after_roll c \<and>
     cp_expert_level_after_roll c \<le> cp_previous_expert_level c + 1 \<and>
     (cp_is_new_pig c \<longleftrightarrow> get_collection u p db = None \<and> get_progress t u p db = None) \<and>
     cp_collection_size_after_roll c = collection_size u db + (if get_collection u p db = None then 1 else 0)"
proof (cases "get_progress t u p db")
  case None
  note n = created_roll_numbers [OF assms(2)]
  from created_roll_state(1) [OF assms(2) None] obtain k time where
    db': "db' = set_streak t u k (add_progress \<lparr>up_tenant_id = t, up_user_id = u, up_pig_id = p,
       up_copies = cp_copies_after_roll c, up_growth_bonus = 0, up_first_obtained_at = time\<rparr>
       (ensure_collection now u p db))" by blast
  have "1 \<le> cp_copies_after_roll c" using n(1,3) None by simp
  then have "well_grown db'"
    using assms(1) None by (simp add: db' well_grown_add frame_simps progress_key_def)
  with None n expert_level_copy show ?thesis
    by (simp add: db' frame_simps get_progress_add progress_key_def collection_size_ensure
        ensure_collection_present)
next
  case (Some x)
  note n = created_roll_numbers [OF assms(2)]
  from created_roll_state(2) [OF assms(2) Some] obtain k where
    db': "db' = set_streak t u k (set_progress t u p (\<lambda>p. p\<lparr>up_copies := cp_copies_after_roll c\<rparr>)
         (ensure_collection now u p db))" by blast
  from well_grownD [OF assms(1) Some] have x: "1 \<le> up_copies x" "0 \<le> up_growth_bonus x" by auto
  then have "1 \<le> cp_copies_after_roll c" using n(1,3) Some by simp
  then have "well_grown db'" using assms(1) by (simp add: db' well_grown_set)
  with Some n x expert_level_copy show ?thesis
    by (simp add: db' frame_simps get_progress_set collection_size_ensure ensure_collection_present)
qed

theorem created_roll_adds_copy_witness:
  "well_grown (fst (apply_created_roll_progress ''t'' 7 ''u'' ''pig'' rolled_db)) \<and>
   cp_copies_after_roll (snd (apply_created_roll_progress ''t'' 7 ''u'' ''pig'' rolled_db)) =
     cp_previous_copies (snd (apply_created_roll_progress ''t'' 7 ''u'' ''pig'' rolled_db)) + 1"
proof -
  have "well_grown rolled_db" by (simp add: well_grown_def rolled_db_def empty_db_def)
  from created_roll_adds_copy [OF this prod.collapse [symmetric], of "''t''" 7 "''u''" "''pig''"]
  show ?thesis by blast
qed


text \<open>
  The duplicate streak counts the rolls since the last new pig: a new pig resets it to zero,
  any other roll adds one to the stored value, and the new value is what the next roll starts from.
\<close>

theorem duplicate_streak_counts:
  assumes "apply_created_roll_progress t now u p db = (db', c)"
  shows "cp_previous_duplicate_streak c =
       (case get_draw_state t u db of Some s \<Rightarrow> ds_duplicate_streak s | None \<Rightarrow> 0) \<and>
     cp_duplicate_streak_after_roll c =
       (if get_collection u p db = None \<and> get_progress t u p db = None then 0
        else cp_previous_duplicate_streak c + 1) \<and>
     map_option ds_duplicate_streak (get_draw_state t u db') = Some (cp_duplicate_streak_after_roll c)"
  using assms get_draw_state_set [of t u]
  by (auto simp: apply_created_roll_progress_def Let_def frame_simps split: option.splits if_splits)

theorem duplicate_streak_counts_witness:
  "cp_duplicate_streak_after_roll (snd (apply_created_roll_progress ''t'' 7 ''u'' ''pig'' rolled_db)) =
     (if get_collection ''u'' ''pig'' rolled_db = None \<and> get_progress ''t'' ''u'' ''pig'' rolled_db = None
      then 0 else cp_previous_duplicate_streak (snd (apply_created_roll_progress ''t'' 7 ''u'' ''pig'' rolled_db)) + 1)"
  using duplicate_streak_counts [OF prod.collapse [symmetric], of "''t''" 7 "''u''" "''pig''" rolled_db] by blast


text \<open>
  The draw-state response lists exactly the pigs the user owns, in order and without
  repetition, and describes each by its progress row, or as one copy when only the collection
  entry exists.
\<close>

theorem draw_state_lists_owned_pigs:
  assumes "unique_on progress_key (user_pig_progress db)"
  shows "sorted (dsr_pig_ids (build_draw_state_response t u db)) \<and>
     distinct (dsr_pig_ids (build_draw_state_response t u db)) \<and>
     set (dsr_pig_ids (build_draw_state_response t u db)) =
       {p. get_progress t u p db \<noteq> None \<or> get_collection u p db \<noteq> None} \<and>
     map_of (dsr_progress (build_draw_state_response t u db)) p =
       (case get_progress t u p db of Some x \<Rightarrow> Some (progress_item x)
        | None \<Rightarrow> map_option (\<lambda>c. \<lparr>pi_copies = 1, pi_growth_bonus = 0,
                                pi_first_obtained_at = Some (co_first_seen_at c)\<rparr>)
                   (get_collection u p db))"
proof -
  have r: "dsr_pig_ids (build_draw_state_response t u db) = sort (map fst (owned_pigs t u db))"
    "dsr_progress (build_draw_state_response t u db) = sort_key fst (owned_pigs t u db)"
    by (simp_all add: build_draw_state_response_def owned_pigs_def Let_def)
  have "set (map fst (owned_pigs t u db)) = {p. map_of (owned_pigs t u db) p \<noteq> None}"
    by (auto simp: map_of_eq_None_iff)
  also have "\<dots> = {p. get_progress t u p db \<noteq> None \<or> get_collection u p db \<noteq> None}"
    by (auto simp: owned_pigs_lookup [OF assms] split: option.split)
  finally show ?thesis
    using owned_pigs_wf [of t u db]
    by (simp add: r map_of_sort_key owned_pigs_lookup [OF assms] dict_wf_def)
qed

theorem draw_state_lists_owned_pigs_witness:
  "sorted (dsr_pig_ids (build_draw_state_response ''t'' ''u'' rolled_db))"
  using draw_state_lists_owned_pigs [of rolled_db "''t''" "''u''"]
  by (simp add: rolled_db_def empty_db_def)

end
