(* ===== verification/Activity.thy ===== *)
theory Activity
  imports Progress
begin

section \<open>Daily activity of the groups (\<^verbatim>\<open>services/roast_refills.py\<close>, activity part)\<close>

text \<open>
  A group's active users of a date are the users registered by any of their commands. The three
  writing paths of \<open>mark_group_active_users\<close> (MySQL and SQLite upserts, the portable
  fallback) insert the same rows: the missing ones. \<open>now\<close> is the database's clock.
\<close>

definition active_user_row :: "datetime \<Rightarrow> date \<Rightarrow> group_id \<Rightarrow> user_id \<Rightarrow> group_daily_active_user" where
  "active_user_row now d g u =
     \<lparr>ga_date_str = d, ga_group_id = g, ga_user_id = u, ga_active_at = now\<rparr>"

definition insert_active_user ::
  "datetime \<Rightarrow> date \<Rightarrow> group_id \<Rightarrow> user_id \<Rightarrow> group_daily_active_user list \<Rightarrow> group_daily_active_user list" where
  "insert_active_user now d g u rows =
     (if one_or_none (\<lambda>r. active_user_key r = (d, g, u)) rows = None
      then rows @ [active_user_row now d g u] else rows)"

definition mark_group_active_users :: "datetime \<Rightarrow> date \<Rightarrow> group_id \<Rightarrow> user_id list \<Rightarrow> db \<Rightarrow> db" where
  "mark_group_active_users now date_str group_id user_ids db =
     (let normalized = sorted_ids user_ids
      in if group_id = [] \<or> normalized = [] then db
         else db\<lparr>group_daily_active_users :=
                fold (insert_active_user now date_str group_id) normalized (group_daily_active_users db)\<rparr>)"

definition get_group_active_user_ids ::
  "dialect \<Rightarrow> int \<Rightarrow> date \<Rightarrow> group_id \<Rightarrow> py_datetime option \<Rightarrow> db \<Rightarrow> user_id list" where
  "get_group_active_user_ids dialect tz date_str group_id cutoff_at db =
     sort (map ga_user_id (filter
       (\<lambda>r. ga_date_str r = date_str \<and> ga_group_id r = group_id \<and>
            (case cutoff_at of None \<Rightarrow> True
             | Some c \<Rightarrow> ga_active_at r \<le> database_cutoff_value dialect tz c))
       (group_daily_active_users db)))"

text \<open>The active users without a cutoff, which is how the services call it.\<close>

definition group_active_users :: "date \<Rightarrow> group_id \<Rightarrow> db \<Rightarrow> user_id list" where
  "group_active_users d g db = get_group_active_user_ids OtherDialect 0 d g None db"

subsection \<open>Marking\<close>

lemma group_active_users_eq:
  "get_group_active_user_ids dialect tz d g None db = group_active_users d g db"
  by (simp add: group_active_users_def get_group_active_user_ids_def)

lemma set_group_active_users:
  "set (group_active_users d g db) = {u. \<exists>r\<in>set (group_daily_active_users db). active_user_key r = (d, g, u)}"
  by (auto simp: group_active_users_def get_group_active_user_ids_def active_user_key_def)

lemma distinct_group_active_users:
  assumes "unique_on active_user_key (group_daily_active_users db)"
  shows "distinct (group_active_users d g db)"
proof -
  have "inj_on ga_user_id (set (filter (\<lambda>r. ga_date_str r = d \<and> ga_group_id r = g) (group_daily_active_users db)))"
    using assms by (auto simp: inj_on_def active_user_key_def dest: unique_onD)
  moreover have "distinct (group_daily_active_users db)"
    using assms by (simp add: unique_on_def distinct_map)
  ultimately show ?thesis
    by (simp add: group_active_users_def get_group_active_user_ids_def distinct_map)
qed

lemma insert_active_user_unique:
  "unique_on active_user_key rows \<Longrightarrow> unique_on active_user_key (insert_active_user now d g u rows)"
  by (auto simp: insert_active_user_def unique_on_append1 one_or_none_None_iff active_user_row_def active_user_key_def)

lemma fold_insert_active_user_unique:
  "unique_on active_user_key rows \<Longrightarrow> unique_on active_user_key (fold (insert_active_user now d g) us rows)"
  by (induction us arbitrary: rows) (simp_all add: insert_active_user_unique)

lemma insert_active_user_lookup:
  "one_or_none (\<lambda>r. active_user_key r = k) (insert_active_user now d g u rows) =
     (case one_or_none (\<lambda>r. active_user_key r = k) rows of Some r \<Rightarrow> Some r
      | None \<Rightarrow> if k = (d, g, u) then Some (active_user_row now d g u) else None)"
  by (auto simp: insert_active_user_def one_or_none_append active_user_row_def active_user_key_def
      split: option.splits)

lemma fold_insert_active_user_lookup:
  "one_or_none (\<lambda>r. active_user_key r = k) (fold (insert_active_user now d g) us rows) =
     (case one_or_none (\<lambda>r. active_user_key r = k) rows of Some r \<Rightarrow> Some r
      | None \<Rightarrow> if \<exists>u\<in>set us. k = (d, g, u) then Some (active_user_row now d g (snd (snd k))) else None)"
  by (induction us arbitrary: rows) (auto simp: insert_active_user_lookup split: option.split)

lemma mark_unique:
  "unique_on active_user_key (group_daily_active_users db) \<Longrightarrow>
   unique_on active_user_key (group_daily_active_users (mark_group_active_users now d g us db))"
  by (simp add: mark_group_active_users_def fold_insert_active_user_unique Let_def)

lemma active_user_member:
  "u \<in> set (group_active_users d g db) \<longleftrightarrow>
   one_or_none (\<lambda>r. active_user_key r = (d, g, u)) (group_daily_active_users db) \<noteq> None"
  by (simp add: set_group_active_users one_or_none_None_iff)

lemma mark_members:
  "set (group_active_users d' g' (mark_group_active_users now d g us db)) =
     set (group_active_users d' g' db) \<union>
       (if (d', g') = (d, g) \<and> g \<noteq> [] then {u \<in> set us. u \<noteq> []} else {})"
proof -
  have "u \<in> set (group_active_users d' g' (mark_group_active_users now d g us db)) \<longleftrightarrow>
      u \<in> set (group_active_users d' g' db) \<or> (d', g') = (d, g) \<and> g \<noteq> [] \<and> u \<in> {u \<in> set us. u \<noteq> []}" for u
  proof (cases "g = [] \<or> sorted_ids us = []")
    case True
    moreover have "sorted_ids us = [] \<Longrightarrow> {u \<in> set us. u \<noteq> []} = {}"
      by (metis list.set(1) set_sorted_ids)
    ultimately have "\<not> (g \<noteq> [] \<and> u \<in> set us \<and> u \<noteq> [])" by blast
    with True show ?thesis by (auto simp: mark_group_active_users_def Let_def)
  next
    case False
    then show ?thesis
      by (auto simp: active_user_member mark_group_active_users_def Let_def
          fold_insert_active_user_lookup split: option.split)
  qed
  then show ?thesis by auto
qed

lemma mark_frame [frame_simps]:
  "daily_rolls (mark_group_active_users now d g us db) = daily_rolls db"
  "user_usage (mark_group_active_users now d g us db) = user_usage db"
  "roast_reservations (mark_group_active_users now d g us db) = roast_reservations db"
  "roast_reservation_participants (mark_group_active_users now d g us db) = roast_reservation_participants db"
  "group_protections (mark_group_active_users now d g us db) = group_protections db"
  "group_roast_refill_requests (mark_group_active_users now d g us db) = group_roast_refill_requests db"
  by (simp_all add: mark_group_active_users_def Let_def)

text \<open>Marking is safe to repeat, whatever the time of the repetition.\<close>

lemma fold_insert_again:
  "\<forall>u\<in>set us. one_or_none (\<lambda>r. active_user_key r = (d, g, u)) rows \<noteq> None \<Longrightarrow>
   fold (insert_active_user now d g) us rows = rows"
  by (induction us) (auto simp: insert_active_user_def)

lemma mark_again:
  "mark_group_active_users later d g us (mark_group_active_users now d g us db) =
   mark_group_active_users now d g us db"
proof -
  have "fold (insert_active_user later d g) (sorted_ids us) (fold (insert_active_user now d g) (sorted_ids us) rows) =
      fold (insert_active_user now d g) (sorted_ids us) rows" for rows
    by (rule fold_insert_again) (auto simp: fold_insert_active_user_lookup split: option.split)
  then show ?thesis by (simp add: mark_group_active_users_def Let_def)
qed

interpretation mark_retry: replay_safe "\<lambda>db. (mark_group_active_users now d g us db, True)" "\<lambda>_. True"
  for now :: datetime and d :: date and g :: group_id and us :: "user_id list"
  by unfold_locales (simp_all add: mark_again)

end
