(* ===== verification/Refills.thy ===== *)
theory Refills
  imports Activity Usage
begin

section \<open>Group refill votes (\<^verbatim>\<open>services/roast_refills.py\<close>, \<^verbatim>\<open>routers/roast_refills.py\<close>)\<close>

text \<open>
  A group votes on refilling the roast charges of its active users. A request is voting, then
  succeeded, failed or expired; while it votes it holds its group's \<open>active_key\<close>, which is
  unique, so a group has one vote at a time. Here are the service's operations, the step relation
  of a database with refill calls from any clients, its invariant, and what a completed vote does.

  \<open>clock\<close> is the server's clock in microseconds, \<open>fresh\<close> the identifier drawn by
  \<open>uuid.uuid4().hex\<close>. The key \<open>f"{date_str.isoformat()}:{group_id}"\<close> is the pair of the two
  (a date's text has a fixed length, so the text determines the pair). Seconds since the epoch and
  the model's microseconds count from the same midnight.
\<close>

definition ROAST_REFILL_TTL_SECONDS :: int where
  "ROAST_REFILL_TTL_SECONDS = 10 * 60"

definition ROAST_REFILL_THRESHOLD_POLICY :: string where
  "ROAST_REFILL_THRESHOLD_POLICY = ''capped-v1''"

definition ROAST_REFILL_VOTE_WEIGHT_POLICY :: string where
  "ROAST_REFILL_VOTE_WEIGHT_POLICY = ''group-manager-double-v1''"

definition ROAST_REFILL_THRESHOLD_STEPS :: "(int \<times> int) list" where
  "ROAST_REFILL_THRESHOLD_STEPS = [(25, 8), (35, 12), (45, 16), (55, 20)]"

definition ROAST_REFILL_MIN_DISTINCT_VOTERS :: nat where
  "ROAST_REFILL_MIN_DISTINCT_VOTERS = 2"

definition LEGACY_ROAST_REFILL_RATIOS :: "int list" where
  "LEGACY_ROAST_REFILL_RATIOS = [25, 35, 45, 55, 65]"

text \<open>\<open>datetime.fromtimestamp\<close> rounds to microseconds, halves to even.\<close>

definition round_half_even :: "rat \<Rightarrow> int" where
  "round_half_even x =
     (let f = \<lfloor>x\<rfloor>; rest = x - of_int f
      in if rest < 1/2 then f else if 1/2 < rest then f + 1 else if even f then f else f + 1)"

definition utc_from_ts :: "rat option \<Rightarrow> datetime \<Rightarrow> datetime" where
  "utc_from_ts value clock =
     (case value of None \<Rightarrow> clock | Some v \<Rightarrow> round_half_even (v * 1000000))"

definition active_key :: "date \<Rightarrow> group_id \<Rightarrow> date \<times> group_id" where
  "active_key d g = (d, g)"

definition refill_threshold :: "int \<Rightarrow> int \<Rightarrow> int \<times> int" where
  "refill_threshold active_count success_count =
     (let normalized_active = max 0 active_count;
          normalized_success = max 0 success_count;
          (ratio, vote_cap) = ROAST_REFILL_THRESHOLD_STEPS !
            nat (min normalized_success (int (length ROAST_REFILL_THRESHOLD_STEPS) - 1));
          proportional_votes = (normalized_active * ratio + 99) div 100
      in (ratio, max 2 (min proportional_votes vote_cap)))"

definition legacy_refill_threshold :: "int \<Rightarrow> int \<Rightarrow> int \<times> int" where
  "legacy_refill_threshold active_count success_count =
     (let normalized_active = max 0 active_count;
          normalized_success = max 0 success_count;
          ratio = LEGACY_ROAST_REFILL_RATIOS !
            nat (min normalized_success (int (length LEGACY_ROAST_REFILL_RATIOS) - 1))
      in (ratio, max 2 ((normalized_active * ratio + 99) div 100)))"

text \<open>A request as the API returns it: the row with its beneficiaries in order.\<close>

definition refill_to_schema :: "group_roast_refill_request \<Rightarrow> group_roast_refill_request" where
  "refill_to_schema row =
     row\<lparr>rf_active_key := None,
         rf_benefited_user_ids :=
           Some (sorted_ids (case rf_benefited_user_ids row of None \<Rightarrow> [] | Some ids \<Rightarrow> ids))\<rparr>"

text \<open>
  \<open>_reset_roast_charges\<close>: the upserts of MySQL and SQLite and the portable loop write the
  same rows.
\<close>

definition reset_usage_row :: "int \<Rightarrow> int \<Rightarrow> user_id \<Rightarrow> user_usage list \<Rightarrow> user_usage list" where
  "reset_usage_row charge_max now_epoch u rows =
     (if one_or_none (\<lambda>x. uu_user_id x = u) rows = None
      then rows @ [\<lparr>uu_user_id = u, uu_last_roast_ts = None, uu_roast_charges = Some charge_max,
                    uu_roast_charge_updated_ts = Some now_epoch, uu_last_force_date = None\<rparr>]
      else upd_rows (\<lambda>x. uu_user_id x = u)
             (\<lambda>x. x\<lparr>uu_roast_charges := Some charge_max, uu_roast_charge_updated_ts := Some now_epoch\<rparr>) rows)"

definition reset_roast_charges :: "user_id list \<Rightarrow> int \<Rightarrow> int \<Rightarrow> db \<Rightarrow> db" where
  "reset_roast_charges user_ids charge_max now_epoch db =
     db\<lparr>user_usage := fold (reset_usage_row charge_max now_epoch) user_ids (user_usage db)\<rparr>"

subsection \<open>The life of a request\<close>

text \<open>The row a query finds by its identifier or its key, and the assignment to it.\<close>

definition get_refill :: "string \<Rightarrow> db \<Rightarrow> group_roast_refill_request option" where
  "get_refill request_id db =
     one_or_none (\<lambda>r. rf_request_id r = request_id) (group_roast_refill_requests db)"

definition get_refill_by_key :: "date \<times> group_id \<Rightarrow> db \<Rightarrow> group_roast_refill_request option" where
  "get_refill_by_key key db =
     one_or_none (\<lambda>r. rf_active_key r = Some key) (group_roast_refill_requests db)"

definition set_refill ::
  "string \<Rightarrow> (group_roast_refill_request \<Rightarrow> group_roast_refill_request) \<Rightarrow> db \<Rightarrow> db" where
  "set_refill request_id f db =
     db\<lparr>group_roast_refill_requests :=
          upd_rows (\<lambda>r. rf_request_id r = request_id) f (group_roast_refill_requests db)\<rparr>"

definition needs_expiry :: "datetime \<Rightarrow> group_roast_refill_request \<Rightarrow> bool" where
  "needs_expiry now row \<longleftrightarrow> rf_status row = Voting \<and> rf_expires_at row \<le> now"

definition expire_if_needed :: "datetime \<Rightarrow> group_roast_refill_request \<Rightarrow> group_roast_refill_request" where
  "expire_if_needed now row =
     (if needs_expiry now row
      then row\<lparr>rf_status := Expired, rf_failure_reason := ''expired'', rf_active_key := None\<rparr>
      else row)"

text \<open>The insert with both unique constraints of the table.\<close>

definition insert_refill :: "group_roast_refill_request \<Rightarrow> db \<Rightarrow> error + db" where
  "insert_refill row db =
     (if get_refill (rf_request_id row) db \<noteq> None \<or>
         \<not> no_conflict rf_active_key row (group_roast_refill_requests db)
      then Inl IntegrityError
      else Inr (db\<lparr>group_roast_refill_requests := group_roast_refill_requests db @ [row]\<rparr>))"

record refill_prepare_request =
  pq_group_id :: group_id
  pq_initiator_id :: user_id
  pq_initiator_name :: string
  pq_delivery_bot_id :: string
  pq_date_str :: date
  pq_eligible_user_ids :: "user_id list option"
  pq_now_ts :: "rat option"
  pq_threshold_policy :: string
  pq_vote_weight_policy :: string

datatype refill_prepare_status = Existing | InsufficientActive | Created

record refill_prepare_response =
  pr_status :: refill_prepare_status
  pr_request :: "group_roast_refill_request option"
  pr_active_user_ids :: "user_id list"
  pr_vote_weight_policy :: string

text \<open>The active users a vote counts: the group's, or those of them still in the group.\<close>

definition eligible_active :: "refill_prepare_request \<Rightarrow> db \<Rightarrow> user_id list" where
  "eligible_active req db =
     (let active = group_active_users (pq_date_str req) (pq_group_id req) db
      in case pq_eligible_user_ids req of
           None \<Rightarrow> active
         | Some ids \<Rightarrow> sorted_ids (filter (\<lambda>u. u \<in> set (sorted_ids ids)) active))"

definition success_count :: "date \<Rightarrow> group_id \<Rightarrow> db \<Rightarrow> int" where
  "success_count d g db =
     int (length (filter (\<lambda>r. rf_date_str r = d \<and> rf_group_id r = g \<and> rf_status r = Succeeded)
       (group_roast_refill_requests db)))"

text \<open>\<open>prepare_refill\<close> from the reading of the active users on.\<close>

definition open_refill ::
  "refill_prepare_request \<Rightarrow> datetime \<Rightarrow> string \<Rightarrow> string \<Rightarrow> db \<Rightarrow> error + db \<times> refill_prepare_response" where
  "open_refill req now fresh policy db =
     (let active_user_ids = eligible_active req db
      in if length active_user_ids < 3 then
           Inr (db, \<lparr>pr_status = InsufficientActive, pr_request = None,
                     pr_active_user_ids = active_user_ids, pr_vote_weight_policy = policy\<rparr>)
         else
           let successes = success_count (pq_date_str req) (pq_group_id req) db;
               threshold = (if pq_threshold_policy req = ROAST_REFILL_THRESHOLD_POLICY
                            then refill_threshold else legacy_refill_threshold);
               (ratio, required_votes) = threshold (int (length active_user_ids)) successes;
               row = \<lparr>rf_request_id = fresh,
                 rf_active_key = Some (active_key (pq_date_str req) (pq_group_id req)),
                 rf_date_str = pq_date_str req, rf_group_id = pq_group_id req,
                 rf_initiator_id = pq_initiator_id req, rf_initiator_name = pq_initiator_name req,
                 rf_delivery_bot_id = pq_delivery_bot_id req, rf_message_id = [],
                 rf_active_count_snapshot = int (length active_user_ids),
                 rf_required_ratio = ratio, rf_required_votes = required_votes,
                 rf_success_count_before = successes, rf_status = Voting,
                 rf_benefited_user_ids = Some [], rf_failure_reason = [],
                 rf_created_at = now, rf_expires_at = now + seconds ROAST_REFILL_TTL_SECONDS,
                 rf_completed_at = None\<rparr>
           in (case insert_refill row db of
                 Inl e \<Rightarrow> Inl e
               | Inr db' \<Rightarrow> Inr (db', \<lparr>pr_status = Created, pr_request = Some (refill_to_schema row),
                                pr_active_user_ids = active_user_ids, pr_vote_weight_policy = policy\<rparr>)))"

definition prepare_refill ::
  "refill_prepare_request \<Rightarrow> datetime \<Rightarrow> string \<Rightarrow> db \<Rightarrow> error + db \<times> refill_prepare_response" where
  "prepare_refill req clock fresh db =
     (let now = utc_from_ts (pq_now_ts req) clock;
          policy = (if pq_vote_weight_policy req = ROAST_REFILL_VOTE_WEIGHT_POLICY
                    then ROAST_REFILL_VOTE_WEIGHT_POLICY else [])
      in case get_refill_by_key (active_key (pq_date_str req) (pq_group_id req)) db of
           None \<Rightarrow> open_refill req now fresh policy db
         | Some found \<Rightarrow>
             let existing = expire_if_needed now found;
                 db1 = set_refill (rf_request_id found) (\<lambda>_. existing) db
             in if rf_status existing = Voting then
                  Inr (db1, \<lparr>pr_status = Existing, pr_request = Some (refill_to_schema existing),
                             pr_active_user_ids = [], pr_vote_weight_policy = policy\<rparr>)
                else open_refill req now fresh policy db1)"

definition get_active_refill ::
  "date \<Rightarrow> group_id \<Rightarrow> rat option \<Rightarrow> datetime \<Rightarrow> db \<Rightarrow> db \<times> group_roast_refill_request option" where
  "get_active_refill date_str group_id now_ts clock db =
     (case get_refill_by_key (active_key date_str group_id) db of
        None \<Rightarrow> (db, None)
      | Some found \<Rightarrow>
          let now = utc_from_ts now_ts clock
          in if needs_expiry now found then
               (set_refill (rf_request_id found) (\<lambda>_. expire_if_needed now found) db, None)
             else (db, if rf_status found = Voting then Some found else None))"

definition bind_refill_message ::
  "string \<Rightarrow> string \<Rightarrow> rat option \<Rightarrow> datetime \<Rightarrow> db \<Rightarrow> db \<times> group_roast_refill_request option" where
  "bind_refill_message request_id message_id now_ts clock db =
     (case get_refill request_id db of
        None \<Rightarrow> (db, None)
      | Some found \<Rightarrow>
          if rf_status found \<noteq> Voting then (db, None)
          else
            let now = utc_from_ts now_ts clock
            in if needs_expiry now found then
                 (set_refill request_id (\<lambda>_. expire_if_needed now found) db, None)
               else if message_id = [] \<or> rf_message_id found \<noteq> [] \<and> rf_message_id found \<noteq> message_id then
                 (db, None)
               else
                 let row = found\<lparr>rf_message_id := message_id\<rparr>
                 in (set_refill request_id (\<lambda>_. row) db, Some row))"

definition fail_refill :: "string \<Rightarrow> string \<Rightarrow> string \<Rightarrow> db \<Rightarrow> db \<times> bool" where
  "fail_refill request_id message_id reason db =
     (case get_refill request_id db of
        None \<Rightarrow> (db, False)
      | Some found \<Rightarrow>
          if rf_status found \<noteq> Voting then (db, False)
          else if message_id \<noteq> [] \<and> rf_message_id found \<notin> {[], message_id} then (db, False)
          else (set_refill request_id
                  (\<lambda>_. found\<lparr>rf_status := Failed, rf_failure_reason := take 64 reason, rf_active_key := None\<rparr>) db,
                True))"

subsection \<open>Counting the votes and refilling\<close>

record refill_complete_request =
  cpq_request_id :: string
  cpq_message_id :: string
  cpq_voter_ids :: "user_id list"
  cpq_manager_voter_ids :: "user_id list"
  cpq_vote_weight_policy :: string
  cpq_excluded_user_ids :: "user_id list"
  cpq_max_charges :: int
  cpq_now_ts :: "rat option"

datatype refill_complete_status =
  Missing | Closed refill_status | MessageMismatch | PendingVotes | Completed

record refill_complete_response =
  fc_completed :: bool
  fc_status :: refill_complete_status
  fc_request :: "group_roast_refill_request option"
  fc_valid_voter_ids :: "user_id list"
  fc_benefited_user_ids :: "user_id list"
  fc_effective_votes :: nat

definition not_completed ::
  "refill_complete_status \<Rightarrow> group_roast_refill_request option \<Rightarrow> refill_complete_response" where
  "not_completed status row =
     \<lparr>fc_completed = False, fc_status = status, fc_request = map_option refill_to_schema row,
      fc_valid_voter_ids = [], fc_benefited_user_ids = [], fc_effective_votes = 0\<rparr>"

text \<open>The valid voters and the weight of their votes.\<close>

definition valid_voters :: "refill_complete_request \<Rightarrow> user_id list \<Rightarrow> user_id list" where
  "valid_voters req active =
     filter (\<lambda>u. u \<in> set active \<and> u \<notin> set (sorted_ids (cpq_excluded_user_ids req)))
       (sorted_ids (cpq_voter_ids req))"

definition effective_votes :: "refill_complete_request \<Rightarrow> user_id list \<Rightarrow> nat" where
  "effective_votes req active =
     length (valid_voters req active) +
     (if cpq_vote_weight_policy req = ROAST_REFILL_VOTE_WEIGHT_POLICY
      then length (filter (\<lambda>u. u \<in> set (sorted_ids (cpq_manager_voter_ids req))) (valid_voters req active))
      else 0)"

definition benefited_users :: "refill_complete_request \<Rightarrow> user_id list \<Rightarrow> user_id list" where
  "benefited_users req active =
     sort (remdups (filter (\<lambda>u. u \<notin> set (sorted_ids (cpq_excluded_user_ids req))) active))"

definition complete_refill ::
  "refill_complete_request \<Rightarrow> datetime \<Rightarrow> db \<Rightarrow> db \<times> refill_complete_response" where
  "complete_refill req clock db =
     (let now = utc_from_ts (cpq_now_ts req) clock
      in case get_refill (cpq_request_id req) db of
           None \<Rightarrow> (db, not_completed Missing None)
         | Some row \<Rightarrow>
             if rf_status row \<noteq> Voting then (db, not_completed (Closed (rf_status row)) (Some row))
             else if rf_message_id row = [] \<or> cpq_message_id req = [] \<or> rf_message_id row \<noteq> cpq_message_id req
             then (db, not_completed MessageMismatch (Some row))
             else if needs_expiry now row then
               (set_refill (cpq_request_id req) (\<lambda>_. expire_if_needed now row) db,
                not_completed (Closed Expired) (Some (expire_if_needed now row)))
             else
               let active = group_active_users (rf_date_str row) (rf_group_id row) db;
                   voters = valid_voters req active;
                   votes = effective_votes req active
               in if length voters < ROAST_REFILL_MIN_DISTINCT_VOTERS \<or> int votes < rf_required_votes row then
                    (db, (not_completed PendingVotes (Some row))
                           \<lparr>fc_valid_voter_ids := voters, fc_effective_votes := votes\<rparr>)
                  else
                    let benefited = benefited_users req active;
                        now_epoch = (case cpq_now_ts req of Some v \<Rightarrow> int_of_float v
                                     | None \<Rightarrow> clock div seconds 1);
                        (charge_max, _) = clamp_charge_settings (Some (cpq_max_charges req)) None;
                        row' = row\<lparr>rf_status := Succeeded, rf_active_key := None,
                                  rf_completed_at := Some now, rf_benefited_user_ids := Some benefited\<rparr>
                    in (set_refill (cpq_request_id req) (\<lambda>_. row') (reset_roast_charges benefited charge_max now_epoch db),
                        \<lparr>fc_completed = True, fc_status = Completed, fc_request = Some (refill_to_schema row'),
                         fc_valid_voter_ids = voters, fc_benefited_user_ids = benefited,
                         fc_effective_votes = votes\<rparr>))"

text \<open>The endpoint retries a prepare whose insert lost the race for the active key.\<close>

definition prepare_refill_endpoint ::
  "refill_prepare_request \<Rightarrow> datetime \<Rightarrow> (nat \<Rightarrow> string) \<Rightarrow> (nat \<Rightarrow> db) \<Rightarrow> error + db \<times> refill_prepare_response" where
  "prepare_refill_endpoint req clock fresh dbs =
     retry_integrity ''prepare group roast refill retry exhausted'' 3
       (\<lambda>k. prepare_refill req clock (fresh k) (dbs k))"

subsection \<open>Reachable states\<close>

text \<open>
  One step is one committed call of any client, or any transaction of another component, which
  does not write this table.
\<close>

inductive refill_step :: "db \<Rightarrow> db \<Rightarrow> bool" where
  prepare: "prepare_refill req clock fresh db = Inr (db', resp) \<Longrightarrow> refill_step db db'"
| bind: "bind_refill_message i m ts clock db = (db', found) \<Longrightarrow> refill_step db db'"
| get_active: "get_active_refill d g ts clock db = (db', found) \<Longrightarrow> refill_step db db'"
| fail: "fail_refill i m reason db = (db', ok) \<Longrightarrow> refill_step db db'"
| complete: "complete_refill creq clock db = (db', cresp) \<Longrightarrow> refill_step db db'"
| other: "group_roast_refill_requests db' = group_roast_refill_requests db \<Longrightarrow> refill_step db db'"

text \<open>A request holds its group's key exactly while it votes, and no two requests hold one key.\<close>

definition key_ok :: "group_roast_refill_request \<Rightarrow> bool" where
  "key_ok r \<longleftrightarrow> rf_active_key r =
     (if rf_status r = Voting then Some (active_key (rf_date_str r) (rf_group_id r)) else None)"

definition refills_wf :: "db \<Rightarrow> bool" where
  "refills_wf db \<longleftrightarrow> unique_on rf_request_id (group_roast_refill_requests db) \<and>
     (\<forall>r\<in>set (group_roast_refill_requests db). key_ok r) \<and>
     (\<forall>x\<in>set (group_roast_refill_requests db). \<forall>y\<in>set (group_roast_refill_requests db).
        rf_active_key x \<noteq> None \<longrightarrow> rf_active_key x = rf_active_key y \<longrightarrow> x = y)"

text \<open>What never changes about a request: its scope, its threshold, a bound message, its end.\<close>

definition refill_evolves :: "group_roast_refill_request \<Rightarrow> group_roast_refill_request \<Rightarrow> bool" where
  "refill_evolves r r' \<longleftrightarrow>
     rf_request_id r' = rf_request_id r \<and> rf_date_str r' = rf_date_str r \<and>
     rf_group_id r' = rf_group_id r \<and> rf_required_votes r' = rf_required_votes r \<and>
     rf_required_ratio r' = rf_required_ratio r \<and>
     rf_active_count_snapshot r' = rf_active_count_snapshot r \<and>
     rf_success_count_before r' = rf_success_count_before r \<and>
     rf_expires_at r' = rf_expires_at r \<and>
     (rf_message_id r \<noteq> [] \<longrightarrow> rf_message_id r' = rf_message_id r) \<and>
     (rf_status r \<noteq> Voting \<longrightarrow> r' = r)"

lemma refill_evolves_refl [simp]: "refill_evolves r r"
  by (simp add: refill_evolves_def)

lemma refill_evolves_trans: "refill_evolves r s \<Longrightarrow> refill_evolves s t \<Longrightarrow> refill_evolves r t"
  by (auto simp: refill_evolves_def)

text \<open>What a call does to the table, in one relation.\<close>

definition refill_effect :: "db \<Rightarrow> db \<Rightarrow> bool" where
  "refill_effect db db' \<longleftrightarrow> refills_wf db' \<and>
     (\<forall>r\<in>set (group_roast_refill_requests db). \<exists>r'\<in>set (group_roast_refill_requests db'). refill_evolves r r')"

lemma refill_effect_same:
  "refills_wf db \<Longrightarrow> group_roast_refill_requests db' = group_roast_refill_requests db \<Longrightarrow> refill_effect db db'"
  by (auto simp: refill_effect_def refills_wf_def intro: bexI [where P = "refill_evolves _"] refill_evolves_refl)

lemma refill_effect_trans: "refill_effect db db1 \<Longrightarrow> refill_effect db1 db2 \<Longrightarrow> refill_effect db db2"
  unfolding refill_effect_def by (meson refill_evolves_trans)

lemma get_refill_SomeD: "get_refill i db = Some r \<Longrightarrow> r \<in> set (group_roast_refill_requests db) \<and> rf_request_id r = i"
  by (auto simp: get_refill_def dest: one_or_none_SomeD)

lemma get_refill_by_key_SomeD:
  "get_refill_by_key k db = Some r \<Longrightarrow> r \<in> set (group_roast_refill_requests db) \<and> rf_active_key r = Some k"
  by (auto simp: get_refill_by_key_def dest: one_or_none_SomeD)

lemma get_refill_member:
  "refills_wf db \<Longrightarrow> r \<in> set (group_roast_refill_requests db) \<Longrightarrow> get_refill (rf_request_id r) db = Some r"
  by (simp add: get_refill_def refills_wf_def one_or_none_key)

text \<open>The one lemma behind every assignment to a voting request.\<close>

lemma set_refill_effect:
  assumes wf: "refills_wf db" and row: "row \<in> set (group_roast_refill_requests db)" "rf_status row = Voting"
    and new: "refill_evolves row row'" "key_ok row'"
  shows "refill_effect db (set_refill (rf_request_id row) (\<lambda>_. row') db)"
proof -
  let ?rs = "group_roast_refill_requests db"
  let ?rs' = "upd_rows (\<lambda>r. rf_request_id r = rf_request_id row) (\<lambda>_. row') ?rs"
  have id: "rf_request_id row' = rf_request_id row" using new(1) by (simp add: refill_evolves_def)
  have mem: "x \<in> set ?rs' \<Longrightarrow> x = row' \<or> x \<in> set ?rs \<and> rf_request_id x \<noteq> rf_request_id row" for x
    by (auto simp: set_upd_rows)
  have key: "rf_active_key row' \<noteq> None \<Longrightarrow> rf_active_key row' = rf_active_key row"
    using new wf row by (auto simp: key_ok_def refill_evolves_def refills_wf_def split: if_splits)
  have "unique_on rf_request_id ?rs'"
    using wf id by (intro unique_on_upd) (auto simp: refills_wf_def)
  moreover have "\<forall>r\<in>set ?rs'. key_ok r"
    using mem new(2) wf by (auto simp: refills_wf_def)
  moreover have "x = y" if xy: "x \<in> set ?rs'" "y \<in> set ?rs'" "rf_active_key x \<noteq> None" "rf_active_key x = rf_active_key y" for x y
  proof -
    have clash: "z \<notin> set ?rs \<or> rf_request_id z = rf_request_id row"
      if "rf_active_key z = rf_active_key row'" "rf_active_key row' \<noteq> None" for z
      using that key wf row(1) by (metis refills_wf_def)
    show ?thesis
      using mem [OF xy(1)] mem [OF xy(2)] clash [of x] clash [of y] xy(3,4) wf
      by (metis refills_wf_def)
  qed
  ultimately have "refills_wf (set_refill (rf_request_id row) (\<lambda>_. row') db)"
    by (auto simp: refills_wf_def set_refill_def)
  moreover have "\<exists>r'\<in>set ?rs'. refill_evolves r r'" if r: "r \<in> set ?rs" for r
  proof (cases "rf_request_id r = rf_request_id row")
    case True
    with wf row(1) r have "r = row" by (auto simp: refills_wf_def dest: unique_onD)
    with new(1) r show ?thesis by (auto simp: set_upd_rows)
  next
    case False
    with r have "r \<in> set ?rs'" by (auto simp: set_upd_rows)
    then show ?thesis by (intro bexI [of _ r]) simp_all
  qed
  ultimately show ?thesis by (simp add: refill_effect_def set_refill_def)
qed

lemma set_refill_same:
  assumes "refills_wf db" and "row \<in> set (group_roast_refill_requests db)"
  shows "set_refill (rf_request_id row) (\<lambda>_. row) db = db"
proof -
  have "upd_rows (\<lambda>r. rf_request_id r = rf_request_id row) (\<lambda>_. row) (group_roast_refill_requests db) =
      group_roast_refill_requests db"
    using assms by (intro upd_rows_id) (auto simp: refills_wf_def dest: unique_onD)
  then show ?thesis by (simp add: set_refill_def)
qed

lemma insert_refill_effect:
  assumes "refills_wf db" and "insert_refill row db = Inr db'" and "key_ok row"
  shows "refill_effect db db'"
proof -
  let ?rs = "group_roast_refill_requests db"
  have rs': "group_roast_refill_requests db' = ?rs @ [row]"
    and fresh: "\<forall>x\<in>set ?rs. rf_request_id x \<noteq> rf_request_id row"
    and free: "no_conflict rf_active_key row ?rs"
    using assms(2) by (auto simp: insert_refill_def get_refill_def one_or_none_None_iff split: if_splits)
  from free have "rf_active_key row \<noteq> None \<Longrightarrow> x \<in> set ?rs \<Longrightarrow> rf_active_key x \<noteq> rf_active_key row" for x
    by (auto simp: no_conflict_def)
  then have "refills_wf db'"
    using assms(1,3) fresh by (auto simp: refills_wf_def rs' unique_on_append1)
  then show ?thesis
    by (auto simp: refill_effect_def rs' intro: bexI [where P = "refill_evolves _"] refill_evolves_refl)
qed

lemma expire_evolves: "refill_evolves r (expire_if_needed now r)"
  by (simp add: refill_evolves_def expire_if_needed_def needs_expiry_def)

lemma expire_key_ok: "key_ok r \<Longrightarrow> key_ok (expire_if_needed now r)"
  by (simp add: key_ok_def expire_if_needed_def)

lemma refills_wf_key_ok: "refills_wf db \<Longrightarrow> r \<in> set (group_roast_refill_requests db) \<Longrightarrow> key_ok r"
  by (simp add: refills_wf_def)

lemma expire_effect:
  assumes "refills_wf db" and "r \<in> set (group_roast_refill_requests db)"
  shows "refill_effect db (set_refill (rf_request_id r) (\<lambda>_. expire_if_needed now r) db)"
proof (cases "rf_status r = Voting")
  case True
  with assms show ?thesis
    by (intro set_refill_effect expire_evolves expire_key_ok refills_wf_key_ok)
next
  case False
  with assms show ?thesis
    by (simp add: expire_if_needed_def needs_expiry_def set_refill_same refill_effect_same)
qed

lemma open_refill_effect:
  assumes "refills_wf db" and "open_refill req now fresh policy db = Inr (db', resp)"
  shows "refill_effect db db'"
  using assms
  by (auto simp: open_refill_def Let_def key_ok_def refill_effect_same elim!: insert_refill_effect [rotated]
      split: if_splits prod.splits sum.splits)

lemma prepare_refill_effect:
  assumes "refills_wf db" and "prepare_refill req clock fresh db = Inr (db', resp)"
  shows "refill_effect db db'"
proof (cases "get_refill_by_key (active_key (pq_date_str req) (pq_group_id req)) db")
  case None
  with assms show ?thesis by (auto simp: prepare_refill_def Let_def intro: open_refill_effect)
next
  case (Some r)
  let ?now = "utc_from_ts (pq_now_ts req) clock"
  let ?db1 = "set_refill (rf_request_id r) (\<lambda>_. expire_if_needed ?now r) db"
  from Some have "r \<in> set (group_roast_refill_requests db)" by (simp add: get_refill_by_key_SomeD)
  with assms(1) have eff: "refill_effect db ?db1" by (rule expire_effect)
  then have "refills_wf ?db1" by (simp add: refill_effect_def)
  with assms(2) Some eff show ?thesis
    by (auto simp: prepare_refill_def Let_def split: if_splits
        intro: refill_effect_trans [OF eff] open_refill_effect)
qed

lemma get_active_refill_effect:
  assumes "refills_wf db" and "get_active_refill d g ts clock db = (db', found)"
  shows "refill_effect db db'"
  using assms
  by (auto simp: get_active_refill_def Let_def refill_effect_same split: option.splits if_splits
      dest: get_refill_by_key_SomeD intro: expire_effect)

lemma bind_refill_effect:
  assumes "refills_wf db" and "bind_refill_message i m ts clock db = (db', found)"
  shows "refill_effect db db'"
proof (cases "get_refill i db")
  case None
  with assms show ?thesis by (simp add: bind_refill_message_def refill_effect_same)
next
  case (Some r)
  then have r: "r \<in> set (group_roast_refill_requests db)" "i = rf_request_id r"
    by (auto dest: get_refill_SomeD)
  have "rf_status r = Voting \<Longrightarrow> rf_message_id r \<in> {[], m} \<Longrightarrow>
      refill_effect db (set_refill i (\<lambda>_. r\<lparr>rf_message_id := m\<rparr>) db)"
    unfolding r(2) using assms(1) r(1) refills_wf_key_ok [OF assms(1) r(1)]
    by (intro set_refill_effect) (auto simp: refill_evolves_def key_ok_def)
  moreover have "refill_effect db (set_refill i (\<lambda>_. expire_if_needed now r) db)" for now
    unfolding r(2) using assms(1) r(1) by (rule expire_effect)
  ultimately show ?thesis
    using assms Some by (auto simp: bind_refill_message_def Let_def refill_effect_same split: if_splits)
qed

lemma fail_refill_effect:
  assumes "refills_wf db" and "fail_refill i m reason db = (db', ok)"
  shows "refill_effect db db'"
proof (cases "get_refill i db")
  case None
  with assms show ?thesis by (simp add: fail_refill_def refill_effect_same)
next
  case (Some r)
  then have r: "r \<in> set (group_roast_refill_requests db)" "i = rf_request_id r"
    by (auto dest: get_refill_SomeD)
  have "rf_status r = Voting \<Longrightarrow> refill_effect db (set_refill i
      (\<lambda>_. r\<lparr>rf_status := Failed, rf_failure_reason := take 64 reason, rf_active_key := None\<rparr>) db)"
    unfolding r(2) using assms(1) r(1)
    by (intro set_refill_effect) (auto simp: refill_evolves_def key_ok_def)
  with assms Some show ?thesis
    by (auto simp: fail_refill_def Let_def refill_effect_same split: if_splits)
qed

lemma reset_frame [frame_simps]:
  "group_roast_refill_requests (reset_roast_charges us c n db) = group_roast_refill_requests db"
  "user_usage (set_refill i f db) = user_usage db"
  "set_refill i f (reset_roast_charges us c n db) = reset_roast_charges us c n (set_refill i f db)"
  by (simp_all add: reset_roast_charges_def set_refill_def)

lemma refill_effect_usage:
  "refill_effect db db1 \<Longrightarrow> refill_effect db (reset_roast_charges us c n db1)"
  unfolding refill_effect_def refills_wf_def by (simp only: frame_simps) blast

text \<open>The outcomes of a completion attempt.\<close>

lemma complete_refill_cases:
  assumes "complete_refill req clock db = (db', resp)"
  obtains (closed) "db' = db" "\<not> fc_completed resp"
  | (expired) row where "get_refill (cpq_request_id req) db = Some row"
      "needs_expiry (utc_from_ts (cpq_now_ts req) clock) row" "\<not> fc_completed resp"
      "db' = set_refill (cpq_request_id req) (\<lambda>_. expire_if_needed (utc_from_ts (cpq_now_ts req) clock) row) db"
  | (completed) row active where "get_refill (cpq_request_id req) db = Some row"
      "rf_status row = Voting" "rf_message_id row \<noteq> []" "rf_message_id row = cpq_message_id req"
      "\<not> needs_expiry (utc_from_ts (cpq_now_ts req) clock) row"
      "active = group_active_users (rf_date_str row) (rf_group_id row) db"
      "2 \<le> length (valid_voters req active)" "rf_required_votes row \<le> int (effective_votes req active)"
      "fc_completed resp" "fc_status resp = Completed" "fc_benefited_user_ids resp = benefited_users req active"
      "db' = set_refill (cpq_request_id req)
         (\<lambda>_. row\<lparr>rf_status := Succeeded, rf_active_key := None,
               rf_completed_at := Some (utc_from_ts (cpq_now_ts req) clock),
               rf_benefited_user_ids := Some (benefited_users req active)\<rparr>)
         (reset_roast_charges (benefited_users req active)
           (fst (clamp_charge_settings (Some (cpq_max_charges req)) None))
           (case cpq_now_ts req of Some v \<Rightarrow> int_of_float v | None \<Rightarrow> clock div seconds 1) db)"
proof (cases "get_refill (cpq_request_id req) db")
  case None
  with assms show ?thesis by (intro closed) (auto simp: complete_refill_def not_completed_def Let_def)
next
  case (Some row)
  let ?now = "utc_from_ts (cpq_now_ts req) clock"
  let ?active = "group_active_users (rf_date_str row) (rf_group_id row) db"
  show ?thesis
  proof (cases "rf_status row = Voting \<and> rf_message_id row \<noteq> [] \<and> rf_message_id row = cpq_message_id req")
    case False
    with assms Some show ?thesis
      by (intro closed) (auto simp: complete_refill_def not_completed_def Let_def split: if_splits)
  next
    case open_vote: True
    show ?thesis
    proof (cases "needs_expiry ?now row")
      case True
      with assms Some open_vote show ?thesis
        by (intro expired [of row]) (auto simp: complete_refill_def not_completed_def Let_def)
    next
      case live: False
      show ?thesis
      proof (cases "length (valid_voters req ?active) < 2 \<or> int (effective_votes req ?active) < rf_required_votes row")
        case True
        with assms Some open_vote live show ?thesis
          by (intro closed) (auto simp: complete_refill_def not_completed_def Let_def ROAST_REFILL_MIN_DISTINCT_VOTERS_def)
      next
        case False
        with assms Some open_vote live show ?thesis
          by (intro completed [of row ?active])
             (auto simp: complete_refill_def Let_def ROAST_REFILL_MIN_DISTINCT_VOTERS_def split: prod.splits)
      qed
    qed
  qed
qed

lemma complete_refill_effect:
  assumes "refills_wf db" and "complete_refill req clock db = (db', resp)"
  shows "refill_effect db db'"
  using assms(2)
proof (cases rule: complete_refill_cases)
  case closed
  with assms(1) show ?thesis by (simp add: refill_effect_same)
next
  case (expired row)
  then have "row \<in> set (group_roast_refill_requests db)" "cpq_request_id req = rf_request_id row"
    by (auto dest: get_refill_SomeD)
  with assms(1) expired(4) show ?thesis by (simp add: expire_effect)
next
  case (completed row active)
  then have row: "row \<in> set (group_roast_refill_requests db)" "cpq_request_id req = rf_request_id row"
    by (auto dest: get_refill_SomeD)
  have "refill_effect db (set_refill (rf_request_id row)
      (\<lambda>_. row\<lparr>rf_status := Succeeded, rf_active_key := None,
               rf_completed_at := Some (utc_from_ts (cpq_now_ts req) clock),
               rf_benefited_user_ids := Some (benefited_users req active)\<rparr>) db)"
    using assms(1) row(1) completed(2)
    by (intro set_refill_effect) (auto simp: refill_evolves_def key_ok_def)
  then show ?thesis
    unfolding completed(12) row(2) by (simp add: frame_simps refill_effect_usage)
qed

lemma refill_step_effect: "refill_step db db' \<Longrightarrow> refills_wf db \<Longrightarrow> refill_effect db db'"
  by (induction rule: refill_step.induct)
     (auto intro: prepare_refill_effect bind_refill_effect get_active_refill_effect fail_refill_effect
       complete_refill_effect refill_effect_same)

lemma refill_steps_effect:
  assumes "refill_step\<^sup>*\<^sup>* db db'" and "refills_wf db"
  shows "refill_effect db db'"
  using assms
proof (induction rule: rtranclp_induct)
  case base
  then show ?case by (simp add: refill_effect_same)
next
  case (step y z)
  then have eff: "refill_effect db y" by simp
  then have "refills_wf y" by (simp add: refill_effect_def)
  with step.hyps(2) have "refill_effect y z" by (rule refill_step_effect)
  with eff show ?case by (rule refill_effect_trans)
qed

text \<open>A closed request is a job that is never handed out again.\<close>

interpretation refill_vote: send_once refill_evolves "\<lambda>r. rf_status r \<noteq> Voting" "\<lambda>r. rf_status r = Voting"
  by unfold_locales (auto simp: refill_evolves_def)

lemma closed_stays:
  assumes "refill_step\<^sup>*\<^sup>* db db'" and "refills_wf db" and "get_refill i db = Some r" and "rf_status r \<noteq> Voting"
  shows "get_refill i db' = Some r"
proof -
  from refill_steps_effect [OF assms(1,2)] get_refill_SomeD [OF assms(3)]
  obtain r' where "r' \<in> set (group_roast_refill_requests db')" "refill_evolves r r'" "refills_wf db'"
    by (auto simp: refill_effect_def)
  moreover from this(2) assms(4) have "r' = r" by (simp add: refill_evolves_def)
  ultimately show ?thesis
    using get_refill_member [of db' r] get_refill_SomeD [OF assms(3)] by simp
qed

subsection \<open>What a completed vote does to the charges\<close>

lemma reset_usage_lookup:
  "one_or_none (\<lambda>x. uu_user_id x = v) (reset_usage_row c n u rows) =
     (if v = u then
        Some (case one_or_none (\<lambda>x. uu_user_id x = u) rows of
          None \<Rightarrow> \<lparr>uu_user_id = u, uu_last_roast_ts = None, uu_roast_charges = Some c,
                    uu_roast_charge_updated_ts = Some n, uu_last_force_date = None\<rparr>
        | Some x \<Rightarrow> x\<lparr>uu_roast_charges := Some c, uu_roast_charge_updated_ts := Some n\<rparr>)
      else one_or_none (\<lambda>x. uu_user_id x = v) rows)"
  by (auto simp: reset_usage_row_def one_or_none_append one_or_none_upd_key split: option.split)

lemma reset_usage_fold:
  "one_or_none (\<lambda>x. uu_user_id x = v) (fold (reset_usage_row c n) us rows) =
     (if v \<in> set us then
        Some (case one_or_none (\<lambda>x. uu_user_id x = v) rows of
          None \<Rightarrow> \<lparr>uu_user_id = v, uu_last_roast_ts = None, uu_roast_charges = Some c,
                    uu_roast_charge_updated_ts = Some n, uu_last_force_date = None\<rparr>
        | Some x \<Rightarrow> x\<lparr>uu_roast_charges := Some c, uu_roast_charge_updated_ts := Some n\<rparr>)
      else one_or_none (\<lambda>x. uu_user_id x = v) rows)"
  by (induction us arbitrary: rows) (auto simp: reset_usage_lookup split: option.split)

definition get_usage :: "user_id \<Rightarrow> db \<Rightarrow> user_usage option" where
  "get_usage u db = one_or_none (\<lambda>x. uu_user_id x = u) (user_usage db)"

lemma reset_roast_charges_lookup:
  "get_usage v (reset_roast_charges us c n db) =
     (if v \<in> set us then
        Some (case get_usage v db of
          None \<Rightarrow> \<lparr>uu_user_id = v, uu_last_roast_ts = None, uu_roast_charges = Some c,
                    uu_roast_charge_updated_ts = Some n, uu_last_force_date = None\<rparr>
        | Some x \<Rightarrow> x\<lparr>uu_roast_charges := Some c, uu_roast_charge_updated_ts := Some n\<rparr>)
      else get_usage v db)"
  by (simp add: get_usage_def reset_roast_charges_def reset_usage_fold)

lemma set_benefited_users:
  "set (benefited_users req active) = {u \<in> set active. \<not> (u \<in> set (cpq_excluded_user_ids req) \<and> u \<noteq> [])}"
  by (auto simp: benefited_users_def)

lemma valid_voters_card:
  "length (valid_voters req active) =
   card {u \<in> set (cpq_voter_ids req). u \<noteq> [] \<and> u \<in> set active \<and> u \<notin> set (cpq_excluded_user_ids req)}"
proof -
  have "distinct (valid_voters req active)" by (simp add: valid_voters_def)
  moreover have "set (valid_voters req active) =
      {u \<in> set (cpq_voter_ids req). u \<noteq> [] \<and> u \<in> set active \<and> u \<notin> set (cpq_excluded_user_ids req)}"
    by (auto simp: valid_voters_def)
  ultimately show ?thesis by (metis distinct_card)
qed

lemma effective_votes_card:
  "effective_votes req active =
   length (valid_voters req active) +
   (if cpq_vote_weight_policy req = ROAST_REFILL_VOTE_WEIGHT_POLICY
    then card (set (valid_voters req active) \<inter> set (cpq_manager_voter_ids req)) else 0)"
proof -
  let ?managers = "filter (\<lambda>u. u \<in> set (sorted_ids (cpq_manager_voter_ids req))) (valid_voters req active)"
  have "distinct ?managers" by (simp add: valid_voters_def)
  moreover have "set ?managers = set (valid_voters req active) \<inter> set (cpq_manager_voter_ids req)"
    by (auto simp: valid_voters_def)
  ultimately have "length ?managers = card (set (valid_voters req active) \<inter> set (cpq_manager_voter_ids req))"
    by (metis distinct_card)
  then show ?thesis by (simp add: effective_votes_def)
qed

subsection \<open>Thresholds\<close>

text \<open>The steps of the two threshold tables.\<close>

definition capped_ratio :: "int \<Rightarrow> int" where
  "capped_ratio s = (if s \<le> 0 then 25 else if s = 1 then 35 else if s = 2 then 45 else 55)"

definition vote_cap :: "int \<Rightarrow> int" where
  "vote_cap s = (if s \<le> 0 then 8 else if s = 1 then 12 else if s = 2 then 16 else 20)"

definition legacy_ratio :: "int \<Rightarrow> int" where
  "legacy_ratio s = (if s \<le> 0 then 25 else if s = 1 then 35 else if s = 2 then 45 else if s = 3 then 55 else 65)"

lemma threshold_steps:
  "snd (refill_threshold a s) = max 2 (min ((max 0 a * capped_ratio s + 99) div 100) (vote_cap s))"
proof -
  consider "s \<le> 0" | "s = 1" | "s = 2" | "3 \<le> s" by linarith
  then have "ROAST_REFILL_THRESHOLD_STEPS ! nat (min (max 0 s) (int (length ROAST_REFILL_THRESHOLD_STEPS) - 1)) =
      (capped_ratio s, vote_cap s)"
    by cases (simp_all add: ROAST_REFILL_THRESHOLD_STEPS_def capped_ratio_def vote_cap_def numeral_3_eq_3)
  then show ?thesis by (simp add: refill_threshold_def Let_def)
qed

lemma legacy_threshold_steps:
  "snd (legacy_refill_threshold a s) = max 2 ((max 0 a * legacy_ratio s + 99) div 100)"
proof -
  consider "s \<le> 0" | "s = 1" | "s = 2" | "s = 3" | "4 \<le> s" by linarith
  then have "LEGACY_ROAST_REFILL_RATIOS ! nat (min (max 0 s) (int (length LEGACY_ROAST_REFILL_RATIOS) - 1)) =
      legacy_ratio s"
    by cases (simp_all add: LEGACY_ROAST_REFILL_RATIOS_def legacy_ratio_def)
  then show ?thesis by (simp add: legacy_refill_threshold_def Let_def)
qed

lemma threshold_table_bounds:
  "capped_ratio s \<le> 100" "legacy_ratio s \<le> 100" "vote_cap s \<le> 20" "capped_ratio s \<le> legacy_ratio s"
  "s \<le> t \<Longrightarrow> capped_ratio s \<le> capped_ratio t" "s \<le> t \<Longrightarrow> vote_cap s \<le> vote_cap t"
  by (simp_all add: capped_ratio_def legacy_ratio_def vote_cap_def)

lemma ceil_div_le: "0 \<le> a \<Longrightarrow> r \<le> 100 \<Longrightarrow> (a * r + 99) div 100 \<le> (a::int)"
proof -
  assume "0 \<le> a" "r \<le> 100"
  then have "a * r + 99 < (a + 1) * 100"
    using mult_left_mono [of r 100 a] by (simp add: algebra_simps)
  then have "(a * r + 99) div 100 < a + 1"
    using le_div_iff_mult_le [of 100 "a + 1" "a * r + 99"] by linarith
  then show ?thesis by simp
qed

lemma ceil_div_mono: "0 \<le> a \<Longrightarrow> r \<le> r' \<Longrightarrow> (a * r + 99) div 100 \<le> (a * r' + 99) div (100::int)"
  by (intro zdiv_mono1) (simp_all add: mult_left_mono)

lemma threshold_satisfiable:
  assumes "3 \<le> a"
  shows "2 \<le> snd (refill_threshold a s) \<and> snd (refill_threshold a s) \<le> a \<and>
     2 \<le> snd (legacy_refill_threshold a s) \<and> snd (legacy_refill_threshold a s) \<le> a"
proof -
  have "max 0 a = a" using assms by simp
  then show ?thesis
    using ceil_div_le [of a "capped_ratio s"] ceil_div_le [of a "legacy_ratio s"] assms
    by (simp add: threshold_steps legacy_threshold_steps threshold_table_bounds)
qed

subsection \<open>Opening a vote\<close>

lemma set_refill_lookup:
  "rf_request_id row = i \<Longrightarrow>
   get_refill j (set_refill i (\<lambda>_. row) db) = (if j = i then map_option (\<lambda>_. row) (get_refill i db) else get_refill j db)"
  by (induction "group_roast_refill_requests db") (auto simp: get_refill_def set_refill_def one_or_none_upd_same
      intro!: one_or_none_upd_other)

lemma eligible_active_frame [simp]: "eligible_active req (set_refill i f db) = eligible_active req db"
  by (simp add: eligible_active_def set_refill_def group_active_users_def get_group_active_user_ids_def)

lemma insert_refill_lookup:
  "insert_refill row db = Inr db' \<Longrightarrow> get_refill (rf_request_id row) db' = Some row"
  by (auto simp: insert_refill_def get_refill_def one_or_none_append split: if_splits)

text \<open>
  The answer for \<open>n\<close> eligible active users when no vote is open: a request with the frozen
  threshold, which those users can reach, or a refusal.
\<close>

definition opens_vote :: "datetime \<Rightarrow> string \<Rightarrow> nat \<Rightarrow> db \<Rightarrow> refill_prepare_response \<Rightarrow> bool" where
  "opens_vote now fresh n db' resp \<longleftrightarrow>
     (if n < 3 then pr_status resp = InsufficientActive
      else pr_status resp = Created \<and>
        (\<exists>row. get_refill fresh db' = Some row \<and> rf_status row = Voting \<and>
           rf_expires_at row = now + seconds ROAST_REFILL_TTL_SECONDS \<and>
           rf_active_count_snapshot row = int n \<and>
           2 \<le> rf_required_votes row \<and> rf_required_votes row \<le> int n))"

lemma open_refill_answers:
  assumes "refills_wf db" and "get_refill fresh db = None"
    and "get_refill_by_key (active_key (pq_date_str req) (pq_group_id req)) db = None"
  shows "\<exists>db' resp. open_refill req now fresh policy db = Inr (db', resp) \<and>
     opens_vote now fresh (length (eligible_active req db)) db' resp"
proof (cases "length (eligible_active req db) < 3")
  case True
  then show ?thesis by (simp add: open_refill_def opens_vote_def Let_def)
next
  case False
  let ?a = "int (length (eligible_active req db))"
  obtain ratio votes where th: "(if pq_threshold_policy req = ROAST_REFILL_THRESHOLD_POLICY then refill_threshold
      else legacy_refill_threshold) ?a (success_count (pq_date_str req) (pq_group_id req) db) = (ratio, votes)"
    by (metis surj_pair)
  have bounds: "2 \<le> votes \<and> votes \<le> ?a"
    using threshold_satisfiable [of ?a "success_count (pq_date_str req) (pq_group_id req) db"] False th
    by (auto split: if_splits)
  have free: "no_conflict rf_active_key row (group_roast_refill_requests db)"
    if "rf_active_key row = Some (active_key (pq_date_str req) (pq_group_id req))" for row
    using assms(3) that by (auto simp: no_conflict_def get_refill_by_key_def one_or_none_None_iff)
  show ?thesis
    using False th bounds free assms(2)
    by (auto simp: open_refill_def opens_vote_def Let_def insert_refill_def get_refill_def one_or_none_append)
qed

subsection \<open>Properties\<close>

text \<open>
  A group has at most one open vote per date: in every state reachable from a well-formed one by
  any calls of any clients, two voting requests of the same date and group are the same request.
\<close>

theorem one_vote_per_group:
  assumes "refill_step\<^sup>*\<^sup>* db db'" and "refills_wf db"
    and "x \<in> set (group_roast_refill_requests db')" and "y \<in> set (group_roast_refill_requests db')"
    and "rf_status x = Voting" and "rf_status y = Voting"
    and "rf_date_str x = rf_date_str y" and "rf_group_id x = rf_group_id y"
  shows "x = y"
proof -
  have wf: "refills_wf db'" using refill_steps_effect [OF assms(1,2)] by (simp add: refill_effect_def)
  with assms(3-8) have "rf_active_key x \<noteq> None" "rf_active_key x = rf_active_key y"
    by (simp_all add: refills_wf_key_ok [unfolded key_ok_def])
  with wf assms(3,4) show ?thesis by (meson refills_wf_def)
qed

definition sample_refill :: group_roast_refill_request where
  "sample_refill = \<lparr>rf_request_id = ''r1'', rf_active_key = Some (1, ''g''), rf_date_str = 1,
     rf_group_id = ''g'', rf_initiator_id = ''a'', rf_initiator_name = ''A'',
     rf_delivery_bot_id = ''bot'', rf_message_id = ''m'', rf_active_count_snapshot = 3,
     rf_required_ratio = 25, rf_required_votes = 2, rf_success_count_before = 0,
     rf_status = Voting, rf_benefited_user_ids = Some [], rf_failure_reason = [],
     rf_created_at = 0, rf_expires_at = seconds 600, rf_completed_at = None\<rparr>"

definition sample_refill_db :: db where
  "sample_refill_db = empty_db\<lparr>
     group_daily_active_users := map (active_user_row 0 1 ''g'') [''a'', ''b'', ''c''],
     group_roast_refill_requests := [sample_refill]\<rparr>"

definition sample_complete :: refill_complete_request where
  "sample_complete = \<lparr>cpq_request_id = ''r1'', cpq_message_id = ''m'', cpq_voter_ids = [''b'', ''a''],
     cpq_manager_voter_ids = [], cpq_vote_weight_policy = [], cpq_excluded_user_ids = [''c''],
     cpq_max_charges = 3, cpq_now_ts = Some 60\<rparr>"

lemma sample_refill_wf: "refills_wf sample_refill_db"
  by (simp add: refills_wf_def sample_refill_db_def key_ok_def sample_refill_def active_key_def unique_on_def)

theorem one_vote_per_group_witness:
  "hd (group_roast_refill_requests (fst (bind_refill_message ''r1'' ''m'' None 0 sample_refill_db))) =
   last (group_roast_refill_requests (fst (bind_refill_message ''r1'' ''m'' None 0 sample_refill_db)))"
proof (rule one_vote_per_group)
  show "refill_step\<^sup>*\<^sup>* sample_refill_db (fst (bind_refill_message ''r1'' ''m'' None 0 sample_refill_db))"
    by (rule r_into_rtranclp, rule refill_step.bind, rule prod.collapse [symmetric])
  have "group_roast_refill_requests (fst (bind_refill_message ''r1'' ''m'' None 0 sample_refill_db)) = [sample_refill]"
    by code_simp
  then show "hd (group_roast_refill_requests (fst (bind_refill_message ''r1'' ''m'' None 0 sample_refill_db)))
      \<in> set (group_roast_refill_requests (fst (bind_refill_message ''r1'' ''m'' None 0 sample_refill_db)))"
    "last (group_roast_refill_requests (fst (bind_refill_message ''r1'' ''m'' None 0 sample_refill_db)))
      \<in> set (group_roast_refill_requests (fst (bind_refill_message ''r1'' ''m'' None 0 sample_refill_db)))"
    by simp_all
qed (rule sample_refill_wf, code_simp+)

text \<open>
  A vote's conditions are frozen when it opens and its end is final: whatever calls follow, every
  request keeps its scope, threshold, expiry and bound message, and a request that is no longer
  voting is never changed again.
\<close>

theorem refill_request_frozen:
  assumes "refill_step\<^sup>*\<^sup>* db db'" and "refills_wf db" and "r \<in> set (group_roast_refill_requests db)"
  shows "\<exists>r'. get_refill (rf_request_id r) db' = Some r' \<and> refill_evolves r r'"
proof -
  from refill_steps_effect [OF assms(1,2)] assms(3)
  obtain r' where "refills_wf db'" "r' \<in> set (group_roast_refill_requests db')" "refill_evolves r r'"
    by (auto simp: refill_effect_def)
  then show ?thesis using get_refill_member [of db' r'] by (auto simp: refill_evolves_def)
qed

theorem refill_request_frozen_witness:
  "\<exists>r'. get_refill ''r1'' (fst (fail_refill ''r1'' ''m'' ''failed'' sample_refill_db)) = Some r' \<and>
     refill_evolves sample_refill r'"
proof -
  have "refill_step sample_refill_db (fst (fail_refill ''r1'' ''m'' ''failed'' sample_refill_db))"
    by (rule refill_step.fail) (rule prod.collapse [symmetric])
  moreover have "sample_refill \<in> set (group_roast_refill_requests sample_refill_db)" "rf_request_id sample_refill = ''r1''"
    by (simp_all add: sample_refill_db_def sample_refill_def)
  ultimately show ?thesis
    using refill_request_frozen [OF r_into_rtranclp sample_refill_wf] by metis
qed

text \<open>
  A vote pays out at most once: after a completed request, whatever calls follow, a further
  completion of the same request is refused and leaves the database unchanged.
\<close>

theorem refill_pays_once:
  assumes "refills_wf db" and "complete_refill req clock db = (db1, resp)" and "fc_completed resp"
    and "refill_step\<^sup>*\<^sup>* db1 db2" and "cpq_request_id req' = cpq_request_id req"
    and "complete_refill req' clock' db2 = (db3, resp')"
  shows "\<not> fc_completed resp' \<and> db3 = db2"
proof -
  have wf1: "refills_wf db1" using complete_refill_effect [OF assms(1,2)] by (simp add: refill_effect_def)
  obtain r where r: "get_refill (cpq_request_id req) db1 = Some r" "rf_status r = Succeeded"
    using assms(2)
  proof (cases rule: complete_refill_cases)
    case (completed row active)
    have "get_refill (cpq_request_id req) db1 =
        map_option (\<lambda>_. row\<lparr>rf_status := Succeeded, rf_active_key := None,
               rf_completed_at := Some (utc_from_ts (cpq_now_ts req) clock),
               rf_benefited_user_ids := Some (benefited_users req active)\<rparr>) (get_refill (cpq_request_id req) db)"
      using get_refill_SomeD [OF completed(1)]
      by (auto simp: completed(12) get_refill_def set_refill_def reset_roast_charges_def intro!: one_or_none_upd_same)
    with completed(1) that show ?thesis by simp
  qed (use assms(3) in auto)
  then have "get_refill (cpq_request_id req) db2 = Some r" using closed_stays [OF assms(4) wf1] by simp
  with r(2) assms(5,6) show ?thesis by (auto simp: complete_refill_def not_completed_def Let_def)
qed

theorem refill_pays_once_witness:
  "\<not> fc_completed (snd (complete_refill sample_complete 0 (fst (complete_refill sample_complete 0 sample_refill_db))))"
proof -
  have "fc_completed (snd (complete_refill sample_complete 0 sample_refill_db))" by code_simp
  from refill_pays_once [OF sample_refill_wf prod.collapse [symmetric] this rtranclp.rtrancl_refl refl prod.collapse [symmetric]]
  show ?thesis by blast
qed

text \<open>
  C5: A completion succeeds exactly when the vote carries: the request is voting and not expired, the
  message is the bound one, at least two distinct active and not excluded users voted for it, and
  their votes, with one more for each manager when the client negotiated the weights, reach the
  threshold frozen in the request.
\<close>

theorem refill_completes_iff:
  "fc_completed (snd (complete_refill req clock db)) \<longleftrightarrow>
   (\<exists>row. get_refill (cpq_request_id req) db = Some row \<and> rf_status row = Voting \<and>
      rf_message_id row \<noteq> [] \<and> rf_message_id row = cpq_message_id req \<and>
      utc_from_ts (cpq_now_ts req) clock < rf_expires_at row \<and>
      (let voters = {u \<in> set (cpq_voter_ids req). u \<noteq> [] \<and>
              u \<in> set (group_active_users (rf_date_str row) (rf_group_id row) db) \<and>
              u \<notin> set (cpq_excluded_user_ids req)};
           managers = (if cpq_vote_weight_policy req = ROAST_REFILL_VOTE_WEIGHT_POLICY
              then voters \<inter> set (cpq_manager_voter_ids req) else {})
       in 2 \<le> card voters \<and> rf_required_votes row \<le> int (card voters + card managers)))"
  (is "?done \<longleftrightarrow> ?carried")
proof -
  obtain db' resp where call: "complete_refill req clock db = (db', resp)" by (metis surj_pair)
  have voters: "set (valid_voters req active) =
      {u \<in> set (cpq_voter_ids req). u \<noteq> [] \<and> u \<in> set active \<and> u \<notin> set (cpq_excluded_user_ids req)}" for active
    by (auto simp: valid_voters_def)
  show ?thesis
  proof
    assume ?done
    with call show ?carried
      by (cases rule: complete_refill_cases [OF call])
         (auto simp: needs_expiry_def valid_voters_card effective_votes_card voters Let_def)
  next
    assume ?carried
    then obtain row where row: "get_refill (cpq_request_id req) db = Some row" "rf_status row = Voting"
      "rf_message_id row \<noteq> []" "rf_message_id row = cpq_message_id req"
      "\<not> needs_expiry (utc_from_ts (cpq_now_ts req) clock) row"
      "\<not> length (valid_voters req (group_active_users (rf_date_str row) (rf_group_id row) db)) < 2"
      "\<not> int (effective_votes req (group_active_users (rf_date_str row) (rf_group_id row) db)) < rf_required_votes row"
      by (auto simp: needs_expiry_def valid_voters_card effective_votes_card voters Let_def split: if_splits)
    then show ?done
      by (simp add: complete_refill_def ROAST_REFILL_MIN_DISTINCT_VOTERS_def Let_def split: prod.split)
  qed
qed

text \<open>
  C18: A completed vote fills up exactly the charges of the group's active users that are not excluded,
  to the clamped maximum, keeps their last use and forced roast, and touches no other user.
\<close>

theorem refill_charges_exact:
  assumes "complete_refill req clock db = (db', resp)" and "fc_completed resp"
    and "get_refill (cpq_request_id req) db = Some row"
    and "active = set (group_active_users (rf_date_str row) (rf_group_id row) db)"
  shows "(v \<in> active \<and> \<not> (v \<in> set (cpq_excluded_user_ids req) \<and> v \<noteq> []) \<longrightarrow>
      (\<exists>x. get_usage v db' = Some x \<and>
         uu_roast_charges x = Some (max 1 (min 6 (int_or (Some (cpq_max_charges req)) 2))) \<and>
         uu_last_force_date x = (case get_usage v db of None \<Rightarrow> None | Some y \<Rightarrow> uu_last_force_date y))) \<and>
     (\<not> (v \<in> active \<and> \<not> (v \<in> set (cpq_excluded_user_ids req) \<and> v \<noteq> [])) \<longrightarrow>
      get_usage v db' = get_usage v db)"
  using assms(1)
proof (cases rule: complete_refill_cases)
  case (completed row' act)
  then have "row' = row" using assms(3) by simp
  then have mem: "v \<in> set (benefited_users req act) \<longleftrightarrow>
      v \<in> active \<and> \<not> (v \<in> set (cpq_excluded_user_ids req) \<and> v \<noteq> [])"
    using completed(6) assms(4) by (simp add: set_benefited_users)
  have "get_usage v db' = get_usage v (reset_roast_charges (benefited_users req act)
      (fst (clamp_charge_settings (Some (cpq_max_charges req)) None))
      (case cpq_now_ts req of Some v \<Rightarrow> int_of_float v | None \<Rightarrow> clock div seconds 1) db)"
    by (simp add: completed(12) get_usage_def set_refill_def)
  then show ?thesis
    unfolding mem [symmetric]
    by (auto simp: reset_roast_charges_lookup clamp_charge_settings_def DEFAULT_ROAST_CHARGE_MAX_def split: option.split)
qed (use assms(2) in auto)

theorem refill_charges_exact_witness:
  "\<exists>x. get_usage ''b'' (fst (complete_refill sample_complete 0 sample_refill_db)) = Some x \<and>
     uu_roast_charges x = Some 3"
proof -
  have "fc_completed (snd (complete_refill sample_complete 0 sample_refill_db))" by code_simp
  moreover have "get_refill (cpq_request_id sample_complete) sample_refill_db = Some sample_refill" by code_simp
  moreover have "''b'' \<in> set (group_active_users (rf_date_str sample_refill) (rf_group_id sample_refill) sample_refill_db)"
    by code_simp
  moreover have "''b'' \<notin> set (cpq_excluded_user_ids sample_complete)" "cpq_max_charges sample_complete = 3"
    by (simp_all add: sample_complete_def)
  ultimately show ?thesis
    using refill_charges_exact [OF prod.collapse [symmetric], of sample_complete 0 sample_refill_db sample_refill _ "''b''"]
    by auto
qed

text \<open>
  The thresholds are satisfiable and bounded: with at least three active users a vote needs at
  least two votes and never more than there are active users; the negotiated threshold is at most
  twenty and never above the legacy one, and no further success lowers it.
\<close>

theorem refill_threshold_bounds:
  assumes "3 \<le> a" and "0 \<le> s" and "s \<le> s'"
  shows "2 \<le> snd (refill_threshold a s) \<and> snd (refill_threshold a s) \<le> min a 20 \<and>
     snd (refill_threshold a s) \<le> snd (legacy_refill_threshold a s) \<and>
     snd (legacy_refill_threshold a s) \<le> a \<and>
     snd (refill_threshold a s) \<le> snd (refill_threshold a s')"
proof -
  have a: "0 \<le> a" "max 0 a = a" using assms(1) by auto
  define c where "c = (\<lambda>r. (a * r + 99) div 100)"
  have le: "c (capped_ratio s) \<le> a" "c (legacy_ratio s) \<le> a" "c (capped_ratio s) \<le> c (legacy_ratio s)"
    "c (capped_ratio s) \<le> c (capped_ratio s')"
    unfolding c_def using a(1) assms(3)
    by (blast intro: ceil_div_le ceil_div_mono threshold_table_bounds)+
  have "max 2 (min (c (capped_ratio s)) (vote_cap s)) \<le> max 2 (min (c (capped_ratio s')) (vote_cap s'))"
    using le(4) threshold_table_bounds(6) [OF assms(3)] by (intro max.mono min.mono order_refl)
  moreover have "max 2 (min (c (capped_ratio s)) (vote_cap s)) \<le> max 2 (c (legacy_ratio s))"
    using le(3) by (intro max.mono order_refl min.coboundedI1)
  moreover have "max 2 (min (c (capped_ratio s)) (vote_cap s)) \<le> min a 20"
    using le(1) threshold_table_bounds(3) [of s] assms(1)
    by (intro min.boundedI max.boundedI min.coboundedI1 [of "c (capped_ratio s)"]
        min.coboundedI2 [of "vote_cap s"]) simp_all
  moreover have "max 2 (c (legacy_ratio s)) \<le> a" using le(2) assms(1) by simp
  ultimately show ?thesis
    unfolding threshold_steps legacy_threshold_steps a(2) c_def
    by (intro conjI max.cobounded1)
qed

theorem refill_threshold_bounds_witness:
  "snd (refill_threshold 30 0) \<le> min 30 20 \<and> snd (refill_threshold 30 0) \<le> snd (refill_threshold 30 5)"
  using refill_threshold_bounds [of 30 0 5] by simp

lemma expired_key_free:
  assumes "refills_wf db" and "get_refill_by_key k db = Some r" and "rf_active_key (expire_if_needed now r) = None"
  shows "get_refill_by_key k (set_refill (rf_request_id r) (\<lambda>_. expire_if_needed now r) db) = None"
proof -
  have "rf_active_key x \<noteq> Some k"
    if x: "x \<in> set (group_roast_refill_requests (set_refill (rf_request_id r) (\<lambda>_. expire_if_needed now r) db))" for x
  proof -
    from x consider "x = expire_if_needed now r"
      | "x \<in> set (group_roast_refill_requests db)" "rf_request_id x \<noteq> rf_request_id r"
      by (auto simp: set_refill_def set_upd_rows)
    then show ?thesis
    proof cases
      case 2
      with get_refill_by_key_SomeD [OF assms(2)] assms(1) show ?thesis
        unfolding refills_wf_def by (metis option.distinct(1))
    qed (simp add: assms(3))
  qed
  then show ?thesis by (simp add: get_refill_by_key_def one_or_none_None_iff)
qed

text \<open>
  Opening a vote never fails with a fresh identifier: it reports the group's open vote if one has
  not expired, else opens one exactly when at least three eligible users are active, and the
  threshold it freezes can be reached by them.
\<close>

theorem refill_prepare_answers:
  assumes "refills_wf db" and "get_refill fresh db = None"
    and "now = utc_from_ts (pq_now_ts req) clock"
  shows "\<exists>db' resp. prepare_refill req clock fresh db = Inr (db', resp) \<and>
     (if \<exists>r. get_refill_by_key (active_key (pq_date_str req) (pq_group_id req)) db = Some r \<and> now < rf_expires_at r
      then pr_status resp = Existing \<and> db' = db
      else opens_vote now fresh (length (eligible_active req db)) db' resp)"
proof (cases "get_refill_by_key (active_key (pq_date_str req) (pq_group_id req)) db")
  case None
  then show ?thesis
    using open_refill_answers [OF assms(1,2) None]
    by (fastforce simp: prepare_refill_def Let_def assms(3))
next
  case (Some r)
  let ?db1 = "set_refill (rf_request_id r) (\<lambda>_. expire_if_needed now r) db"
  from Some have r: "r \<in> set (group_roast_refill_requests db)" by (simp add: get_refill_by_key_SomeD)
  have voting: "rf_status r = Voting"
    using get_refill_by_key_SomeD [OF Some] refills_wf_key_ok [OF assms(1) r] by (auto simp: key_ok_def split: if_splits)
  show ?thesis
  proof (cases "now < rf_expires_at r")
    case True
    then have "expire_if_needed now r = r" by (simp add: expire_if_needed_def needs_expiry_def)
    with True Some voting r show ?thesis
      by (simp add: prepare_refill_def Let_def assms(3) [symmetric] set_refill_same [OF assms(1)])
  next
    case False
    have eff: "refill_effect db ?db1" using assms(1) r by (rule expire_effect)
    then have wf: "refills_wf ?db1" by (simp add: refill_effect_def)
    have "get_refill fresh ?db1 = None"
      using assms(2) get_refill_member [OF assms(1) r]
      by (cases "fresh = rf_request_id r") (simp_all add: set_refill_lookup expire_if_needed_def)
    moreover have "rf_active_key (expire_if_needed now r) = None"
      using False voting by (simp add: expire_if_needed_def needs_expiry_def)
    then have "get_refill_by_key (active_key (pq_date_str req) (pq_group_id req)) ?db1 = None"
      by (rule expired_key_free [OF assms(1) Some])
    ultimately have opens: "\<exists>db' resp. open_refill req now fresh policy ?db1 = Inr (db', resp) \<and>
        opens_vote now fresh (length (eligible_active req db)) db' resp" for policy
      using open_refill_answers [OF wf, of fresh req now policy] by (simp only: eligible_active_frame)
    have "rf_status (expire_if_needed now r) \<noteq> Voting"
      using False voting by (simp add: expire_if_needed_def needs_expiry_def)
    then have "prepare_refill req clock fresh db = open_refill req now fresh
        (if pq_vote_weight_policy req = ROAST_REFILL_VOTE_WEIGHT_POLICY then ROAST_REFILL_VOTE_WEIGHT_POLICY else []) ?db1"
      using Some by (simp add: prepare_refill_def Let_def assms(3) [symmetric])
    with opens Some False show ?thesis by simp
  qed
qed

definition sample_prepare :: refill_prepare_request where
  "sample_prepare = \<lparr>pq_group_id = ''g'', pq_initiator_id = ''b'', pq_initiator_name = ''B'',
     pq_delivery_bot_id = ''bot'', pq_date_str = 1, pq_eligible_user_ids = None, pq_now_ts = Some 700,
     pq_threshold_policy = ROAST_REFILL_THRESHOLD_POLICY, pq_vote_weight_policy = []\<rparr>"

theorem refill_prepare_answers_witness:
  "\<exists>db' resp. prepare_refill sample_prepare 0 ''r2'' sample_refill_db = Inr (db', resp) \<and> pr_status resp = Created"
proof -
  have none: "get_refill ''r2'' sample_refill_db = None" by code_simp
  have key: "get_refill_by_key (active_key (pq_date_str sample_prepare) (pq_group_id sample_prepare)) sample_refill_db =
      Some sample_refill" by code_simp
  have late: "\<not> utc_from_ts (pq_now_ts sample_prepare) 0 < rf_expires_at sample_refill"
    and three: "\<not> length (eligible_active sample_prepare sample_refill_db) < 3" by code_simp+
  from refill_prepare_answers [OF sample_refill_wf none refl, of sample_prepare 0] key late three
  show ?thesis by (auto simp: opens_vote_def)
qed

end
