(* ===== verification/Protections.thy ===== *)
theory Protections
  imports Transactions
begin

section \<open>Protection levels (\<^verbatim>\<open>services/protections.py\<close>)\<close>

text \<open>
  A protection has a level per source (the daily report, a manual grant, a pig, or \<open>legacy\<close>
  for the time before sources). Every roast success raises each source by one, counted from the
  source's baseline, up to five; the level in effect is the highest. A protection of the pseudo
  group \<open>__all__\<close> applies in every group until it is inherited there.
\<close>

definition GLOBAL_GROUP :: group_id where
  "GLOBAL_GROUP = ''__all__''"

definition protection_sources :: "group_protection \<Rightarrow> int dict" where
  "protection_sources row =
     (case gp_source_levels row of Some d \<Rightarrow> d | None \<Rightarrow> [(''legacy'', gp_base_level row)])"

definition source_baselines :: "group_protection \<Rightarrow> int dict" where
  "source_baselines row = (case gp_source_baselines row of Some d \<Rightarrow> d | None \<Rightarrow> [])"

definition raised_level :: "group_protection \<Rightarrow> string \<Rightarrow> int \<Rightarrow> int" where
  "raised_level row source level =
     min 5 (level + max 0 (gp_roast_success_count row - dict_get (source_baselines row) source 0))"

definition protection_levels :: "group_protection \<Rightarrow> int dict" where
  "protection_levels row =
     map (\<lambda>(source, level). (source, raised_level row source level)) (protection_sources row)"

definition protection_level :: "group_protection \<Rightarrow> int" where
  "protection_level row = max_default (map snd (protection_levels row))"

definition protection_source :: "group_protection \<Rightarrow> string" where
  "protection_source row =
     (let levels = protection_levels row;
          highest = max_default (map snd levels)
      in case List.find (\<lambda>s. map_of levels s = Some highest) [''daily'', ''manual'', ''pig'', ''legacy''] of
           Some s \<Rightarrow> s | None \<Rightarrow> ''legacy'')"

definition inherit_global_protection :: "group_protection \<Rightarrow> group_id \<Rightarrow> group_protection" where
  "inherit_global_protection row group_id =
     (let level = protection_level row
      in \<lparr>gp_protect_date = gp_protect_date row, gp_group_id = group_id, gp_user_id = gp_user_id row,
          gp_roast_success_count = 0, gp_source_levels = Some [(''legacy'', level)],
          gp_source_baselines = Some [(''legacy'', 0)], gp_base_level = level, gp_consecutive_days = 0\<rparr>)"

definition is_historical_daily_protection :: "group_protection \<Rightarrow> bool" where
  "is_historical_daily_protection row \<longleftrightarrow>
     map_of (protection_sources row) ''legacy'' \<noteq> None \<and>
     map_of (protection_sources row) ''daily'' = None \<and> 0 < gp_consecutive_days row"

text \<open>The queries and assignments of the callers.\<close>

definition get_protection :: "date \<Rightarrow> group_id \<Rightarrow> user_id \<Rightarrow> db \<Rightarrow> group_protection option" where
  "get_protection d g u db = one_or_none (\<lambda>r. protection_key r = (d, g, u)) (group_protections db)"

definition put_protection :: "group_protection \<Rightarrow> db \<Rightarrow> db" where
  "put_protection row db = db\<lparr>group_protections := put_row protection_key row (group_protections db)\<rparr>"

definition delete_protection :: "group_protection \<Rightarrow> db \<Rightarrow> db" where
  "delete_protection row db =
     db\<lparr>group_protections := filter (\<lambda>r. protection_key r \<noteq> protection_key row) (group_protections db)\<rparr>"

subsection \<open>Lookups\<close>

lemma get_protection_put [table_simps]:
  "get_protection d g u (put_protection row db) =
     (if (d, g, u) = protection_key row then Some row else get_protection d g u db)"
  by (simp add: get_protection_def put_protection_def one_or_none_put)

lemma one_or_none_filter_key:
  "one_or_none (\<lambda>r. key r = k) (filter (\<lambda>r. key r \<noteq> k') rs) =
     (if k = k' then None else one_or_none (\<lambda>r. key r = k) rs)"
  by (induction rs) auto

lemma get_protection_delete [table_simps]:
  "get_protection d g u (delete_protection row db) =
     (if (d, g, u) = protection_key row then None else get_protection d g u db)"
  by (simp add: get_protection_def delete_protection_def one_or_none_filter_key)

lemma get_protection_SomeD: "get_protection d g u db = Some r \<Longrightarrow> protection_key r = (d, g, u)"
  by (auto simp: get_protection_def dest: one_or_none_SomeD)

lemma protection_frame [frame_simps]:
  "roast_reservations (put_protection row db) = roast_reservations db"
  "roast_reservations (delete_protection row db) = roast_reservations db"
  "roast_reservation_participants (put_protection row db) = roast_reservation_participants db"
  "roast_reservation_participants (delete_protection row db) = roast_reservation_participants db"
  "daily_rolls (put_protection row db) = daily_rolls db"
  by (simp_all add: put_protection_def delete_protection_def)

subsection \<open>Levels\<close>

lemma map_of_protection_levels:
  "map_of (protection_levels row) s = map_option (raised_level row s) (map_of (protection_sources row) s)"
proof -
  have "map_of (map (\<lambda>(source, level). (source, raised_level row source level)) d) s =
      map_option (raised_level row s) (map_of d s)" for d
    by (induction d) auto
  then show ?thesis by (simp add: protection_levels_def)
qed

lemma raised_level_le: "raised_level row s l \<le> 5"
  by (simp add: raised_level_def)

lemma levels_le: "l \<in> set (map snd (protection_levels row)) \<Longrightarrow> l \<le> 5"
  by (auto simp: protection_levels_def raised_level_le)

lemma protection_level_le: "protection_level row \<le> 5"
  unfolding protection_level_def by (rule max_default_le) (use levels_le in auto)

lemma level_of_source:
  "map_of (protection_sources row) s = Some l \<Longrightarrow> raised_level row s l \<le> protection_level row"
  unfolding protection_level_def
  by (rule max_default_ge) (auto simp: protection_levels_def dest!: map_of_SomeD intro!: image_eqI)

lemma protection_level_attained:
  assumes "dict_wf (protection_sources row)" and "protection_sources row \<noteq> []"
  shows "\<exists>s l. map_of (protection_sources row) s = Some l \<and> raised_level row s l = protection_level row"
proof -
  have "map snd (protection_levels row) \<noteq> []" using assms(2) by (simp add: protection_levels_def)
  then have "protection_level row \<in> set (map snd (protection_levels row))"
    unfolding protection_level_def by (rule max_default_in)
  then obtain s l where "(s, l) \<in> set (protection_sources row)" "raised_level row s l = protection_level row"
    by (auto simp: protection_levels_def)
  then show ?thesis using dict_wf_map_of [OF assms(1)] by blast
qed

lemma protection_level_eqI:
  assumes "dict_wf (protection_sources row)"
    and "map_of (protection_sources row) s = Some l" and "raised_level row s l = m"
    and "\<And>t k. map_of (protection_sources row) t = Some k \<Longrightarrow> raised_level row t k \<le> m"
  shows "protection_level row = m"
proof -
  have "protection_sources row \<noteq> []" using assms(2) by auto
  from protection_level_attained [OF assms(1) this] assms(4) have "protection_level row \<le> m" by metis
  with level_of_source [OF assms(2)] assms(3) show ?thesis by simp
qed

lemma raised_level_step:
  "raised_level (row\<lparr>gp_roast_success_count := gp_roast_success_count row + 1\<rparr>) s l \<le> raised_level row s l + 1"
  "raised_level row s l \<le> raised_level (row\<lparr>gp_roast_success_count := gp_roast_success_count row + 1\<rparr>) s l"
  by (auto simp: raised_level_def source_baselines_def)

lemma protection_level_single:
  "gp_source_levels row = Some [(s, l)] \<Longrightarrow> protection_level row = raised_level row s l"
  by (simp add: protection_level_def protection_levels_def protection_sources_def)

lemma inherit_level: "protection_level (inherit_global_protection row g) = protection_level row"
proof -
  have "protection_level (inherit_global_protection row g) =
      raised_level (inherit_global_protection row g) ''legacy'' (protection_level row)"
    by (rule protection_level_single) (simp add: inherit_global_protection_def Let_def)
  then show ?thesis
    using protection_level_le [of row]
    by (simp add: raised_level_def source_baselines_def inherit_global_protection_def Let_def dict_get_def)
qed

lemma inherit_key [simp]:
  "protection_key (inherit_global_protection row g) = (gp_protect_date row, g, gp_user_id row)"
  by (simp add: protection_key_def inherit_global_protection_def Let_def)

subsection \<open>Properties\<close>

definition success_on :: "group_protection \<Rightarrow> group_protection" where
  "success_on row = row\<lparr>gp_roast_success_count := gp_roast_success_count row + 1\<rparr>"

text \<open>
  A roast success raises a protection by at most one level and never lowers it, and no number of
  successes raises it above five; a protection inherited from the global group starts at the level
  the global one has.
\<close>

theorem protection_level_rises:
  assumes "dict_wf (protection_sources row)" and "protection_sources row \<noteq> []"
  shows "protection_level row \<le> protection_level (success_on row) \<and>
     protection_level (success_on row) \<le> protection_level row + 1 \<and>
     protection_level ((success_on ^^ n) row) \<le> 5 \<and>
     protection_level (inherit_global_protection row g) = protection_level row"
proof -
  have src: "protection_sources (success_on row) = protection_sources row"
    by (simp add: success_on_def protection_sources_def split: option.split)
  obtain s l where sl: "map_of (protection_sources row) s = Some l" "raised_level row s l = protection_level row"
    using protection_level_attained [OF assms] by blast
  obtain t k where tk: "map_of (protection_sources row) t = Some k"
    "raised_level (success_on row) t k = protection_level (success_on row)"
    using protection_level_attained [of "success_on row"] assms src by auto
  have "protection_level row \<le> protection_level (success_on row)"
    using level_of_source [of "success_on row" s l] sl src raised_level_step(2) [of row s l]
    by (simp add: success_on_def)
  moreover have "protection_level (success_on row) \<le> protection_level row + 1"
    using level_of_source [OF tk(1)] tk(2) raised_level_step(1) [of row t k] by (simp add: success_on_def)
  ultimately show ?thesis using protection_level_le inherit_level by blast
qed

definition sample_protection :: group_protection where
  "sample_protection = \<lparr>gp_protect_date = 1, gp_group_id = ''g'', gp_user_id = ''u'',
     gp_roast_success_count = 1, gp_source_levels = Some [(''daily'', 2), (''manual'', 4)],
     gp_source_baselines = Some [(''manual'', 1)], gp_base_level = 4, gp_consecutive_days = 2\<rparr>"

theorem protection_level_rises_witness:
  "protection_level sample_protection \<le> protection_level (success_on sample_protection)"
  using protection_level_rises [of sample_protection]
  by (simp add: sample_protection_def protection_sources_def dict_wf_def)

text \<open>
  The source shown to the group is one that gives the level in effect: whenever a protection has
  only the four known sources, the level of the reported source is the protection's level.
\<close>

theorem protection_source_explains_level:
  assumes "dict_wf (protection_sources row)" and "protection_sources row \<noteq> []"
    and "fst ` set (protection_sources row) \<subseteq> {''daily'', ''manual'', ''pig'', ''legacy''}"
  shows "map_of (protection_levels row) (protection_source row) = Some (protection_level row)"
proof -
  obtain s l where sl: "map_of (protection_sources row) s = Some l" "raised_level row s l = protection_level row"
    using protection_level_attained [OF assms(1,2)] by blast
  then have lev: "map_of (protection_levels row) s = Some (protection_level row)"
    by (simp add: map_of_protection_levels)
  have "s \<in> {''daily'', ''manual'', ''pig'', ''legacy''}"
    using sl(1) assms(3) by (force dest: map_of_SomeD)
  with lev have "List.find (\<lambda>s. map_of (protection_levels row) s = Some (protection_level row))
      [''daily'', ''manual'', ''pig'', ''legacy''] \<noteq> None"
    by (auto simp: find_None_iff simp del: find.simps)
  then obtain t where t: "List.find (\<lambda>s. map_of (protection_levels row) s = Some (protection_level row))
      [''daily'', ''manual'', ''pig'', ''legacy''] = Some t" by blast
  then have "protection_source row = t"
    by (simp add: protection_source_def protection_level_def Let_def del: find.simps)
  moreover from t have "map_of (protection_levels row) t = Some (protection_level row)"
    unfolding find_Some_iff by blast
  ultimately show ?thesis by simp
qed

theorem protection_source_explains_level_witness:
  "map_of (protection_levels sample_protection) (protection_source sample_protection) =
   Some (protection_level sample_protection)"
  by (rule protection_source_explains_level) (simp_all add: sample_protection_def protection_sources_def dict_wf_def)

end
