(* ===== verification/Reservations.thy ===== *)
theory Reservations
  imports Protections Activity Usage
begin

section \<open>Roast reservations (\<^verbatim>\<open>services/reservations.py\<close> and the sync of \<^verbatim>\<open>services/protections.py\<close>)\<close>

text \<open>
  Users who cannot roast a target at once gather in a reservation for it. It becomes ready when the
  target has rolled its pig and, if the target is protected, the contributions reach the level the
  protection requires. A loaded row is passed by value and written back with
  \<open>set_reservation\<close>; \<open>now\<close> is the server's clock in microseconds, \<open>fresh\<close> the
  identifier drawn by \<open>uuid.uuid4().hex\<close>.
\<close>

definition ROAST_RESERVATION_MAX_PARTICIPANTS :: nat where
  "ROAST_RESERVATION_MAX_PARTICIPANTS = 12"

record prepare_request =
  rq_attacker_id :: user_id
  rq_attacker_name :: string
  rq_attacker_pig_id :: pig_id
  rq_target_id :: user_id
  rq_target_name :: string
  rq_group_id :: group_id
  rq_delivery_bot_id :: string
  rq_force_mode :: "string option"
  rq_date_str :: date
  rq_now_ts :: "rat option"
  rq_cooldown_seconds :: "int option"
  rq_max_charges :: "int option"
  rq_supports_protection_gathering :: bool
  rq_protection_gathering_version :: int

datatype prepare_status =
    Protected
  | ReservationClosed
  | ReservationBusy
  | AlreadyJoined
  | ReservationJoined
  | ReservationUpgraded
  | ReservationFull
  | ForceDenied
  | CooldownDenied
  | TargetReady
  | ReservationCreated
  | MessageNotFound
  | SelfTarget
  | AttackerUnrolled

text \<open>A reservation as the API shows it, with its participants in the order they joined.\<close>

record reservation_item =
  ri_reservation :: roast_reservation
  ri_participants :: "roast_reservation_participant list"

record prepare_response =
  pa_status :: prepare_status
  pa_reservation :: "reservation_item option"
  pa_cooldown :: "consume_roast_response option"
  pa_target_pig_id :: pig_id
  pa_protection_broken :: bool

subsection \<open>Rows\<close>

definition get_reservation :: "string \<Rightarrow> db \<Rightarrow> roast_reservation option" where
  "get_reservation i db = one_or_none (\<lambda>r. rr_reservation_id r = i) (roast_reservations db)"

definition set_reservation :: "roast_reservation \<Rightarrow> db \<Rightarrow> db" where
  "set_reservation row db =
     db\<lparr>roast_reservations :=
          upd_rows (\<lambda>r. rr_reservation_id r = rr_reservation_id row) (\<lambda>_. row) (roast_reservations db)\<rparr>"

definition insert_reservation :: "roast_reservation \<Rightarrow> db \<Rightarrow> error + db" where
  "insert_reservation row db =
     (if get_reservation (rr_reservation_id row) db \<noteq> None \<or>
         \<not> no_conflict active_target_key row (roast_reservations db)
      then Inl IntegrityError
      else Inr (db\<lparr>roast_reservations := roast_reservations db @ [row]\<rparr>))"

text \<open>\<open>_locked_participants\<close>.\<close>

definition locked_participants :: "string \<Rightarrow> db \<Rightarrow> roast_reservation_participant list" where
  "locked_participants i db =
     filter (\<lambda>p. rp_reservation_id p = i) (roast_reservation_participants db)"

definition add_participant :: "roast_reservation_participant \<Rightarrow> db \<Rightarrow> db" where
  "add_participant p db =
     db\<lparr>roast_reservation_participants := roast_reservation_participants db @ [p]\<rparr>"

definition set_contribution :: "string \<Rightarrow> user_id \<Rightarrow> int \<Rightarrow> db \<Rightarrow> db" where
  "set_contribution i u c db =
     db\<lparr>roast_reservation_participants :=
          upd_rows (\<lambda>p. participant_key p = (i, u)) (\<lambda>p. p\<lparr>rp_contribution := c\<rparr>)
            (roast_reservation_participants db)\<rparr>"

definition gathered :: "string \<Rightarrow> db \<Rightarrow> int" where
  "gathered i db = sum_list (map rp_contribution (locked_participants i db))"

definition reservation_to_schema :: "roast_reservation \<Rightarrow> db \<Rightarrow> reservation_item" where
  "reservation_to_schema row db =
     \<lparr>ri_reservation = row\<lparr>
        rr_daily_feed_results := Some (case rr_daily_feed_results row of None \<Rightarrow> [] | Some xs \<Rightarrow> xs),
        rr_claim_token := Some (str_or (rr_claim_token row) []),
        rr_force_feed_user_ids := Some (case rr_force_feed_user_ids row of None \<Rightarrow> [] | Some xs \<Rightarrow> xs)\<rparr>,
      ri_participants = locked_participants (rr_reservation_id row) db\<rparr>"

subsection \<open>Delivery capability\<close>

definition gathers :: "prepare_request \<Rightarrow> bool" where
  "gathers req \<longleftrightarrow> rq_supports_protection_gathering req \<and> 2 \<le> rq_protection_gathering_version req"

definition can_reassign_protected_delivery :: "roast_reservation \<Rightarrow> prepare_request \<Rightarrow> bool" where
  "can_reassign_protected_delivery reservation req \<longleftrightarrow>
     rr_protection_required reservation \<noteq> 0 \<and>
     rr_force_mode reservation \<noteq> Some ''super'' \<and>
     rr_delivery_gathering_version reservation < 2 \<and>
     rr_status reservation \<in> {Pending, Ready} \<and>
     rr_outcome_snapshot reservation = None \<and>
     str_or (rr_claim_token reservation) [] = [] \<and>
     gathers req \<and> rq_delivery_bot_id req \<noteq> []"

definition update_delivery_capability :: "roast_reservation \<Rightarrow> prepare_request \<Rightarrow> roast_reservation" where
  "update_delivery_capability reservation req =
     (if \<not> gathers req then reservation
      else
        let r = (if can_reassign_protected_delivery reservation req
                 then reservation\<lparr>rr_delivery_bot_id := rq_delivery_bot_id req\<rparr> else reservation)
        in if rr_delivery_bot_id r = rq_delivery_bot_id req
           then r\<lparr>rr_delivery_gathering_version := 2\<rparr> else r)"

subsection \<open>Activation\<close>

definition pending_notice :: waiting_notice where
  "pending_notice = \<lparr>wn_status = NPending, wn_claim_token = None, wn_claimed_at = None\<rparr>"

text \<open>\<open>_activate_reservation\<close>: the row it leaves and its answer; \<open>contributions\<close> is the sum of the contributions.\<close>

definition activate_reservation ::
  "datetime \<Rightarrow> int \<Rightarrow> pig_id \<Rightarrow> bool \<Rightarrow> roast_reservation \<Rightarrow> roast_reservation \<times> bool" where
  "activate_reservation now contributions target_pig_id notify_waiting reservation =
     (let first_arrival = (rr_target_pig_id reservation = []);
          r = reservation\<lparr>rr_target_pig_id := target_pig_id\<rparr>
      in if rr_protection_required r \<noteq> 0 \<and> rr_force_mode r \<noteq> Some ''super'' \<and> contributions < rr_protection_required r then
           (if first_arrival \<and> notify_waiting then r\<lparr>rr_waiting_notice := Some pending_notice\<rparr> else r, False)
         else (r\<lparr>rr_waiting_notice := None, rr_status := Ready, rr_ready_at := Some now\<rparr>, True))"

definition activate_in ::
  "datetime \<Rightarrow> pig_id \<Rightarrow> bool \<Rightarrow> roast_reservation \<Rightarrow> db \<Rightarrow> roast_reservation" where
  "activate_in now target_pig_id notify_waiting reservation db =
     fst (activate_reservation now (gathered (rr_reservation_id reservation) db) target_pig_id notify_waiting reservation)"

text \<open>\<open>activate_target_reservations\<close>: every pending reservation of the target, in order.\<close>

definition rolled_today :: "date \<Rightarrow> user_id \<Rightarrow> db \<Rightarrow> daily_roll option" where
  "rolled_today d u db =
     (case get_daily_roll d u db of
        None \<Rightarrow> None
      | Some roll \<Rightarrow> if is_makeup roll then None else Some roll)"

definition pending_of_target :: "date \<Rightarrow> user_id \<Rightarrow> roast_reservation \<Rightarrow> bool" where
  "pending_of_target d u r \<longleftrightarrow> rr_date_str r = d \<and> rr_target_id r = u \<and> rr_status r = Pending"

definition activate_one ::
  "datetime \<Rightarrow> pig_id \<Rightarrow> string \<Rightarrow> db \<Rightarrow> roast_reservation \<Rightarrow> roast_reservation" where
  "activate_one now target_pig_id notice_handled_id db r =
     (let handled = (rr_reservation_id r = notice_handled_id);
          r' = activate_in now target_pig_id (\<not> handled) r db
      in if handled then r'\<lparr>rr_waiting_notice := None\<rparr> else r')"

definition activate_all ::
  "datetime \<Rightarrow> date \<Rightarrow> user_id \<Rightarrow> pig_id \<Rightarrow> string \<Rightarrow> db \<Rightarrow> db \<times> nat" where
  "activate_all now date_str target_id target_pig_id notice_handled_id db =
     (db\<lparr>roast_reservations :=
           upd_rows (pending_of_target date_str target_id)
             (activate_one now target_pig_id notice_handled_id db) (roast_reservations db)\<rparr>,
      length (filter (\<lambda>r. pending_of_target date_str target_id r \<and>
          rr_status (activate_one now target_pig_id notice_handled_id db r) = Ready) (roast_reservations db)))"

definition activate_target_reservations ::
  "datetime \<Rightarrow> date \<Rightarrow> user_id \<Rightarrow> pig_id \<Rightarrow> string \<Rightarrow> db \<Rightarrow> db \<times> nat" where
  "activate_target_reservations now date_str target_id target_pig_id notice_handled_id db =
     (case get_daily_roll date_str target_id db of
        Some roll \<Rightarrow>
          if is_makeup roll then (db, 0)
          else activate_all now date_str target_id target_pig_id notice_handled_id db
      | None \<Rightarrow> activate_all now date_str target_id target_pig_id notice_handled_id db)"

definition activate_if_target_already_rolled ::
  "datetime \<Rightarrow> date \<Rightarrow> user_id \<Rightarrow> string \<Rightarrow> db \<Rightarrow> db \<times> nat" where
  "activate_if_target_already_rolled now date_str target_id notice_handled_id db =
     (case rolled_today date_str target_id db of
        None \<Rightarrow> (db, 0)
      | Some roll \<Rightarrow>
          activate_target_reservations now date_str target_id (dr_pig_id roll) notice_handled_id db)"

subsection \<open>Keeping waiting reservations in step with the protection\<close>

definition sync_one ::
  "datetime \<Rightarrow> group_protection \<Rightarrow> bool \<Rightarrow> roast_reservation \<Rightarrow> db \<Rightarrow> db" where
  "sync_one now row removed reservation db =
     (if rr_force_mode reservation = Some ''super'' then db
      else
        let db1 = (if \<not> removed \<and> rr_protection_required reservation = 0 \<and>
                      rr_force_mode reservation = Some ''normal''
                   then set_contribution (rr_reservation_id reservation) (rr_owner_id reservation) 2 db
                   else db);
            r1 = reservation\<lparr>
              rr_protection_required := (if removed then 0 else 1 + protection_level row),
              rr_protection_source := (if removed then ''legacy'' else protection_source row)\<rparr>
        in if rr_target_pig_id r1 = [] then set_reservation r1 db1
           else
             let r2 = activate_in now (rr_target_pig_id r1) True r1 db1;
                 r3 = (if rr_status r2 = Pending \<and>
                          rr_protection_required reservation \<noteq> rr_protection_required r1
                       then r2\<lparr>rr_waiting_notice := Some pending_notice\<rparr> else r2)
             in set_reservation r3 db1)"

definition sync_pending_protection ::
  "datetime \<Rightarrow> group_protection \<Rightarrow> bool \<Rightarrow> group_id option \<Rightarrow> db \<Rightarrow> db" where
  "sync_pending_protection now row removed group_id db =
     fold (sync_one now row removed)
       (filter (\<lambda>r. rr_date_str r = gp_protect_date row \<and>
                    rr_group_id r = str_or group_id (gp_group_id row) \<and>
                    rr_target_id r = gp_user_id row \<and> rr_status r = Pending)
         (roast_reservations db)) db"

subsection \<open>\<open>prepare_reservation\<close>\<close>

definition answer :: "prepare_status \<Rightarrow> prepare_response" where
  "answer status = \<lparr>pa_status = status, pa_reservation = None, pa_cooldown = None,
     pa_target_pig_id = [], pa_protection_broken = False\<rparr>"

definition answer_item :: "prepare_status \<Rightarrow> roast_reservation \<Rightarrow> db \<Rightarrow> prepare_response" where
  "answer_item status row db =
     (answer status)\<lparr>pa_reservation := Some (reservation_to_schema row db)\<rparr>"

text \<open>The protection in force; a global one is first inherited into the group of a new client.\<close>

definition effective_protection :: "prepare_request \<Rightarrow> db \<Rightarrow> group_protection option \<times> db" where
  "effective_protection req db =
     (case get_protection (rq_date_str req) (rq_group_id req) (rq_target_id req) db of
        Some p \<Rightarrow> (Some p, db)
      | None \<Rightarrow>
          (case get_protection (rq_date_str req) GLOBAL_GROUP (rq_target_id req) db of
             None \<Rightarrow> (None, db)
           | Some legacy \<Rightarrow>
               if rq_supports_protection_gathering req then
                 let p = inherit_global_protection legacy (rq_group_id req) in (Some p, put_protection p db)
               else (Some legacy, db)))"

text \<open>The active reservation the request may join.\<close>

definition joinable :: "prepare_request \<Rightarrow> roast_reservation \<Rightarrow> bool" where
  "joinable req r \<longleftrightarrow>
     rr_date_str r = rq_date_str req \<and> rr_group_id r = rq_group_id req \<and>
     rr_target_id r = rq_target_id req \<and> rr_active_slot r = Some 1 \<and>
     (rr_status r = Pending \<or> 0 < rr_protection_required r \<or> rq_force_mode req = Some ''super'')"

definition find_reservation :: "prepare_request \<Rightarrow> db \<Rightarrow> roast_reservation option" where
  "find_reservation req db = one_or_none (joinable req) (roast_reservations db)"

text \<open>The pig of a target that has arrived, by the reservation or by the roll; empty if neither.\<close>

definition arrived_pig :: "roast_reservation \<Rightarrow> daily_roll option \<Rightarrow> pig_id" where
  "arrived_pig r target_roll =
     (if rr_target_pig_id r \<noteq> [] then rr_target_pig_id r
      else case target_roll of Some roll \<Rightarrow> dr_pig_id roll | None \<Rightarrow> [])"

text \<open>
  Taking over a reservation with a super force: first the members entitled to a feed are noted, then
  the mode, the operator and the delivering bot change.
\<close>

definition taken_over ::
  "prepare_request \<Rightarrow> roast_reservation_participant list \<Rightarrow> roast_reservation \<Rightarrow> roast_reservation" where
  "taken_over req members reservation =
     reservation\<lparr>
       rr_force_feed_user_ids := Some (map rp_user_id (filter (\<lambda>p.
           rp_user_id p \<noteq> rq_attacker_id req \<and>
           (rr_force_mode reservation = None \<or> rr_protection_required reservation \<noteq> 0) \<and>
           (rr_protection_required reservation = 0 \<or> rp_contribution p = 1)) members)),
       rr_force_operator_id := rq_attacker_id req,
       rr_force_operator_name := rq_attacker_name req,
       rr_force_mode := Some ''super'',
       rr_delivery_bot_id := rq_delivery_bot_id req,
       rr_delivery_gathering_version := 2\<rparr>"

definition activate_if_arrived ::
  "datetime \<Rightarrow> bool \<Rightarrow> daily_roll option \<Rightarrow> roast_reservation \<Rightarrow> db \<Rightarrow> roast_reservation" where
  "activate_if_arrived now notify_waiting target_roll r db =
     (if arrived_pig r target_roll \<noteq> []
      then activate_in now (arrived_pig r target_roll) notify_waiting r db else r)"

definition take_over ::
  "prepare_request \<Rightarrow> datetime \<Rightarrow> daily_roll option \<Rightarrow> roast_reservation \<Rightarrow> db \<Rightarrow> db \<times> prepare_response" where
  "take_over req now target_roll reservation db =
     (let r = taken_over req (locked_participants (rr_reservation_id reservation) db) reservation;
          db1 = mark_group_active_users now (rq_date_str req) (rq_group_id req) [rq_attacker_id req] db;
          r' = activate_if_arrived now True target_roll r db1;
          db2 = set_reservation r' db1
      in (db2, answer_item ReservationJoined r' db2))"

text \<open>Joining a pending reservation as a participant, or upgrading one's contribution.\<close>

definition join_members ::
  "prepare_request \<Rightarrow> datetime \<Rightarrow> daily_roll option \<Rightarrow> roast_reservation \<Rightarrow> db \<Rightarrow> db \<times> prepare_response" where
  "join_members req now target_roll reservation db =
     (let i = rr_reservation_id reservation;
          members = locked_participants i db;
          participant = one_or_none (\<lambda>p. rp_user_id p = rq_attacker_id req) members;
          boosted = (rr_protection_required reservation \<noteq> 0 \<and> rq_force_mode req = Some ''normal'');
          upgradable = (case participant of Some p \<Rightarrow> boosted \<and> rp_contribution p < 2 | None \<Rightarrow> False)
      in if participant \<noteq> None \<and> \<not> upgradable then
           let r = (update_delivery_capability reservation req)\<lparr>rr_waiting_notice := None\<rparr>;
               db' = set_reservation r db
           in (db', answer_item AlreadyJoined r db')
         else if participant = None \<and> ROAST_RESERVATION_MAX_PARTICIPANTS \<le> length members then
           (db, answer_item ReservationFull reservation db)
         else
           let (db1, granted) = (if boosted then consume_force_usage (rq_attacker_id req) (rq_date_str req) db
                                 else (db, True))
           in if \<not> granted then (db1, answer ForceDenied)
              else
                let db2 = (if participant = None then
                             add_participant \<lparr>rp_reservation_id = i, rp_user_id = rq_attacker_id req,
                               rp_display_name = rq_attacker_name req, rp_pig_id = rq_attacker_pig_id req,
                               rp_contribution = (if boosted then 2 else 1)\<rparr> db1
                           else set_contribution i (rq_attacker_id req) 2 db1);
                    r = (update_delivery_capability reservation req)\<lparr>rr_waiting_notice := None\<rparr>;
                    db3 = mark_group_active_users now (rq_date_str req) (rq_group_id req) [rq_attacker_id req] db2;
                    r' = activate_if_arrived now False target_roll r db3;
                    db4 = set_reservation r' db3
                in (db4, answer_item (if participant \<noteq> None then ReservationUpgraded else ReservationJoined) r' db4))"

text \<open>The branch \<open>if reservation:\<close>.\<close>

definition join_existing ::
  "prepare_request \<Rightarrow> datetime \<Rightarrow> daily_roll option \<Rightarrow> roast_reservation \<Rightarrow> db \<Rightarrow> db \<times> prepare_response" where
  "join_existing req now target_roll reservation db =
     (if rr_status reservation \<noteq> Pending then
        let r = (if can_reassign_protected_delivery reservation req
                 then update_delivery_capability reservation req else reservation);
            db' = set_reservation r db
        in (db', answer_item ReservationBusy r db')
      else if rr_force_mode reservation = Some ''super'' then
        (db, answer_item
           (if (if rr_force_operator_id reservation \<noteq> [] then rr_force_operator_id reservation
                else rr_owner_id reservation) = rq_attacker_id req
            then AlreadyJoined else ReservationClosed) reservation db)
      else if rq_force_mode req = Some ''super'' then
        (if \<not> gathers req then (db, answer_item ReservationClosed reservation db)
         else take_over req now target_roll reservation db)
      else join_members req now target_roll reservation db)"

text \<open>The creation of a reservation, after the charge has been consumed.\<close>

definition new_reservation ::
  "prepare_request \<Rightarrow> string \<Rightarrow> group_protection option \<Rightarrow> roast_reservation" where
  "new_reservation req fresh protection =
     \<lparr>rr_reservation_id = fresh, rr_date_str = rq_date_str req, rr_group_id = rq_group_id req,
      rr_target_id = rq_target_id req, rr_target_name = rq_target_name req, rr_target_pig_id = [],
      rr_owner_id = rq_attacker_id req, rr_owner_name = rq_attacker_name req,
      rr_owner_pig_id = rq_attacker_pig_id req, rr_delivery_bot_id = rq_delivery_bot_id req,
      rr_force_mode = rq_force_mode req, rr_status = Pending, rr_active_slot = Some 1,
      rr_protection_required =
        (case protection of
           Some p \<Rightarrow> if rq_supports_protection_gathering req then 1 + protection_level p else 0
         | None \<Rightarrow> 0),
      rr_protection_source = (case protection of Some p \<Rightarrow> protection_source p | None \<Rightarrow> ''legacy''),
      rr_waiting_notice = None,
      rr_delivery_gathering_version = (if gathers req then 2 else 0),
      rr_force_operator_id = [], rr_force_operator_name = [], rr_force_feed_user_ids = None,
      rr_outcome_snapshot = None, rr_daily_feed_results = None, rr_claim_token = None,
      rr_ready_at = None, rr_claimed_at = None, rr_completed_at = None\<rparr>"

definition owner_participant ::
  "prepare_request \<Rightarrow> string \<Rightarrow> group_protection option \<Rightarrow> roast_reservation_participant" where
  "owner_participant req fresh protection =
     \<lparr>rp_reservation_id = fresh, rp_user_id = rq_attacker_id req,
      rp_display_name = rq_attacker_name req, rp_pig_id = rq_attacker_pig_id req,
      rp_contribution = (if protection \<noteq> None \<and> rq_force_mode req = Some ''normal'' then 2 else 1)\<rparr>"

definition create_reservation ::
  "prepare_request \<Rightarrow> datetime \<Rightarrow> string \<Rightarrow> group_protection option \<Rightarrow> daily_roll option \<Rightarrow>
   consume_roast_response option \<Rightarrow> db \<Rightarrow> error + db \<times> prepare_response" where
  "create_reservation req now fresh protection target_roll cooldown db =
     (let r = new_reservation req fresh protection
      in case insert_reservation r db of
           Inl e \<Rightarrow> Inl e
         | Inr db1 \<Rightarrow>
             let db2 = add_participant (owner_participant req fresh protection) db1;
                 db3 = mark_group_active_users now (rq_date_str req) (rq_group_id req) [rq_attacker_id req] db2;
                 r' = (case target_roll of
                         Some roll \<Rightarrow> activate_in now (dr_pig_id roll) False r db3 | None \<Rightarrow> r);
                 db4 = set_reservation r' db3
             in Inr (db4, (answer_item ReservationCreated r' db4)\<lparr>pa_cooldown := cooldown,
                            pa_protection_broken :=
                              (protection \<noteq> None \<and> rq_force_mode req = Some ''super'')\<rparr>))"

text \<open>Nobody gathers for the target yet: it may be roasted at once, or a seat is paid for and opened.\<close>

definition open_gathering ::
  "prepare_request \<Rightarrow> datetime \<Rightarrow> string \<Rightarrow> group_protection option \<Rightarrow> daily_roll option \<Rightarrow> db \<Rightarrow> error + db \<times> prepare_response" where
  "open_gathering req now fresh protection target_roll db =
     (let protection_broken = (protection \<noteq> None \<and> rq_force_mode req = Some ''super'')
     in if target_roll \<noteq> None \<and>
           (protection = None \<or> rq_force_mode req = Some ''super'' \<and> \<not> rq_supports_protection_gathering req) then
          Inr (db, (answer TargetReady)\<lparr>
                 pa_target_pig_id := (case target_roll of Some roll \<Rightarrow> dr_pig_id roll | None \<Rightarrow> []),
                 pa_protection_broken := protection_broken\<rparr>)
        else if rq_force_mode req = Some ''normal'' then
          (let (db2, granted) = consume_force_usage (rq_attacker_id req) (rq_date_str req) db
           in if granted then create_reservation req now fresh protection target_roll None db2
              else Inr (db2, answer ForceDenied))
        else if rq_force_mode req \<noteq> Some ''super'' then
          (let (db2, cooldown) = consume_roast_usage (rq_attacker_id req) (rq_now_ts req)
                 (rq_cooldown_seconds req) (rq_max_charges req) (of_int now / 1000000) db
           in if cr_allowed cooldown then create_reservation req now fresh protection target_roll (Some cooldown) db2
              else Inr (db2, (answer CooldownDenied)\<lparr>pa_cooldown := Some cooldown\<rparr>))
        else create_reservation req now fresh protection target_roll None db)"

definition prepare_reservation ::
  "prepare_request \<Rightarrow> string option \<Rightarrow> datetime \<Rightarrow> string \<Rightarrow> db \<Rightarrow> error + db \<times> prepare_response" where
  "prepare_reservation req expected_reservation_id now fresh db =
     (let (protection, db1) = effective_protection req db
      in if protection \<noteq> None \<and> \<not> gathers req \<and> rq_force_mode req \<noteq> Some ''super'' then
           Inr (db1, answer Protected)
         else
           let target_roll = rolled_today (rq_date_str req) (rq_target_id req) db1;
               reservation = find_reservation req db1
           in if (case expected_reservation_id of
                    None \<Rightarrow> False
                  | Some expected \<Rightarrow>
                      (case reservation of
                         None \<Rightarrow> True
                       | Some r \<Rightarrow> rr_reservation_id r \<noteq> expected \<or>
                           target_roll \<noteq> None \<and> rr_protection_required r = 0 \<or>
                           rr_status r \<noteq> Pending)) then
                Inr (db1, answer ReservationClosed)
              else (case reservation of
                Some r \<Rightarrow> Inr (join_existing req now target_roll r db1)
              | None \<Rightarrow> open_gathering req now fresh protection target_roll db1))"

subsection \<open>The invariant of the tables\<close>

text \<open>What holds of a single reservation.\<close>

definition reservation_ok :: "roast_reservation \<Rightarrow> bool" where
  "reservation_ok r \<longleftrightarrow>
     rr_active_slot r = (if rr_status r = Completed then None else Some 1) \<and>
     (rr_status r \<in> {Prepared, Sending, Completed} \<longrightarrow> rr_outcome_snapshot r \<noteq> None) \<and>
     (rr_status r \<in> {Pending, Processing} \<longrightarrow> rr_outcome_snapshot r = None) \<and>
     (rr_status r \<in> {Processing, Prepared, Sending, Completed} \<longrightarrow> rr_claim_token r \<noteq> None) \<and>
     rr_protection_required r \<le> 6"

text \<open>A reservation that has left the waiting state has gathered what its protection requires.\<close>

definition ripe :: "db \<Rightarrow> roast_reservation \<Rightarrow> bool" where
  "ripe db r \<longleftrightarrow> rr_status r = Pending \<or> rr_force_mode r = Some ''super'' \<or>
     rr_protection_required r = 0 \<or> rr_protection_required r \<le> gathered (rr_reservation_id r) db"

definition one_active :: "roast_reservation list \<Rightarrow> bool" where
  "one_active rs \<longleftrightarrow>
     (\<forall>x\<in>set rs. \<forall>y\<in>set rs. active_target_key x \<noteq> None \<longrightarrow> active_target_key x = active_target_key y \<longrightarrow> x = y)"

definition participants_wf :: "db \<Rightarrow> bool" where
  "participants_wf db \<longleftrightarrow>
     unique_on participant_key (roast_reservation_participants db) \<and>
     (\<forall>p\<in>set (roast_reservation_participants db).
        rp_contribution p \<in> {1, 2} \<and> get_reservation (rp_reservation_id p) db \<noteq> None) \<and>
     (\<forall>i. length (locked_participants i db) \<le> ROAST_RESERVATION_MAX_PARTICIPANTS)"

definition reservations_wf :: "db \<Rightarrow> bool" where
  "reservations_wf db \<longleftrightarrow>
     unique_on rr_reservation_id (roast_reservations db) \<and> one_active (roast_reservations db) \<and>
     (\<forall>r\<in>set (roast_reservations db). reservation_ok r \<and> ripe db r) \<and> participants_wf db"

text \<open>
  What never changes about a reservation: its scope and owner; once it has left the waiting state its
  target's pig, mode and required level; once stored, the outcome and the feeds settled with it; and
  once the message is being sent there is no way back.
\<close>

definition irrevocable :: "roast_reservation \<Rightarrow> bool" where
  "irrevocable r \<longleftrightarrow> rr_status r \<in> {Sending, Completed}"

definition reservation_evolves :: "roast_reservation \<Rightarrow> roast_reservation \<Rightarrow> bool" where
  "reservation_evolves r r' \<longleftrightarrow>
     rr_reservation_id r' = rr_reservation_id r \<and> rr_date_str r' = rr_date_str r \<and>
     rr_group_id r' = rr_group_id r \<and> rr_target_id r' = rr_target_id r \<and>
     rr_owner_id r' = rr_owner_id r \<and>
     (rr_status r \<noteq> Pending \<longrightarrow> rr_status r' \<noteq> Pending \<and> rr_target_pig_id r' = rr_target_pig_id r \<and>
        rr_force_mode r' = rr_force_mode r \<and> rr_protection_required r' = rr_protection_required r) \<and>
     (rr_outcome_snapshot r \<noteq> None \<longrightarrow> rr_outcome_snapshot r' = rr_outcome_snapshot r \<and>
        rr_daily_feed_results r' = rr_daily_feed_results r) \<and>
     (irrevocable r \<longrightarrow> irrevocable r' \<and> rr_claim_token r' = rr_claim_token r) \<and>
     (rr_status r = Completed \<longrightarrow> r' = r)"

lemma reservation_evolves_refl [simp]: "reservation_evolves r r"
  by (simp add: reservation_evolves_def)

lemma reservation_evolves_trans:
  "reservation_evolves r s \<Longrightarrow> reservation_evolves s t \<Longrightarrow> reservation_evolves r t"
  unfolding reservation_evolves_def by (elim conjE) (intro conjI impI; simp)

definition reservation_effect :: "db \<Rightarrow> db \<Rightarrow> bool" where
  "reservation_effect db db' \<longleftrightarrow> reservations_wf db' \<and>
     (\<forall>r\<in>set (roast_reservations db). \<exists>r'\<in>set (roast_reservations db'). reservation_evolves r r') \<and>
     (\<forall>i. gathered i db \<le> gathered i db')"

lemma reservation_effectD: "reservation_effect db db' \<Longrightarrow> reservations_wf db'"
  by (simp add: reservation_effect_def)

lemma reservation_effect_trans:
  "reservation_effect db db1 \<Longrightarrow> reservation_effect db1 db2 \<Longrightarrow> reservation_effect db db2"
  unfolding reservation_effect_def by (meson reservation_evolves_trans order_trans)

text \<open>Transactions that write neither of the two tables.\<close>

lemma reservations_wf_cong:
  assumes "roast_reservations db' = roast_reservations db"
    and "roast_reservation_participants db' = roast_reservation_participants db"
  shows "reservations_wf db' = reservations_wf db" and "gathered i db' = gathered i db"
    and "locked_participants i db' = locked_participants i db"
    and "get_reservation i db' = get_reservation i db"
  unfolding reservations_wf_def participants_wf_def ripe_def gathered_def locked_participants_def
    get_reservation_def by (simp_all only: assms)

lemma reservation_effect_frame:
  assumes "reservations_wf db" and "roast_reservations db' = roast_reservations db"
    and "roast_reservation_participants db' = roast_reservation_participants db"
  shows "reservation_effect db db'"
  unfolding reservation_effect_def
  using assms(1) reservations_wf_cong [OF assms(2,3)]
  by (auto simp: assms(2) intro: bexI [where P = "reservation_evolves _"] reservation_evolves_refl)

lemma get_reservation_SomeD:
  "get_reservation i db = Some r \<Longrightarrow> r \<in> set (roast_reservations db) \<and> rr_reservation_id r = i"
  by (auto simp: get_reservation_def dest: one_or_none_SomeD)

lemma get_reservation_member:
  "reservations_wf db \<Longrightarrow> r \<in> set (roast_reservations db) \<Longrightarrow> get_reservation (rr_reservation_id r) db = Some r"
  by (simp add: get_reservation_def reservations_wf_def one_or_none_key)

lemma get_reservation_None_iff:
  "get_reservation i db = None \<longleftrightarrow> i \<notin> rr_reservation_id ` set (roast_reservations db)"
  by (auto simp: get_reservation_def one_or_none_None_iff)

lemma gathered_frame [simp]:
  "gathered i (set_reservation row db) = gathered i db"
  "locked_participants i (set_reservation row db) = locked_participants i db"
  "roast_reservation_participants (set_reservation row db) = roast_reservation_participants db"
  by (simp_all add: gathered_def locked_participants_def set_reservation_def)

lemma set_reservation_ids:
  "get_reservation i (set_reservation row db) = None \<longleftrightarrow> get_reservation i db = None"
proof -
  have "map rr_reservation_id (upd_rows (\<lambda>r. rr_reservation_id r = rr_reservation_id row) (\<lambda>_. row) rs) =
      map rr_reservation_id rs" for rs
    by (rule map_key_upd_rows) simp
  then have "rr_reservation_id ` set (roast_reservations (set_reservation row db)) =
      rr_reservation_id ` set (roast_reservations db)"
    by (simp add: set_reservation_def flip: set_map)
  then show ?thesis by (simp add: get_reservation_None_iff)
qed

lemma participants_wf_set [simp]: "participants_wf (set_reservation row db) = participants_wf db"
  by (simp add: participants_wf_def set_reservation_ids)

subsection \<open>The lemmas behind every write\<close>

text \<open>Rewriting rows: each one evolves, keeps its own invariant and stays ripe.\<close>

lemma evolves_key:
  assumes "reservation_evolves r r'" and "reservation_ok r" and "reservation_ok r'"
    and "active_target_key r' \<noteq> None"
  shows "active_target_key r' = active_target_key r"
proof -
  have "rr_active_slot r' \<noteq> None" using assms(4) by (simp add: active_target_key_def split: option.splits)
  with assms(3) have "rr_status r' \<noteq> Completed" and slot: "rr_active_slot r' = Some 1"
    by (simp_all add: reservation_ok_def split: if_splits)
  with assms(1) have "rr_status r \<noteq> Completed" by (auto simp: reservation_evolves_def)
  with assms(2) have "rr_active_slot r = Some 1" by (simp add: reservation_ok_def)
  with slot assms(1) show ?thesis by (simp add: active_target_key_def reservation_evolves_def)
qed

lemma map_reservations_effect:
  assumes wf: "reservations_wf db" and db': "db' = db\<lparr>roast_reservations := map f (roast_reservations db)\<rparr>"
    and f: "\<And>r. r \<in> set (roast_reservations db) \<Longrightarrow>
      reservation_evolves r (f r) \<and> reservation_ok (f r) \<and> ripe db (f r)"
  shows "reservation_effect db db'"
proof -
  let ?rs = "roast_reservations db"
  have rows: "roast_reservations db' = map f ?rs" by (simp add: db')
  have parts: "gathered i db' = gathered i db" "locked_participants i db' = locked_participants i db"
    "roast_reservation_participants db' = roast_reservation_participants db" for i
    by (simp_all add: db' gathered_def locked_participants_def)
  have id: "rr_reservation_id (f r) = rr_reservation_id r" if "r \<in> set ?rs" for r
    using f [OF that] by (simp add: reservation_evolves_def)
  then have ids: "map rr_reservation_id (map f ?rs) = map rr_reservation_id ?rs" by simp
  have ok: "reservation_ok r" if "r \<in> set ?rs" for r using wf that by (simp add: reservations_wf_def)
  have key: "active_target_key (f r) \<noteq> None \<Longrightarrow> active_target_key (f r) = active_target_key r"
    if "r \<in> set ?rs" for r
    using evolves_key [of r "f r"] f [OF that] ok [OF that] by blast
  have "one_active (map f ?rs)"
    unfolding one_active_def
  proof (intro ballI impI)
    fix x y
    assume "x \<in> set (map f ?rs)" "y \<in> set (map f ?rs)" and xy: "active_target_key x \<noteq> None"
      "active_target_key x = active_target_key y"
    then obtain a b where ab: "x = f a" "y = f b" "a \<in> set ?rs" "b \<in> set ?rs" by auto
    with xy key [of a] key [of b] have "active_target_key a \<noteq> None" "active_target_key a = active_target_key b"
      by metis+
    with ab wf show "x = y" unfolding reservations_wf_def one_active_def by metis
  qed
  moreover have "unique_on rr_reservation_id (map f ?rs)"
    using wf unfolding reservations_wf_def unique_on_def ids by blast
  moreover have "ripe db' r = ripe db r" for r by (simp add: ripe_def parts)
  then have "\<forall>r\<in>set (map f ?rs). reservation_ok r \<and> ripe db' r" using f by auto
  moreover have "get_reservation i db' = None \<longleftrightarrow> get_reservation i db = None" for i
    using ids unfolding get_reservation_None_iff rows by (metis set_map)
  then have "participants_wf db'"
    using wf unfolding participants_wf_def reservations_wf_def parts by blast
  ultimately have "reservations_wf db'" unfolding reservations_wf_def rows by blast
  moreover have "\<exists>r'\<in>set (map f ?rs). reservation_evolves r r'" if "r \<in> set ?rs" for r
    using f [OF that] that by auto
  ultimately show ?thesis unfolding reservation_effect_def rows parts by blast
qed

text \<open>Writing a loaded row back.\<close>

lemma set_reservation_effect:
  assumes wf: "reservations_wf db" and row: "row \<in> set (roast_reservations db)"
    and new: "reservation_evolves row row'" "reservation_ok row'" "ripe db row'"
  shows "reservation_effect db (set_reservation row' db)"
proof (rule map_reservations_effect [OF wf])
  have id: "rr_reservation_id row' = rr_reservation_id row" using new(1) by (simp add: reservation_evolves_def)
  show "set_reservation row' db = db\<lparr>roast_reservations :=
      map (\<lambda>r. if rr_reservation_id r = rr_reservation_id row' then row' else r) (roast_reservations db)\<rparr>"
    by (simp add: set_reservation_def upd_rows_def)
  fix r assume r: "r \<in> set (roast_reservations db)"
  have "rr_reservation_id r = rr_reservation_id row' \<Longrightarrow> r = row"
    using wf row r id by (auto simp: reservations_wf_def dest: unique_onD)
  with new wf r show "reservation_evolves r (if rr_reservation_id r = rr_reservation_id row' then row' else r) \<and>
      reservation_ok (if rr_reservation_id r = rr_reservation_id row' then row' else r) \<and>
      ripe db (if rr_reservation_id r = rr_reservation_id row' then row' else r)"
    by (cases "rr_reservation_id r = rr_reservation_id row'") (simp_all add: reservations_wf_def)
qed

lemma set_reservation_same:
  assumes "reservations_wf db" and "row \<in> set (roast_reservations db)"
  shows "set_reservation row db = db"
proof -
  have "upd_rows (\<lambda>r. rr_reservation_id r = rr_reservation_id row) (\<lambda>_. row) (roast_reservations db) =
      roast_reservations db"
    using assms by (intro upd_rows_id) (auto simp: reservations_wf_def dest: unique_onD)
  then show ?thesis by (simp add: set_reservation_def)
qed

text \<open>Changing the participants: nothing gathered may get lost.\<close>

lemma participants_effect:
  assumes wf: "reservations_wf db" and rows: "roast_reservations db' = roast_reservations db"
    and "participants_wf db'" and more: "\<And>i. gathered i db \<le> gathered i db'"
  shows "reservation_effect db db'"
proof -
  have "\<forall>r\<in>set (roast_reservations db). ripe db' r"
    using wf more by (auto simp: reservations_wf_def ripe_def intro: order_trans)
  with assms have "reservations_wf db'" by (simp add: reservations_wf_def)
  with rows more show ?thesis
    by (auto simp: reservation_effect_def intro: bexI [where P = "reservation_evolves _"] reservation_evolves_refl)
qed

lemma add_participant_effect:
  assumes wf: "reservations_wf db" and res: "get_reservation (rp_reservation_id p) db \<noteq> None"
    and new: "\<forall>q\<in>set (locked_participants (rp_reservation_id p) db). rp_user_id q \<noteq> rp_user_id p"
    and room: "length (locked_participants (rp_reservation_id p) db) < ROAST_RESERVATION_MAX_PARTICIPANTS"
    and c: "rp_contribution p \<in> {1, 2}"
  shows "reservation_effect db (add_participant p db)"
proof (rule participants_effect [OF wf])
  have pw: "participants_wf db" using wf by (simp add: reservations_wf_def)
  show rows: "roast_reservations (add_participant p db) = roast_reservations db"
    by (simp add: add_participant_def)
  have lock: "locked_participants i (add_participant p db) =
      locked_participants i db @ (if rp_reservation_id p = i then [p] else [])" for i
    by (simp add: locked_participants_def add_participant_def)
  have "unique_on participant_key (roast_reservation_participants (add_participant p db))"
    using pw new by (auto simp: participants_wf_def add_participant_def unique_on_append1
        locked_participants_def participant_key_def)
  moreover have "get_reservation i (add_participant p db) = get_reservation i db" for i
    by (simp add: get_reservation_def rows)
  moreover have "length (locked_participants i (add_participant p db)) \<le> ROAST_RESERVATION_MAX_PARTICIPANTS" for i
    using pw room by (auto simp: lock participants_wf_def)
  ultimately show "participants_wf (add_participant p db)"
    using pw res c by (auto simp: participants_wf_def) (auto simp: add_participant_def)
  show "gathered i db \<le> gathered i (add_participant p db)" for i
    using c by (auto simp: gathered_def lock)
qed

lemma sum_list_upd_ge:
  fixes g :: "'r \<Rightarrow> int"
  assumes "\<And>r. r \<in> set rs \<Longrightarrow> g r \<le> g (f r)"
  shows "sum_list (map g rs) \<le> sum_list (map g (upd_rows P f rs))"
  using assms by (induction rs) (auto intro: add_mono)

lemma filter_upd_rows_inv:
  "(\<And>r. Q (f r) = Q r) \<Longrightarrow> filter Q (upd_rows P f rs) = upd_rows P f (filter Q rs)"
  by (induction rs) auto

lemma set_contribution_effect:
  assumes wf: "reservations_wf db"
  shows "reservation_effect db (set_contribution i u 2 db)"
proof (rule participants_effect [OF wf])
  have pw: "participants_wf db" using wf by (simp add: reservations_wf_def)
  show rows: "roast_reservations (set_contribution i u 2 db) = roast_reservations db"
    by (simp add: set_contribution_def)
  have lock: "locked_participants j (set_contribution i u 2 db) =
      upd_rows (\<lambda>p. participant_key p = (i, u)) (\<lambda>p. p\<lparr>rp_contribution := 2\<rparr>) (locked_participants j db)" for j
    by (simp add: locked_participants_def set_contribution_def filter_upd_rows_inv)
  have "get_reservation j (set_contribution i u 2 db) = get_reservation j db" for j
    by (simp add: get_reservation_def rows)
  moreover have "unique_on participant_key (roast_reservation_participants (set_contribution i u 2 db))"
    using pw by (auto simp: participants_wf_def set_contribution_def participant_key_def intro!: unique_on_upd)
  ultimately show "participants_wf (set_contribution i u 2 db)"
    using pw by (auto simp: participants_wf_def lock) (auto simp: set_contribution_def set_upd_rows)
  have "\<forall>p\<in>set (locked_participants j db). rp_contribution p \<le> 2" for j
    using pw by (auto simp: locked_participants_def participants_wf_def)
  then show "gathered j db \<le> gathered j (set_contribution i u 2 db)" for j
    unfolding gathered_def lock by (intro sum_list_upd_ge) simp
qed

text \<open>Creating a reservation.\<close>

lemma one_active_append:
  assumes "one_active rs" and "no_conflict active_target_key row rs"
  shows "one_active (rs @ [row])"
  unfolding one_active_def
proof (intro ballI impI)
  fix x y
  assume xy: "x \<in> set (rs @ [row])" "y \<in> set (rs @ [row])" "active_target_key x \<noteq> None"
    "active_target_key x = active_target_key y"
  have free: "z \<notin> set rs" if "active_target_key z = active_target_key row" "active_target_key row \<noteq> None" for z
    using assms(2) that unfolding no_conflict_def by blast
  from xy(1,2) consider "x \<in> set rs" "y \<in> set rs" | "x = row" "y = row" | "x \<in> set rs" "y = row" | "x = row" "y \<in> set rs"
    by auto
  then show "x = y"
  proof cases
    case 1
    with assms(1) xy(3,4) show ?thesis unfolding one_active_def by blast
  next
    case 2
    then show ?thesis by simp
  next
    case 3
    with xy(3,4) free [of x] show ?thesis by metis
  next
    case 4
    with xy(3,4) free [of y] show ?thesis by metis
  qed
qed

lemma insert_reservation_effect:
  assumes wf: "reservations_wf db" and ins: "insert_reservation row db = Inr db'"
    and row: "reservation_ok row" "rr_status row = Pending"
  shows "reservation_effect db db'"
    and "row \<in> set (roast_reservations db')"
    and "locked_participants (rr_reservation_id row) db' = []"
proof -
  let ?rs = "roast_reservations db"
  have db': "db' = db\<lparr>roast_reservations := ?rs @ [row]\<rparr>"
    and fresh: "\<forall>x\<in>set ?rs. rr_reservation_id x \<noteq> rr_reservation_id row"
    and free: "no_conflict active_target_key row ?rs"
  proof -
    have "get_reservation (rr_reservation_id row) db = None"
      and "no_conflict active_target_key row ?rs" and "db' = db\<lparr>roast_reservations := ?rs @ [row]\<rparr>"
      using ins by (auto simp: insert_reservation_def split: if_splits)
    then show "db' = db\<lparr>roast_reservations := ?rs @ [row]\<rparr>"
      and "\<forall>x\<in>set ?rs. rr_reservation_id x \<noteq> rr_reservation_id row"
      and "no_conflict active_target_key row ?rs"
      by (auto simp: get_reservation_def one_or_none_None_iff)
  qed
  have parts: "gathered i db' = gathered i db" "locked_participants i db' = locked_participants i db"
    "roast_reservation_participants db' = roast_reservation_participants db" for i
    by (simp_all add: db' gathered_def locked_participants_def)
  have get: "get_reservation i db \<noteq> None \<Longrightarrow> get_reservation i db' \<noteq> None" for i
    by (auto simp: db' get_reservation_None_iff)
  have pw: "participants_wf db" using wf by (simp add: reservations_wf_def)
  have "one_active (?rs @ [row])"
    using wf free by (intro one_active_append) (simp_all add: reservations_wf_def)
  moreover have "participants_wf db'"
    using pw get unfolding participants_wf_def parts by blast
  moreover have "ripe db' r = ripe db r" for r by (simp add: ripe_def parts)
  then have "\<forall>r\<in>set (?rs @ [row]). reservation_ok r \<and> ripe db' r"
    using wf row by (auto simp: reservations_wf_def ripe_def)
  moreover have "unique_on rr_reservation_id (?rs @ [row])"
    using wf fresh by (simp add: reservations_wf_def unique_on_append1)
  moreover have rows': "roast_reservations db' = ?rs @ [row]" by (simp add: db')
  ultimately have "reservations_wf db'" unfolding reservations_wf_def rows' by blast
  then show "reservation_effect db db'"
    by (auto simp: reservation_effect_def parts) (auto simp: db' intro: bexI [where P = "reservation_evolves _"] reservation_evolves_refl)
  show "row \<in> set (roast_reservations db')" by (simp add: db')
  have "rp_reservation_id p \<noteq> rr_reservation_id row" if "p \<in> set (roast_reservation_participants db)" for p
    using that pw fresh by (auto simp: participants_wf_def dest!: get_reservation_SomeD)
  then show "locked_participants (rr_reservation_id row) db' = []"
    by (simp add: parts(2)) (simp add: locked_participants_def)
qed

subsection \<open>The operations keep the invariant\<close>

lemma row_ok: "reservations_wf db \<Longrightarrow> r \<in> set (roast_reservations db) \<Longrightarrow> reservation_ok r \<and> ripe db r"
  by (simp add: reservations_wf_def)

lemma pending_row:
  "reservation_ok r \<Longrightarrow> rr_status r = Pending \<Longrightarrow>
   rr_active_slot r = Some 1 \<and> rr_outcome_snapshot r = None"
  by (simp add: reservation_ok_def)

lemma activate_in_ok:
  assumes "rr_status r = Pending" and "reservation_ok r"
  shows "reservation_evolves r (activate_in now p n r db) \<and> reservation_ok (activate_in now p n r db) \<and>
     ripe db (activate_in now p n r db)"
    and "rr_reservation_id (activate_in now p n r db) = rr_reservation_id r"
    and "rr_status (activate_in now p n r db) \<in> {Pending, Ready}"
  using assms
  by (auto simp: activate_in_def activate_reservation_def Let_def reservation_evolves_def reservation_ok_def
      ripe_def irrevocable_def)

lemma waiting_notice_ok [simp]:
  "reservation_evolves r (s\<lparr>rr_waiting_notice := w\<rparr>) \<longleftrightarrow>
     (if rr_status r = Completed then s\<lparr>rr_waiting_notice := w\<rparr> = r else reservation_evolves r s)"
  "reservation_ok (s\<lparr>rr_waiting_notice := w\<rparr>) = reservation_ok s"
  "ripe db (s\<lparr>rr_waiting_notice := w\<rparr>) = ripe db s"
  by (auto simp: reservation_evolves_def reservation_ok_def ripe_def irrevocable_def)

lemma activate_all_effect:
  assumes "reservations_wf db"
  shows "reservation_effect db (fst (activate_all now d u p handled db))"
proof (rule map_reservations_effect [OF assms])
  show "fst (activate_all now d u p handled db) = db\<lparr>roast_reservations :=
      map (\<lambda>r. if pending_of_target d u r then activate_one now p handled db r else r) (roast_reservations db)\<rparr>"
    by (simp add: activate_all_def upd_rows_def)
  fix r assume "r \<in> set (roast_reservations db)"
  then have r: "reservation_ok r" "ripe db r" using row_ok [OF assms] by auto
  show "reservation_evolves r (if pending_of_target d u r then activate_one now p handled db r else r) \<and>
      reservation_ok (if pending_of_target d u r then activate_one now p handled db r else r) \<and>
      ripe db (if pending_of_target d u r then activate_one now p handled db r else r)"
    using r activate_in_ok(1) [of r] by (simp add: activate_one_def Let_def pending_of_target_def)
qed

lemma activate_target_effect:
  "reservations_wf db \<Longrightarrow> reservation_effect db (fst (activate_target_reservations now d u p handled db))"
  by (simp add: activate_target_reservations_def activate_all_effect reservation_effect_frame split: option.split)

lemma activate_if_rolled_effect:
  "reservations_wf db \<Longrightarrow> reservation_effect db (fst (activate_if_target_already_rolled now d u handled db))"
  by (simp add: activate_if_target_already_rolled_def activate_target_effect reservation_effect_frame split: option.split)

text \<open>The synchronisation with the protection.\<close>

lemma set_contribution_rows [simp]: "roast_reservations (set_contribution i u c db) = roast_reservations db"
  by (simp add: set_contribution_def)

lemma set_reservation_other:
  "x \<in> set (roast_reservations db) \<Longrightarrow> rr_reservation_id x \<noteq> rr_reservation_id row \<Longrightarrow>
   x \<in> set (roast_reservations (set_reservation row db))"
  by (auto simp: set_reservation_def set_upd_rows)

lemma sync_one_effect:
  assumes wf: "reservations_wf db" and r: "r \<in> set (roast_reservations db)" "rr_status r = Pending"
  shows "reservation_effect db (sync_one now row removed r db)"
    and "\<And>x. x \<in> set (roast_reservations db) \<Longrightarrow> rr_reservation_id x \<noteq> rr_reservation_id r \<Longrightarrow>
      x \<in> set (roast_reservations (sync_one now row removed r db))"
proof -
  define db1 where "db1 = (if \<not> removed \<and> rr_protection_required r = 0 \<and> rr_force_mode r = Some ''normal''
      then set_contribution (rr_reservation_id r) (rr_owner_id r) 2 db else db)"
  define r1 where "r1 = r\<lparr>rr_protection_required := (if removed then 0 else 1 + protection_level row),
      rr_protection_source := (if removed then ''legacy'' else protection_source row)\<rparr>"
  define r2 where "r2 = activate_in now (rr_target_pig_id r1) True r1 db1"
  define r3 where "r3 = (if rr_status r2 = Pending \<and> rr_protection_required r \<noteq> rr_protection_required r1
      then r2\<lparr>rr_waiting_notice := Some pending_notice\<rparr> else r2)"
  have sync: "sync_one now row removed r db =
      (if rr_force_mode r = Some ''super'' then db
       else set_reservation (if rr_target_pig_id r1 = [] then r1 else r3) db1)"
    by (simp add: sync_one_def Let_def db1_def r1_def r2_def r3_def)
  have eff1: "reservation_effect db db1"
    using wf by (simp add: db1_def set_contribution_effect reservation_effect_frame)
  have rows1: "roast_reservations db1 = roast_reservations db" by (simp add: db1_def)
  have ok: "reservation_ok r" using row_ok [OF wf r(1)] by simp
  have r1: "rr_status r1 = Pending" "reservation_ok r1" "reservation_evolves r r1" "rr_reservation_id r1 = rr_reservation_id r"
    using ok r(2) protection_level_le [of row]
    by (auto simp: r1_def reservation_ok_def reservation_evolves_def irrevocable_def)
  have a: "reservation_evolves r1 r2" "reservation_ok r2" "ripe db1 r2" "rr_reservation_id r2 = rr_reservation_id r1"
    using activate_in_ok [OF r1(1,2)] by (auto simp: r2_def)
  then have r3: "reservation_evolves r r3" "reservation_ok r3" "ripe db1 r3" "rr_reservation_id r3 = rr_reservation_id r"
    using r1(3,4) reservation_evolves_trans [OF r1(3) a(1)] r(2) by (auto simp: r3_def)
  let ?new = "if rr_target_pig_id r1 = [] then r1 else r3"
  have "reservation_effect db1 (set_reservation ?new db1)"
    using r1 r3 r(1) rows1 by (intro set_reservation_effect [OF reservation_effectD [OF eff1]]) (auto simp: ripe_def)
  with eff1 show "reservation_effect db (sync_one now row removed r db)"
    unfolding sync using wf by (auto intro: reservation_effect_trans reservation_effect_frame)
  show "x \<in> set (roast_reservations (sync_one now row removed r db))"
    if "x \<in> set (roast_reservations db)" "rr_reservation_id x \<noteq> rr_reservation_id r" for x
    unfolding sync using that r1(4) r3(4) rows1 by (auto intro!: set_reservation_other)
qed

lemma fold_sync_effect:
  assumes "reservations_wf db" and "set rs \<subseteq> set (roast_reservations db)" and "distinct (map rr_reservation_id rs)"
    and "\<forall>r\<in>set rs. rr_status r = Pending"
  shows "reservation_effect db (fold (sync_one now row removed) rs db)"
  using assms
proof (induction rs arbitrary: db)
  case Nil
  then show ?case by (simp add: reservation_effect_frame)
next
  case (Cons r rs)
  then have eff: "reservation_effect db (sync_one now row removed r db)" by (intro sync_one_effect(1)) auto
  moreover have "set rs \<subseteq> set (roast_reservations (sync_one now row removed r db))"
  proof
    fix x assume "x \<in> set rs"
    moreover from this Cons.prems(3) have "rr_reservation_id x \<noteq> rr_reservation_id r"
      by (metis distinct.simps(2) image_eqI list.set_map list.simps(9))
    ultimately show "x \<in> set (roast_reservations (sync_one now row removed r db))"
      using Cons.prems by (intro sync_one_effect(2)) auto
  qed
  ultimately show ?case
    using Cons.IH [of "sync_one now row removed r db"] Cons.prems(3,4)
    by (auto intro: reservation_effect_trans [OF eff] dest: reservation_effectD)
qed

lemma sync_effect:
  assumes "reservations_wf db"
  shows "reservation_effect db (sync_pending_protection now row removed g db)"
proof -
  have "unique_on rr_reservation_id (roast_reservations db)" using assms by (simp add: reservations_wf_def)
  then show ?thesis
    unfolding sync_pending_protection_def
    by (intro fold_sync_effect assms) (auto simp: unique_on_def distinct_map_filter)
qed

text \<open>The branches of \<open>prepare_reservation\<close>.\<close>

lemma usage_frame [frame_simps]:
  "roast_reservations (fst (consume_force_usage u d db)) = roast_reservations db"
  "roast_reservation_participants (fst (consume_force_usage u d db)) = roast_reservation_participants db"
  "roast_reservations (fst (consume_roast_usage u t cd mc clock db)) = roast_reservations db"
  "roast_reservation_participants (fst (consume_roast_usage u t cd mc clock db)) = roast_reservation_participants db"
  by (simp_all add: consume_force_usage_def consume_roast_usage_def Let_def split: option.split prod.split)

lemma consume_force_effect:
  "reservations_wf db \<Longrightarrow> consume_force_usage u d db = (db', ok) \<Longrightarrow> reservation_effect db db' \<and>
     roast_reservations db' = roast_reservations db \<and>
     roast_reservation_participants db' = roast_reservation_participants db"
  using usage_frame(1,2) [of u d db] by (auto intro: reservation_effect_frame)

lemma consume_roast_effect:
  "reservations_wf db \<Longrightarrow> consume_roast_usage u t cd mc clock db = (db', resp) \<Longrightarrow> reservation_effect db db' \<and>
     roast_reservations db' = roast_reservations db \<and>
     roast_reservation_participants db' = roast_reservation_participants db"
  using usage_frame(3,4) [of u t cd mc clock db] by (auto intro: reservation_effect_frame)

lemma mark_effect: "reservations_wf db \<Longrightarrow> reservation_effect db (mark_group_active_users now d g us db)"
  by (rule reservation_effect_frame) (simp_all add: frame_simps)

lemma effective_protection_effect:
  assumes "reservations_wf db" and "effective_protection req db = (protection, db1)"
  shows "reservation_effect db db1" and "roast_reservations db1 = roast_reservations db"
    and "roast_reservation_participants db1 = roast_reservation_participants db"
    and "user_usage db1 = user_usage db"
  using assms
  by (auto simp: effective_protection_def Let_def put_protection_def intro!: reservation_effect_frame
      split: option.splits if_splits)

lemma update_delivery_ok:
  assumes "reservation_ok r" and "rr_status r \<noteq> Completed"
  shows "reservation_evolves r (update_delivery_capability r req) \<and>
     reservation_ok (update_delivery_capability r req) \<and>
     (ripe db r \<longrightarrow> ripe db (update_delivery_capability r req)) \<and>
     rr_status (update_delivery_capability r req) = rr_status r \<and>
     rr_reservation_id (update_delivery_capability r req) = rr_reservation_id r \<and>
     rr_force_mode (update_delivery_capability r req) = rr_force_mode r \<and>
     rr_protection_required (update_delivery_capability r req) = rr_protection_required r \<and>
     rr_target_pig_id (update_delivery_capability r req) = rr_target_pig_id r"
  using assms
  by (auto simp: update_delivery_capability_def Let_def reservation_evolves_def reservation_ok_def ripe_def irrevocable_def)

lemma activate_if_arrived_ok:
  assumes "rr_status r = Pending" and "reservation_ok r"
  shows "reservation_evolves r (activate_if_arrived now n roll r db) \<and>
     reservation_ok (activate_if_arrived now n roll r db) \<and> ripe db (activate_if_arrived now n roll r db)"
  using assms activate_in_ok(1) [OF assms] by (simp add: activate_if_arrived_def ripe_def)

text \<open>The common end of the joining branches: a changed row, activated if the target has arrived.\<close>

lemma write_activated_effect:
  assumes eff: "reservation_effect db db1" and r: "r \<in> set (roast_reservations db1)"
    and r1: "rr_status r1 = Pending" "reservation_ok r1" "reservation_evolves r r1"
  shows "reservation_effect db (set_reservation (activate_if_arrived now n roll r1 db1) db1)"
proof (rule reservation_effect_trans [OF eff])
  show "reservation_effect db1 (set_reservation (activate_if_arrived now n roll r1 db1) db1)"
    using activate_if_arrived_ok [OF r1(1,2), of now n roll db1] r1(3)
    by (intro set_reservation_effect [OF reservation_effectD [OF eff] r]) (blast intro: reservation_evolves_trans)+
qed

lemma taken_over_ok:
  "rr_status r = Pending \<Longrightarrow> reservation_ok r \<Longrightarrow>
   rr_status (taken_over req ms r) = Pending \<and> reservation_ok (taken_over req ms r) \<and>
   reservation_evolves r (taken_over req ms r)"
  by (simp add: taken_over_def reservation_ok_def reservation_evolves_def irrevocable_def)

lemma take_over_effect:
  assumes wf: "reservations_wf db" and r: "r \<in> set (roast_reservations db)" "rr_status r = Pending"
  shows "reservation_effect db (fst (take_over req now target_roll r db))"
  using taken_over_ok [OF r(2), of req] row_ok [OF wf r(1)] r(1)
  by (auto simp: take_over_def Let_def frame_simps intro!: write_activated_effect [OF mark_effect [OF wf]])

text \<open>Taking a free seat, or raising the contribution of a seat already taken.\<close>

lemma seat_effect:
  assumes wf: "reservations_wf db" and r: "r \<in> set (roast_reservations db)" "rr_reservation_id r = i"
    and participant: "participant = one_or_none (\<lambda>p. rp_user_id p = u) (locked_participants i db)"
    and room: "participant = None \<Longrightarrow> length (locked_participants i db) < ROAST_RESERVATION_MAX_PARTICIPANTS"
    and new: "rp_reservation_id new = i" "rp_user_id new = u" "rp_contribution new \<in> {1, 2}"
  shows "reservation_effect db (if participant = None then add_participant new db else set_contribution i u 2 db)"
proof (cases "participant = None")
  case True
  have "get_reservation i db \<noteq> None" using r by (auto simp: get_reservation_None_iff)
  with True wf room new show ?thesis
    by (auto simp: participant one_or_none_None_iff intro!: add_participant_effect)
next
  case False
  with set_contribution_effect [OF wf] show ?thesis by (simp only: if_False)
qed

lemma join_members_effect:
  assumes wf: "reservations_wf db" and r: "r \<in> set (roast_reservations db)" "rr_status r = Pending"
  shows "reservation_effect db (fst (join_members req now target_roll r db))"
proof -
  define i where "i = rr_reservation_id r"
  define members where "members = locked_participants i db"
  define participant where "participant = one_or_none (\<lambda>p. rp_user_id p = rq_attacker_id req) members"
  define boosted where "boosted \<longleftrightarrow> rr_protection_required r \<noteq> 0 \<and> rq_force_mode req = Some ''normal''"
  define upgradable where "upgradable \<longleftrightarrow> (case participant of Some p \<Rightarrow> boosted \<and> rp_contribution p < 2 | None \<Rightarrow> False)"
  define r1 where "r1 = (update_delivery_capability r req)\<lparr>rr_waiting_notice := None\<rparr>"
  obtain db1 granted where consume: "(if boosted then consume_force_usage (rq_attacker_id req) (rq_date_str req) db
      else (db, True)) = (db1, granted)" by (metis surj_pair)
  define new where "new = \<lparr>rp_reservation_id = i, rp_user_id = rq_attacker_id req,
      rp_display_name = rq_attacker_name req, rp_pig_id = rq_attacker_pig_id req,
      rp_contribution = (if boosted then 2 else 1)\<rparr>"
  define db2 where "db2 = (if participant = None then add_participant new db1
      else set_contribution i (rq_attacker_id req) 2 db1)"
  define db3 where "db3 = mark_group_active_users now (rq_date_str req) (rq_group_id req) [rq_attacker_id req] db2"
  have call: "fst (join_members req now target_roll r db) =
     (if participant \<noteq> None \<and> \<not> upgradable then set_reservation r1 db
      else if participant = None \<and> ROAST_RESERVATION_MAX_PARTICIPANTS \<le> length members then db
      else if \<not> granted then db1
      else set_reservation (activate_if_arrived now False target_roll r1 db3) db3)"
    using consume
    by (cases "participant = None")
       (simp_all add: join_members_def Let_def i_def [symmetric] members_def [symmetric] participant_def [symmetric]
        boosted_def [symmetric] upgradable_def [symmetric] r1_def [symmetric] new_def [symmetric] db2_def db3_def
        del: not_None_eq)
  have ok: "reservation_ok r" "ripe db r" using row_ok [OF wf r(1)] by auto
  have r1: "rr_status r1 = Pending" "reservation_ok r1" "reservation_evolves r r1"
    using update_delivery_ok [OF ok(1)] r(2) by (auto simp: r1_def)
  have eff1: "reservation_effect db db1" and same: "roast_reservations db1 = roast_reservations db"
    "roast_reservation_participants db1 = roast_reservation_participants db"
    using consume consume_force_effect [OF wf] reservation_effect_frame [OF wf refl refl] by (auto split: if_splits)
  have members: "members = locked_participants i db1" by (simp add: members_def locked_participants_def same)
  have eff2: "reservation_effect db1 db2" if "\<not> (participant = None \<and> ROAST_RESERVATION_MAX_PARTICIPANTS \<le> length members)"
    unfolding db2_def using that r(1) members reservation_effectD [OF eff1]
    by (intro seat_effect [of db1 r]) (simp_all add: same i_def participant_def new_def not_le)
  have rows2: "roast_reservations db2 = roast_reservations db" by (simp add: db2_def same add_participant_def)
  show ?thesis
  proof (cases "participant = None \<and> ROAST_RESERVATION_MAX_PARTICIPANTS \<le> length members")
    case True
    then show ?thesis by (simp add: call wf reservation_effect_frame)
  next
    case False
    from eff1 eff2 [OF False] have "reservation_effect db db2" by (rule reservation_effect_trans)
    then have eff3: "reservation_effect db db3"
      unfolding db3_def using mark_effect reservation_effectD reservation_effect_trans by blast
    have rows3: "roast_reservations db3 = roast_reservations db" by (simp add: db3_def frame_simps rows2)
    have "reservation_effect db (set_reservation r1 db)"
      using r1 by (intro set_reservation_effect [OF wf r(1)]) (simp_all add: ripe_def)
    moreover have "reservation_effect db (set_reservation (activate_if_arrived now False target_roll r1 db3) db3)"
      using r1 r(1) by (intro write_activated_effect [OF eff3, of r]) (simp_all add: rows3)
    moreover have "reservation_effect db db" using wf by (simp add: reservation_effect_frame)
    ultimately show ?thesis using eff1 by (simp add: call)
  qed
qed

lemma join_existing_effect:
  assumes wf: "reservations_wf db" and r: "r \<in> set (roast_reservations db)" "rr_active_slot r = Some 1"
  shows "reservation_effect db (fst (join_existing req now target_roll r db))"
proof -
  have ok: "reservation_ok r" "ripe db r" using row_ok [OF wf r(1)] by auto
  with r(2) have "rr_status r \<noteq> Completed" by (auto simp: reservation_ok_def)
  with ok update_delivery_ok [OF ok(1), of req]
  have "reservation_effect db (set_reservation (update_delivery_capability r req) db)"
    by (intro set_reservation_effect [OF wf r(1)]) simp_all
  then show ?thesis
    using wf r(1) by (auto simp: join_existing_def Let_def set_reservation_same reservation_effect_frame
        take_over_effect join_members_effect)
qed

lemma new_reservation_ok:
  "reservation_ok (new_reservation req fresh protection)" "rr_status (new_reservation req fresh protection) = Pending"
  using protection_level_le
  by (auto simp: reservation_ok_def new_reservation_def split: option.split)

lemma create_reservation_effect:
  assumes wf: "reservations_wf db"
    and call: "create_reservation req now fresh protection target_roll cooldown db = Inr (db', resp)"
  shows "reservation_effect db db'"
proof -
  define r where "r = new_reservation req fresh protection"
  have id: "rr_reservation_id r = fresh" by (simp add: r_def new_reservation_def)
  obtain db1 where ins: "insert_reservation r db = Inr db1"
    using call by (auto simp: create_reservation_def Let_def r_def split: sum.splits)
  define p where "p = owner_participant req fresh protection"
  define db3 where "db3 = mark_group_active_users now (rq_date_str req) (rq_group_id req) [rq_attacker_id req] (add_participant p db1)"
  define r' where "r' = (case target_roll of Some roll \<Rightarrow> activate_in now (dr_pig_id roll) False r db3 | None \<Rightarrow> r)"
  have db': "db' = set_reservation r' db3"
    using call ins unfolding r'_def db3_def r_def p_def by (auto simp: create_reservation_def Let_def)
  note ok = new_reservation_ok [of req fresh protection, folded r_def]
  note eff1 = insert_reservation_effect [OF wf ins ok]
  have "get_reservation fresh db1 \<noteq> None" using eff1(2) id by (auto simp: get_reservation_None_iff)
  then have "reservation_effect db1 (add_participant p db1)"
    using eff1(3) id by (intro add_participant_effect [OF reservation_effectD [OF eff1(1)]])
      (auto simp: p_def owner_participant_def ROAST_RESERVATION_MAX_PARTICIPANTS_def)
  with eff1(1) have eff2: "reservation_effect db (add_participant p db1)" by (rule reservation_effect_trans)
  then have eff3: "reservation_effect db db3"
    unfolding db3_def using mark_effect reservation_effectD reservation_effect_trans by blast
  have mem: "r \<in> set (roast_reservations db3)" using eff1(2) by (simp add: db3_def frame_simps add_participant_def)
  have "reservation_evolves r r' \<and> reservation_ok r' \<and> ripe db3 r'"
    using ok activate_in_ok(1) [OF ok(2,1)] by (auto simp: r'_def ripe_def split: option.split)
  then have "reservation_effect db3 db'"
    unfolding db' by (intro set_reservation_effect [OF reservation_effectD [OF eff3] mem]) auto
  with eff3 show ?thesis by (rule reservation_effect_trans)
qed

lemma find_reservation_SomeD:
  "find_reservation req db = Some r \<Longrightarrow> r \<in> set (roast_reservations db) \<and> joinable req r"
  by (auto simp: find_reservation_def dest: one_or_none_SomeD)

lemma prepare_reservation_effect:
  assumes wf: "reservations_wf db"
    and call: "prepare_reservation req expected now fresh db = Inr (db', resp)"
  shows "reservation_effect db db'"
proof -
  obtain protection db1 where p: "effective_protection req db = (protection, db1)" by (metis surj_pair)
  note eff1 = effective_protection_effect(1) [OF wf p]
  note wf1 = reservation_effectD [OF eff1]
  have same: "db' = db1 \<Longrightarrow> reservation_effect db1 db'" using wf1 by (simp add: reservation_effect_frame)
  have join: "reservation_effect db1 (fst (join_existing req now roll r db1))"
    if "find_reservation req db1 = Some r" for r roll
    using find_reservation_SomeD [OF that] wf1 by (intro join_existing_effect) (auto simp: joinable_def)
  have create: "reservation_effect db1 db'"
    if "create_reservation req now fresh protection roll cooldown db2 = Inr (db', resp)"
      "reservation_effect db1 db2" for roll cooldown db2
    using create_reservation_effect [OF reservation_effectD [OF that(2)] that(1)] that(2)
    by (blast intro: reservation_effect_trans)
  have "reservation_effect db1 db'"
    using call p same join create wf1
      consume_force_effect [OF wf1] consume_roast_effect [OF wf1]
      reservation_effect_frame [OF wf1 refl refl]
    by (auto simp: prepare_reservation_def open_gathering_def Let_def split: if_splits option.splits prod.splits)
       (metis fst_conv)+
  with eff1 show ?thesis by (rule reservation_effect_trans)
qed

subsection \<open>A concrete request\<close>

definition sample_prepare :: prepare_request where
  "sample_prepare = \<lparr>rq_attacker_id = ''a'', rq_attacker_name = ''A'', rq_attacker_pig_id = ''pig'',
     rq_target_id = ''t'', rq_target_name = ''T'', rq_group_id = ''g'', rq_delivery_bot_id = ''bot'',
     rq_force_mode = None, rq_date_str = 5, rq_now_ts = None, rq_cooldown_seconds = None,
     rq_max_charges = None, rq_supports_protection_gathering = True,
     rq_protection_gathering_version = 2\<rparr>"

definition sample_reservation :: roast_reservation where
  "sample_reservation = new_reservation sample_prepare ''r'' None"

definition sample_db :: db where
  "sample_db = empty_db\<lparr>roast_reservations := [sample_reservation],
     roast_reservation_participants := [owner_participant sample_prepare ''r'' None]\<rparr>"

lemma sample_reservation_sels [simp]:
  "rr_reservation_id sample_reservation = ''r''" "rr_status sample_reservation = Pending"
  "rr_active_slot sample_reservation = Some 1" "rr_target_id sample_reservation = ''t''"
  "rr_group_id sample_reservation = ''g''" "rr_date_str sample_reservation = 5"
  "rr_owner_id sample_reservation = ''a''" "rr_protection_required sample_reservation = 0"
  "rr_outcome_snapshot sample_reservation = None" "rr_claim_token sample_reservation = None"
  "rr_force_mode sample_reservation = None" "rr_target_pig_id sample_reservation = []"
  "rr_force_operator_id sample_reservation = []" "rr_delivery_bot_id sample_reservation = ''bot''"
  "rr_claimed_at sample_reservation = None" "rr_force_feed_user_ids sample_reservation = None"
  by (simp_all add: sample_reservation_def new_reservation_def sample_prepare_def)

lemma sample_db_lookup: "get_reservation ''r'' sample_db = Some sample_reservation"
  by (simp add: get_reservation_def sample_db_def)

lemma sample_db_wf: "reservations_wf sample_db"
proof -
  have "length (locked_participants i sample_db) \<le> 1" for i
    by (simp add: locked_participants_def sample_db_def)
  then have "length (locked_participants i sample_db) \<le> ROAST_RESERVATION_MAX_PARTICIPANTS" for i
    by (rule order_trans) (simp add: ROAST_RESERVATION_MAX_PARTICIPANTS_def)
  then show ?thesis
    by (simp add: reservations_wf_def one_active_def participants_wf_def sample_db_lookup reservation_ok_def ripe_def)
       (simp add: sample_db_def unique_on_def owner_participant_def get_reservation_def)
qed

end
