(* ===== verification/Keys.thy ===== *)
theory Keys
  imports Transactions
begin

section \<open>API keys and their usage counters (\<^verbatim>\<open>config.py\<close>, \<^verbatim>\<open>auth.py\<close>, \<^verbatim>\<open>services/key_usage.py\<close>)\<close>

text \<open>
  Keys are configured as a JSON object of named tokens and a comma separated list of nameless ones.
  Strings are code points below 256, so the white space of \<open>str.strip\<close> is the one there.
  \<open>json.loads\<close> and the SHA-256 fingerprint of a token are parameters: \<open>json_loads\<close> is
  \<open>None\<close> for malformed text, \<open>digest\<close> gives the hexadecimal digest.
\<close>

subsection \<open>Configuration\<close>

record api_key_identity =
  key_id :: string
  key_name :: string

definition KEY_NAME_MAX_LENGTH :: nat where
  "KEY_NAME_MAX_LENGTH = 64"

definition is_space :: "char \<Rightarrow> bool" where
  "is_space c \<longleftrightarrow> of_char c \<in> {9, 10, 11, 12, 13, 28, 29, 30, 31, 32, 133, 160 :: nat}"

definition strip :: "string \<Rightarrow> string" where
  "strip s = rev (dropWhile is_space (rev (dropWhile is_space s)))"

fun split_on :: "char \<Rightarrow> string \<Rightarrow> string list" where
  "split_on c [] = [[]]"
| "split_on c (x # xs) =
     (if x = c then [] # split_on c xs
      else case split_on c xs of [] \<Rightarrow> [[x]] | w # ws \<Rightarrow> (x # w) # ws)"

lemma split_on_absent: "c \<notin> set s \<Longrightarrow> split_on c s = [s]"
  by (induction s) auto

definition token_key_id :: "(string \<Rightarrow> string) \<Rightarrow> string \<Rightarrow> string" where
  "token_key_id digest token = ''key-'' @ take 16 (digest token)"

definition normalize_key_name :: "string \<Rightarrow> error + string" where
  "normalize_key_name value =
     (let name = strip value
      in if name = [] then Inl ValueError
         else if KEY_NAME_MAX_LENGTH < length name then Inl ValueError
         else if \<exists>c\<in>set name. of_char c < (32 :: nat) then Inl ValueError
         else Inr name)"

fun add_named_keys ::
  "(string \<Rightarrow> string) \<Rightarrow> (string \<times> json) list \<Rightarrow> api_key_identity dict \<Rightarrow> error + api_key_identity dict" where
  "add_named_keys digest [] identities = Inr identities"
| "add_named_keys digest ((raw_name, raw_token) # items) identities =
     (case normalize_key_name raw_name of
        Inl e \<Rightarrow> Inl e
      | Inr name \<Rightarrow>
          (case raw_token of
             JStr text \<Rightarrow>
               let token = strip text
               in if token = [] then Inl ValueError
                  else if map_of identities token \<noteq> None then Inl ValueError
                  else add_named_keys digest items
                    (dict_put token \<lparr>key_id = token_key_id digest token, key_name = name\<rparr> identities)
           | _ \<Rightarrow> Inl ValueError))"

definition add_legacy_key ::
  "(string \<Rightarrow> string) \<Rightarrow> string \<Rightarrow> api_key_identity dict \<Rightarrow> api_key_identity dict" where
  "add_legacy_key digest raw_token identities =
     (let token = strip raw_token
      in if token \<noteq> [] \<and> map_of identities token = None then
           let i = token_key_id digest token in dict_put token \<lparr>key_id = i, key_name = i\<rparr> identities
         else identities)"

definition parse_api_keys ::
  "(string \<Rightarrow> json option) \<Rightarrow> (string \<Rightarrow> string) \<Rightarrow> string \<Rightarrow> string \<Rightarrow> error + api_key_identity dict" where
  "parse_api_keys json_loads digest named_keys_raw legacy_tokens_raw =
     (let named =
        (if strip named_keys_raw = [] then Inr []
         else case json_loads named_keys_raw of
                Some (JObj items) \<Rightarrow> add_named_keys digest (sorted_list_of_fmap items) []
              | _ \<Rightarrow> Inl ValueError)
      in case named of
           Inl e \<Rightarrow> Inl e
         | Inr identities \<Rightarrow>
             Inr (fold (add_legacy_key digest) (split_on (CHR '','') legacy_tokens_raw) identities))"

text \<open>\<open>verify_token\<close>: the credentials are the scheme and the token of the Authorization header.\<close>

definition lower_char :: "char \<Rightarrow> char" where
  "lower_char c = (if 65 \<le> (of_char c :: nat) \<and> (of_char c :: nat) \<le> 90 then char_of (of_char c + 32 :: nat) else c)"

definition verify_token ::
  "api_key_identity dict \<Rightarrow> (string \<times> string) option \<Rightarrow> error + api_key_identity" where
  "verify_token api_keys credentials =
     (if api_keys = [] then Inl (HTTPException 500)
      else case credentials of
             None \<Rightarrow> Inl (HTTPException 401)
           | Some (scheme, token) \<Rightarrow>
               if map lower_char scheme \<noteq> ''bearer'' then Inl (HTTPException 401)
               else (case map_of api_keys token of
                       None \<Rightarrow> Inl (HTTPException 401) | Some identity \<Rightarrow> Inr identity))"

subsection \<open>Usage counters\<close>

definition WRITE_METHODS :: "string list" where
  "WRITE_METHODS = [''POST'', ''PUT'', ''PATCH'', ''DELETE'']"

definition upper_char :: "char \<Rightarrow> char" where
  "upper_char c = (if 97 \<le> (of_char c :: nat) \<and> (of_char c :: nat) \<le> 122 then char_of (of_char c - 32 :: nat) else c)"

text \<open>The three dialect branches write the same row; \<open>now\<close> is the database's clock.\<close>

definition upsert_identity :: "datetime \<Rightarrow> api_key_identity \<Rightarrow> db \<Rightarrow> db" where
  "upsert_identity now identity db =
     (let rows = source_key_identities db
      in db\<lparr>source_key_identities :=
           (if one_or_none (\<lambda>r. ki_key_id r = key_id identity) rows = None
            then rows @ [\<lparr>ki_key_id = key_id identity, ki_key_name = key_name identity,
                          ki_first_seen_at = now, ki_last_seen_at = now\<rparr>]
            else upd_rows (\<lambda>r. ki_key_id r = key_id identity)
                   (\<lambda>r. r\<lparr>ki_key_name := key_name identity, ki_last_seen_at := now\<rparr>) rows)\<rparr>)"

text \<open>The increments of one call; the row added for an unseen key has the increments as its counts.\<close>

definition add_counts :: "source_key_daily_usage \<Rightarrow> source_key_daily_usage \<Rightarrow> source_key_daily_usage" where
  "add_counts inc r = r\<lparr>
     ku_authenticated_requests := ku_authenticated_requests r + ku_authenticated_requests inc,
     ku_successful_requests := ku_successful_requests r + ku_successful_requests inc,
     ku_successful_mutations := ku_successful_mutations r + ku_successful_mutations inc,
     ku_failed_requests := ku_failed_requests r + ku_failed_requests inc,
     ku_created_records := ku_created_records r + ku_created_records inc,
     ku_updated_records := ku_updated_records r + ku_updated_records inc,
     ku_deleted_records := ku_deleted_records r + ku_deleted_records inc,
     ku_idempotent_hits := ku_idempotent_hits r + ku_idempotent_hits inc\<rparr>"

definition upsert_daily_usage :: "source_key_daily_usage \<Rightarrow> db \<Rightarrow> db" where
  "upsert_daily_usage inc db =
     (let rows = source_key_daily_usage db
      in db\<lparr>source_key_daily_usage :=
           (if one_or_none (\<lambda>r. daily_usage_key r = daily_usage_key inc) rows = None then rows @ [inc]
            else upd_rows (\<lambda>r. daily_usage_key r = daily_usage_key inc) (add_counts inc) rows)\<rparr>)"

definition no_counts :: "datetime \<Rightarrow> api_key_identity \<Rightarrow> string \<Rightarrow> source_key_daily_usage" where
  "no_counts now identity operation =
     \<lparr>ku_date_str = rollpig_today now, ku_source_key_id = key_id identity, ku_operation = take 192 operation,
      ku_authenticated_requests = 0, ku_successful_requests = 0, ku_successful_mutations = 0,
      ku_failed_requests = 0, ku_created_records = 0, ku_updated_records = 0, ku_deleted_records = 0,
      ku_idempotent_hits = 0\<rparr>"

definition record_key_request ::
  "datetime \<Rightarrow> api_key_identity \<Rightarrow> string \<Rightarrow> string \<Rightarrow> int \<Rightarrow> db \<Rightarrow> db" where
  "record_key_request now identity http_method operation status_code db =
     (let successful = (status_code < 400)
      in upsert_daily_usage
           ((no_counts now identity operation)\<lparr>
              ku_authenticated_requests := 1,
              ku_successful_requests := (if successful then 1 else 0),
              ku_successful_mutations :=
                (if successful \<and> map upper_char http_method \<in> set WRITE_METHODS then 1 else 0),
              ku_failed_requests := (if successful then 0 else 1)\<rparr>)
           (upsert_identity now identity db))"

record mutation_counts =
  mc_created :: int
  mc_updated :: int
  mc_deleted :: int
  mc_idempotent :: int

definition no_mutation :: mutation_counts where
  "no_mutation = \<lparr>mc_created = 0, mc_updated = 0, mc_deleted = 0, mc_idempotent = 0\<rparr>"

text \<open>\<open>None\<close> is an unresolved identity (a direct call of the handler), for which nothing is counted.\<close>

definition record_key_mutation_outcome ::
  "datetime \<Rightarrow> api_key_identity option \<Rightarrow> string \<Rightarrow> mutation_counts \<Rightarrow> db \<Rightarrow> error + db" where
  "record_key_mutation_outcome now identity operation counts db =
     (case identity of
        None \<Rightarrow> Inr db
      | Some i \<Rightarrow>
          if mc_created counts < 0 \<or> mc_updated counts < 0 \<or> mc_deleted counts < 0 \<or> mc_idempotent counts < 0
          then Inl ValueError
          else Inr (upsert_daily_usage
            ((no_counts now i operation)\<lparr>ku_created_records := mc_created counts,
               ku_updated_records := mc_updated counts, ku_deleted_records := mc_deleted counts,
               ku_idempotent_hits := mc_idempotent counts\<rparr>)
            (upsert_identity now i db)))"

subsection \<open>Facts about the configuration\<close>

lemma dropWhile_idem [simp]: "dropWhile P (dropWhile P xs) = dropWhile P xs"
  by (induction xs) auto

lemma strip_ends: "strip s \<noteq> [] \<Longrightarrow> \<not> is_space (hd (strip s)) \<and> \<not> is_space (last (strip s))"
proof -
  assume ne: "strip s \<noteq> []"
  define t where "t = dropWhile is_space s"
  have rev: "strip s = rev (dropWhile is_space (rev t))" by (simp add: strip_def t_def)
  then have "dropWhile is_space (rev t) \<noteq> []" using ne by auto
  then have last: "\<not> is_space (last (strip s))" by (metis hd_dropWhile last_rev rev)
  obtain ys where "rev t = ys @ dropWhile is_space (rev t)" by (metis takeWhile_dropWhile_id)
  then have "t = strip s @ rev ys" by (metis rev rev_append rev_rev_ident)
  then have "hd t = hd (strip s)" "t \<noteq> []" using ne by auto
  moreover have "t \<noteq> [] \<Longrightarrow> \<not> is_space (hd t)" unfolding t_def by (rule hd_dropWhile)
  ultimately show ?thesis using last by simp
qed

definition good_name :: "string \<Rightarrow> bool" where
  "good_name name \<longleftrightarrow> name \<noteq> [] \<and> length name \<le> KEY_NAME_MAX_LENGTH \<and> (\<forall>c\<in>set name. (32 :: nat) \<le> of_char c)"

lemma normalize_key_name_good: "normalize_key_name v = Inr name \<Longrightarrow> name = strip v \<and> good_name name"
  by (auto simp: normalize_key_name_def good_name_def Let_def not_less split: if_splits)

lemma map_of_legacy:
  "map_of (add_legacy_key digest raw ids) token =
     (if map_of ids token = None \<and> token = strip raw \<and> token \<noteq> []
      then Some \<lparr>key_id = token_key_id digest token, key_name = token_key_id digest token\<rparr>
      else map_of ids token)"
  by (auto simp: add_legacy_key_def Let_def)

lemma map_of_legacy_fold:
  "map_of (fold (add_legacy_key digest) raws ids) token =
     (case map_of ids token of
        Some i \<Rightarrow> Some i
      | None \<Rightarrow> if token \<noteq> [] \<and> token \<in> strip ` set raws
                then Some \<lparr>key_id = token_key_id digest token, key_name = token_key_id digest token\<rparr> else None)"
  by (induction raws arbitrary: ids) (auto simp: map_of_legacy split: option.splits)

lemma add_named_keys_step:
  assumes "add_named_keys digest ((raw_name, raw_token) # items) ids = Inr ids'"
  obtains secret where "raw_token = JStr secret" "strip secret \<noteq> []" "map_of ids (strip secret) = None"
    "good_name (strip raw_name)"
    "add_named_keys digest items (dict_put (strip secret)
       \<lparr>key_id = token_key_id digest (strip secret), key_name = strip raw_name\<rparr> ids) = Inr ids'"
  using assms by (auto simp: Let_def split: sum.splits json.splits if_splits dest!: normalize_key_name_good)

lemma add_named_keys_keep:
  "add_named_keys digest items ids = Inr ids' \<Longrightarrow> map_of ids token = Some i \<Longrightarrow> map_of ids' token = Some i"
proof (induction items arbitrary: ids)
  case (Cons item items)
  obtain n t where item: "item = (n, t)" by (cases item)
  obtain secret where s: "map_of ids (strip secret) = None"
    "add_named_keys digest items (dict_put (strip secret)
       \<lparr>key_id = token_key_id digest (strip secret), key_name = strip n\<rparr> ids) = Inr ids'"
    using Cons.prems(1) unfolding item by (rule add_named_keys_step)
  show ?case by (rule Cons.IH [OF s(2)]) (use s(1) Cons.prems(2) in auto)
qed simp

lemma add_named_keys_complete:
  "add_named_keys digest items ids = Inr ids' \<Longrightarrow> (raw_name, raw_token) \<in> set items \<Longrightarrow>
   \<exists>text. raw_token = JStr text \<and> strip text \<noteq> [] \<and> good_name (strip raw_name) \<and>
     map_of ids' (strip text) = Some \<lparr>key_id = token_key_id digest (strip text), key_name = strip raw_name\<rparr>"
proof (induction items arbitrary: ids)
  case (Cons item items)
  obtain n t where item: "item = (n, t)" by (cases item)
  obtain secret where s: "t = JStr secret" "strip secret \<noteq> []" "good_name (strip n)"
    "add_named_keys digest items (dict_put (strip secret)
       \<lparr>key_id = token_key_id digest (strip secret), key_name = strip n\<rparr> ids) = Inr ids'"
    using Cons.prems(1) unfolding item by (rule add_named_keys_step)
  show ?case
  proof (cases "item = (raw_name, raw_token)")
    case True
    with item s add_named_keys_keep [OF s(4), of "strip secret"] show ?thesis by auto
  next
    case False
    with Cons.prems(2) have "(raw_name, raw_token) \<in> set items" by auto
    from Cons.IH [OF s(4) this] show ?thesis .
  qed
qed simp

lemma add_named_keys_sound:
  "add_named_keys digest items ids = Inr ids' \<Longrightarrow> map_of ids' token = Some i \<Longrightarrow> map_of ids token = None \<Longrightarrow>
   token \<noteq> [] \<and> (\<exists>raw_name text. (raw_name, JStr text) \<in> set items \<and> strip text = token)"
proof (induction items arbitrary: ids)
  case (Cons item items)
  obtain n t where item: "item = (n, t)" by (cases item)
  obtain secret where s: "t = JStr secret" "strip secret \<noteq> []"
    "add_named_keys digest items (dict_put (strip secret)
       \<lparr>key_id = token_key_id digest (strip secret), key_name = strip n\<rparr> ids) = Inr ids'"
    using Cons.prems(1) unfolding item by (rule add_named_keys_step)
  show ?case
  proof (cases "token = strip secret")
    case True
    with item s show ?thesis by auto
  next
    case False
    with Cons.prems(3) have "map_of (dict_put (strip secret)
       \<lparr>key_id = token_key_id digest (strip secret), key_name = strip n\<rparr> ids) token = None" by simp
    from Cons.IH [OF s(3) Cons.prems(2) this] show ?thesis by auto
  qed
qed simp

subsection \<open>Facts about the counters\<close>

definition usage_of :: "date \<Rightarrow> string \<Rightarrow> string \<Rightarrow> db \<Rightarrow> source_key_daily_usage option" where
  "usage_of d k operation db = one_or_none (\<lambda>r. daily_usage_key r = (d, k, operation)) (source_key_daily_usage db)"

lemma add_counts_key [simp]: "daily_usage_key (add_counts inc r) = daily_usage_key r"
  by (simp add: daily_usage_key_def add_counts_def)

lemma usage_of_upsert:
  "usage_of d k operation (upsert_daily_usage inc db) =
     (if daily_usage_key inc = (d, k, operation)
      then Some (case usage_of d k operation db of None \<Rightarrow> inc | Some r \<Rightarrow> add_counts inc r)
      else usage_of d k operation db)"
  by (auto simp: usage_of_def upsert_daily_usage_def Let_def one_or_none_append
      one_or_none_upd_key [where key = daily_usage_key] split: option.split)

lemma usage_of_identity [simp]: "usage_of d k operation (upsert_identity now i db) = usage_of d k operation db"
  by (simp add: usage_of_def upsert_identity_def Let_def)

text \<open>The requests of a key and operation on a date, as the access log would count them.\<close>

record logged_request =
  lg_at :: datetime
  lg_identity :: api_key_identity
  lg_method :: string
  lg_operation :: string
  lg_status :: int

definition record_all :: "logged_request list \<Rightarrow> db \<Rightarrow> db" where
  "record_all = fold (\<lambda>q. record_key_request (lg_at q) (lg_identity q) (lg_method q) (lg_operation q) (lg_status q))"

definition counted :: "date \<Rightarrow> string \<Rightarrow> string \<Rightarrow> logged_request \<Rightarrow> bool" where
  "counted d k operation q \<longleftrightarrow>
     rollpig_today (lg_at q) = d \<and> key_id (lg_identity q) = k \<and> take 192 (lg_operation q) = operation"

definition totals :: "source_key_daily_usage option \<Rightarrow> int \<times> int \<times> int" where
  "totals u = (case u of None \<Rightarrow> (0, 0, 0)
     | Some r \<Rightarrow> (ku_authenticated_requests r, ku_successful_requests r, ku_failed_requests r))"

lemma record_one_totals:
  "totals (usage_of d k operation (record_key_request now i m op status db)) =
     (let (a, s, f) = totals (usage_of d k operation db)
      in if rollpig_today now = d \<and> key_id i = k \<and> take 192 op = operation
         then (a + 1, s + (if status < 400 then 1 else 0), f + (if status < 400 then 0 else 1)) else (a, s, f))"
  by (auto simp: record_key_request_def Let_def usage_of_upsert daily_usage_key_def no_counts_def totals_def
      add_counts_def split: option.split)

lemma record_all_totals:
  "totals (usage_of d k operation (record_all qs db)) =
     (let (a, s, f) = totals (usage_of d k operation db)
      in (a + int (length (filter (counted d k operation) qs)),
          s + int (length (filter (\<lambda>q. counted d k operation q \<and> lg_status q < 400) qs)),
          f + int (length (filter (\<lambda>q. counted d k operation q \<and> \<not> lg_status q < 400) qs))))"
proof (induction qs arbitrary: db)
  case (Cons q qs)
  obtain a s f where t: "totals (usage_of d k operation db) = (a, s, f)" by (metis surj_pair)
  have step: "totals (usage_of d k operation (record_key_request (lg_at q) (lg_identity q) (lg_method q)
        (lg_operation q) (lg_status q) db)) =
      (if counted d k operation q
       then (a + 1, s + (if lg_status q < 400 then 1 else 0), f + (if lg_status q < 400 then 0 else 1)) else (a, s, f))"
    by (simp add: record_one_totals t counted_def)
  have all: "record_all (q # qs) db = record_all qs (record_key_request (lg_at q) (lg_identity q) (lg_method q)
        (lg_operation q) (lg_status q) db)"
    by (simp add: record_all_def)
  show ?case unfolding all Cons.IH step t
    by (cases "counted d k operation q"; cases "lg_status q < 400") simp_all
qed (simp add: record_all_def split: prod.split)

subsection \<open>Properties\<close>

text \<open>The tokens the two settings configure; what \<open>parse_api_keys\<close> makes of them.\<close>

definition named_token :: "(string \<Rightarrow> json option) \<Rightarrow> string \<Rightarrow> string \<Rightarrow> string \<Rightarrow> bool" where
  "named_token json_loads named_raw raw_name token \<longleftrightarrow> strip named_raw \<noteq> [] \<and>
     (\<exists>items secret. json_loads named_raw = Some (JObj items) \<and> fmlookup items raw_name = Some (JStr secret) \<and> strip secret = token)"

definition configured_token :: "(string \<Rightarrow> json option) \<Rightarrow> string \<Rightarrow> string \<Rightarrow> string \<Rightarrow> bool" where
  "configured_token json_loads named_raw legacy_raw token \<longleftrightarrow> token \<noteq> [] \<and>
     ((\<exists>raw_name. named_token json_loads named_raw raw_name token) \<or> token \<in> strip ` set (split_on (CHR '','') legacy_raw))"

lemma add_named_keys_id:
  "add_named_keys digest items ids = Inr ids' \<Longrightarrow> (\<forall>t i. map_of ids t = Some i \<longrightarrow> key_id i = token_key_id digest t) \<Longrightarrow>
   map_of ids' token = Some i \<Longrightarrow> key_id i = token_key_id digest token"
proof (induction items arbitrary: ids)
  case (Cons item items)
  obtain n t where item: "item = (n, t)" by (cases item)
  obtain secret where s: "add_named_keys digest items (dict_put (strip secret)
       \<lparr>key_id = token_key_id digest (strip secret), key_name = strip n\<rparr> ids) = Inr ids'"
    using Cons.prems(1) unfolding item by (rule add_named_keys_step)
  show ?case by (rule Cons.IH [OF s _ Cons.prems(3)]) (use Cons.prems(2) in auto)
qed auto

lemma parsed_keys:
  assumes "parse_api_keys json_loads digest named_raw legacy_raw = Inr keys"
  shows "map_of keys token \<noteq> None \<longleftrightarrow> configured_token json_loads named_raw legacy_raw token"
    and "map_of keys token = Some i \<Longrightarrow> key_id i = token_key_id digest token"
    and "map_of keys token = Some i \<Longrightarrow> named_token json_loads named_raw raw_name token \<Longrightarrow>
      key_name i = strip raw_name \<and> good_name (key_name i)"
proof -
  define items where "items = (case json_loads named_raw of Some (JObj items) \<Rightarrow> items | _ \<Rightarrow> fmempty)"
  obtain ids where keys: "keys = fold (add_legacy_key digest) (split_on (CHR '','') legacy_raw) ids"
    and ids: "if strip named_raw = [] then ids = []
      else json_loads named_raw = Some (JObj items) \<and> add_named_keys digest (sorted_list_of_fmap items) [] = Inr ids"
    using assms by (auto simp: parse_api_keys_def Let_def items_def split: sum.splits if_splits option.splits json.splits)
  have list: "(n, t) \<in> set (sorted_list_of_fmap items) \<longleftrightarrow> fmlookup items n = Some t" for n t
    by (auto simp: sorted_list_of_fmap_def fmlookup_dom_iff)
  have named: "map_of ids token = Some \<lparr>key_id = token_key_id digest token, key_name = strip n\<rparr> \<and> good_name (strip n) \<and> token \<noteq> []"
    if n: "named_token json_loads named_raw n token" for n
  proof -
    from n obtain secret where secret: "fmlookup items n = Some (JStr secret)" "strip secret = token"
      and present: "strip named_raw \<noteq> []" by (auto simp: named_token_def items_def)
    with ids have "add_named_keys digest (sorted_list_of_fmap items) [] = Inr ids" by simp
    from add_named_keys_complete [OF this] secret list show ?thesis by fastforce
  qed
  have known: "key_id i = token_key_id digest token \<and> token \<noteq> [] \<and> (\<exists>n. named_token json_loads named_raw n token)"
    if i: "map_of ids token = Some i" for i
  proof (cases "strip named_raw = []")
    case False
    with ids have add: "add_named_keys digest (sorted_list_of_fmap items) [] = Inr ids"
      and obj: "json_loads named_raw = Some (JObj items)" by simp_all
    from add_named_keys_id [OF add _ i] add_named_keys_sound [OF add i] list obj False show ?thesis
      by (auto simp: named_token_def)
  qed (use ids i in simp)
  show "map_of keys token \<noteq> None \<longleftrightarrow> configured_token json_loads named_raw legacy_raw token"
    using known named unfolding keys map_of_legacy_fold configured_token_def
    by (cases "map_of ids token") force+
  show "map_of keys token = Some i \<Longrightarrow> key_id i = token_key_id digest token"
    using known unfolding keys map_of_legacy_fold by (auto split: option.splits if_splits)
  show "map_of keys token = Some i \<Longrightarrow> named_token json_loads named_raw raw_name token \<Longrightarrow>
      key_name i = strip raw_name \<and> good_name (key_name i)"
    using named unfolding keys map_of_legacy_fold by auto
qed

definition sample_keys :: "string \<Rightarrow> json option" where
  "sample_keys raw = (if raw = ''{}'' then Some (JObj (fmap_of_list [(''main'', JStr ''secret'')])) else None)"

lemma sample_keys_parsed:
  "parse_api_keys sample_keys id ''{}'' ''old, secret'' =
     Inr [(''secret'', \<lparr>key_id = ''key-secret'', key_name = ''main''\<rparr>), (''old'', \<lparr>key_id = ''key-old'', key_name = ''key-old''\<rparr>)]"
proof -
  have list: "sorted_list_of_fmap (fmupd ''main'' (JStr ''secret'') fmempty) = [(''main'', JStr ''secret'')]"
    by (simp add: sorted_list_of_fmap_def sorted_list_of_fset.rep_eq)
  have named: "add_named_keys id [(''main'', JStr ''secret'')] [] =
      Inr [(''secret'', \<lparr>key_id = ''key-secret'', key_name = ''main''\<rparr>)]" by code_simp
  have "strip ''{}'' \<noteq> []" by code_simp
  moreover have "fold (add_legacy_key id) (split_on (CHR '','') ''old, secret'') [(''secret'', \<lparr>key_id = ''key-secret'', key_name = ''main''\<rparr>)] =
      [(''secret'', \<lparr>key_id = ''key-secret'', key_name = ''main''\<rparr>), (''old'', \<lparr>key_id = ''key-old'', key_name = ''key-old''\<rparr>)]"
    by code_simp
  ultimately show ?thesis
    by (simp add: parse_api_keys_def sample_keys_def list named Let_def del: add_named_keys.simps)
qed

end
