(* ===== verification/Events.thy ===== *)
theory Events
  imports Reservations Keys
begin

section \<open>Roast events (\<^verbatim>\<open>services/events.py\<close>, \<^verbatim>\<open>routers/events.py\<close>, \<^verbatim>\<open>services/roast_statistics.py\<close>)\<close>

text \<open>
  The log of roasts: writing an event (at most once per reservation, with the identities of the
  reservation instead of the client's), listing the events of a date, and counting how often each
  user was roasted. \<open>now\<close> is the clock, from which the server's date and the row's
  \<open>created_at\<close> are taken; \<open>tenant\<close> and \<open>race\<close> are those of
  \<^const>\<open>apply_daily_feed\<close>.
\<close>

record event_create_request =
  er_event_type :: string
  er_attacker_id :: user_id
  er_target_id :: user_id
  er_attacker_name :: string
  er_target_name :: string
  er_food :: string
  er_group_id :: group_id
  er_date_str :: "date option"
  er_reservation_id :: string
  er_participant_ids :: "user_id list"
  er_participant_names :: "string list"
  er_participant_count :: int
  er_backfire_victim_id :: user_id
  er_backfire_victim_name :: string
  er_backfire_victim_ids :: "user_id list"
  er_backfire_victim_names :: "string list"
  er_special_reason :: string
  er_settle_daily_feed :: bool
  er_source_id :: string
  er_force_mode :: string
  er_protection_level :: int
  er_reservation_owner_id :: user_id
  er_reservation_owner_name :: string

subsection \<open>Writing an event\<close>

definition bind_reservation_event :: "reservation_item \<Rightarrow> event_create_request \<Rightarrow> event_create_request" where
  "bind_reservation_event item req =
     (let r = ri_reservation item;
          super = (rr_force_mode r = Some ''super'')
      in req\<lparr>
        er_date_str := Some (rr_date_str r),
        er_group_id := rr_group_id r,
        er_attacker_id := (if rr_force_operator_id r \<noteq> [] then rr_force_operator_id r else rr_owner_id r),
        er_attacker_name := (if rr_force_operator_name r \<noteq> [] then rr_force_operator_name r else rr_owner_name r),
        er_target_id := rr_target_id r,
        er_target_name := rr_target_name r,
        er_reservation_id := rr_reservation_id r,
        er_participant_ids := map rp_user_id (ri_participants item),
        er_participant_names := map rp_display_name (ri_participants item),
        er_participant_count := int (length (ri_participants item)),
        er_force_mode := str_or (rr_force_mode r) [],
        er_protection_level := max 0 (rr_protection_required r - 1),
        er_reservation_owner_id := (if super then rr_owner_id r else []),
        er_reservation_owner_name := (if super then rr_owner_name r else [])\<rparr>)"

definition empty_snapshot :: participant_snapshot where
  "empty_snapshot = \<lparr>ps_ids = None, ps_names = None, ps_count = None, ps_backfire_victim_id = None,
     ps_backfire_victim_name = None, ps_backfire_victim_ids = None, ps_backfire_victim_names = None,
     ps_special_reason = None, ps_force_mode = None, ps_protection_level = None,
     ps_reservation_owner_id = None, ps_reservation_owner_name = None\<rparr>"

definition snapshot_or_empty :: "participant_snapshot option \<Rightarrow> participant_snapshot" where
  "snapshot_or_empty s = (case s of None \<Rightarrow> empty_snapshot | Some x \<Rightarrow> x)"

text \<open>The three steps that build the column \<open>participant_snapshot\<close>.\<close>

definition reservation_snapshot :: "event_create_request \<Rightarrow> participant_snapshot option" where
  "reservation_snapshot req =
     (if er_reservation_id req = [] then None
      else
        let s = empty_snapshot\<lparr>ps_ids := Some (er_participant_ids req),
               ps_names := Some (er_participant_names req), ps_count := Some (er_participant_count req),
               ps_backfire_victim_id := Some (er_backfire_victim_id req),
               ps_backfire_victim_name := Some (er_backfire_victim_name req)\<rparr>
        in Some (if er_backfire_victim_ids req = [] then s
                 else s\<lparr>ps_backfire_victim_ids := Some (er_backfire_victim_ids req),
                        ps_backfire_victim_names := Some (er_backfire_victim_names req)\<rparr>))"

definition reason_snapshot :: "event_create_request \<Rightarrow> participant_snapshot option \<Rightarrow> participant_snapshot option" where
  "reason_snapshot req s =
     (if er_special_reason req = [] then s
      else Some ((snapshot_or_empty s)\<lparr>ps_special_reason := Some (er_special_reason req)\<rparr>))"

definition force_snapshot :: "event_create_request \<Rightarrow> participant_snapshot option \<Rightarrow> participant_snapshot option" where
  "force_snapshot req s =
     (if er_force_mode req = [] \<and> er_protection_level req = 0 \<and> er_backfire_victim_ids req = [] \<and>
         er_reservation_owner_id req = [] then s
      else Some ((snapshot_or_empty s)\<lparr>
        ps_force_mode := Some (er_force_mode req), ps_protection_level := Some (er_protection_level req),
        ps_reservation_owner_id := Some (er_reservation_owner_id req),
        ps_reservation_owner_name := Some (er_reservation_owner_name req),
        ps_backfire_victim_id := Some (er_backfire_victim_id req),
        ps_backfire_victim_name := Some (er_backfire_victim_name req),
        ps_backfire_victim_ids := Some (er_backfire_victim_ids req),
        ps_backfire_victim_names := Some (er_backfire_victim_names req)\<rparr>))"

definition event_snapshot :: "event_create_request \<Rightarrow> participant_snapshot option" where
  "event_snapshot req = force_snapshot req (reason_snapshot req (reservation_snapshot req))"

definition next_event_id :: "db \<Rightarrow> nat" where
  "next_event_id db = Suc (fold max (map ev_id (roast_events db)) 0)"

definition event_row :: "datetime \<Rightarrow> date \<Rightarrow> event_create_request \<Rightarrow> nat \<Rightarrow> roast_event" where
  "event_row now target_date req i =
     \<lparr>ev_id = i, ev_date_str = target_date, ev_group_id = er_group_id req,
      ev_event_type = er_event_type req, ev_attacker_id = er_attacker_id req,
      ev_target_id = er_target_id req, ev_attacker_name = er_attacker_name req,
      ev_target_name = er_target_name req, ev_food_name = er_food req,
      ev_reservation_id = er_reservation_id req, ev_participant_snapshot = event_snapshot req,
      ev_created_at = now\<rparr>"

definition event_active_users :: "event_create_request \<Rightarrow> user_id list" where
  "event_active_users req =
     er_attacker_id req # er_participant_ids req @
       (if er_event_type req \<noteq> ''bot_backfire'' then [er_target_id req] else [])"

text \<open>The insert and the activity of the group; the second half of the function.\<close>

definition insert_event :: "datetime \<Rightarrow> event_create_request \<Rightarrow> db \<Rightarrow> db" where
  "insert_event now req db =
     (let target_date = (case er_date_str req of Some d \<Rightarrow> d | None \<Rightarrow> rollpig_today now);
          db' = db\<lparr>roast_events := roast_events db @ [event_row now target_date req (next_event_id db)]\<rparr>
      in if er_group_id req \<noteq> []
         then mark_group_active_users now target_date (er_group_id req) (event_active_users req) db'
         else db')"

definition has_reservation_event :: "string \<Rightarrow> db \<Rightarrow> bool" where
  "has_reservation_event i db \<longleftrightarrow> (\<exists>e\<in>set (roast_events db). ev_reservation_id e = i)"

text \<open>The reservation whose identities the event takes: the caller's, or the stored one.\<close>

definition event_reservation ::
  "event_create_request \<Rightarrow> reservation_item option \<Rightarrow> db \<Rightarrow> reservation_item option" where
  "event_reservation req reservation db =
     (case reservation of
        Some item \<Rightarrow> Some item
      | None \<Rightarrow> map_option (\<lambda>row. reservation_to_schema row db) (get_reservation (er_reservation_id req) db))"

definition bound_event ::
  "event_create_request \<Rightarrow> reservation_item option \<Rightarrow> db \<Rightarrow> event_create_request" where
  "bound_event req reservation db =
     (if er_reservation_id req = [] then req
      else case event_reservation req reservation db of
             None \<Rightarrow> req | Some item \<Rightarrow> bind_reservation_event item req)"

definition record_roast_event_with_status ::
  "datetime \<Rightarrow> event_create_request \<Rightarrow> reservation_item option \<Rightarrow> db \<Rightarrow> db \<times> bool \<times> bool" where
  "record_roast_event_with_status now req reservation db =
     (if er_reservation_id req \<noteq> [] \<and> has_reservation_event (er_reservation_id req) db
      then (db, True, False)
      else (insert_event now (bound_event req reservation db) db, True, True))"

definition record_roast_event ::
  "datetime \<Rightarrow> event_create_request \<Rightarrow> reservation_item option \<Rightarrow> db \<Rightarrow> db \<times> bool" where
  "record_roast_event now req reservation db =
     (let (db', recorded, _) = record_roast_event_with_status now req reservation db in (db', recorded))"

text \<open>\<open>create_event\<close>; the answer is the settled feed, if any.\<close>

definition create_event_once ::
  "string \<Rightarrow> datetime \<Rightarrow> user_daily_feed option option \<Rightarrow> event_create_request \<Rightarrow> api_key_identity option \<Rightarrow>
   db \<Rightarrow> error + db \<times> daily_feed_result option" where
  "create_event_once tenant now race req identity db =
     (let (db1, recorded, created) = record_roast_event_with_status now req None db;
          settled = (if er_settle_daily_feed req \<and> er_source_id req \<noteq> [] \<and>
                        er_event_type req = ''success'' \<and> er_reservation_id req = []
                     then (case apply_daily_feed tenant now
                             (case er_date_str req of Some d \<Rightarrow> d | None \<Rightarrow> rollpig_today now)
                             (er_attacker_id req) ''roast'' (er_source_id req) race db1 of
                             Inl e \<Rightarrow> Inl e
                           | Inr (db2, fed) \<Rightarrow> Inr (db2, Some fed))
                     else Inr (db1, None))
      in case settled of
           Inl e \<Rightarrow> Inl e
         | Inr (db2, fed) \<Rightarrow>
             (case record_key_mutation_outcome now identity ''POST /v1/events''
                (no_mutation\<lparr>mc_created := of_bool created, mc_idempotent := of_bool (\<not> created)\<rparr>) db2 of
                Inl e \<Rightarrow> Inl e
              | Inr db3 \<Rightarrow> Inr (db3, fed)))"

definition create_event ::
  "dialect \<Rightarrow> string \<Rightarrow> datetime \<Rightarrow> user_daily_feed option option \<Rightarrow> event_create_request \<Rightarrow>
   api_key_identity option \<Rightarrow> (nat \<Rightarrow> db) \<Rightarrow> error + db \<times> daily_feed_result option" where
  "create_event dialect tenant now race req identity dbs =
     (let effective_req = req\<lparr>er_date_str :=
            Some (case er_date_str req of Some d \<Rightarrow> d | None \<Rightarrow> rollpig_today now)\<rparr>
      in run_transaction_with_sqlite_lock_retry dialect
           (\<lambda>attempt. create_event_once tenant now race effective_req identity (dbs attempt)))"

subsection \<open>Listing events\<close>

record event_item =
  ei_event_id :: nat
  ei_created_at :: py_datetime
  ei_type :: string
  ei_attacker :: user_id
  ei_target :: user_id
  ei_attacker_name :: string
  ei_target_name :: string
  ei_food :: string
  ei_group_id :: group_id
  ei_reservation_id :: string
  ei_participant_ids :: "user_id list"
  ei_participant_names :: "string list"
  ei_participant_count :: int
  ei_backfire_victim_id :: user_id
  ei_backfire_victim_name :: string
  ei_backfire_victim_ids :: "user_id list"
  ei_backfire_victim_names :: "string list"
  ei_special_reason :: string
  ei_force_mode :: string
  ei_protection_level :: int
  ei_reservation_owner_id :: user_id
  ei_reservation_owner_name :: string

definition or_else :: "'a option \<Rightarrow> 'a \<Rightarrow> 'a" where
  "or_else x d = (case x of None \<Rightarrow> d | Some v \<Rightarrow> v)"

definition event_to_item :: "dialect \<Rightarrow> roast_event \<Rightarrow> event_item" where
  "event_to_item dialect row =
     (let s = snapshot_or_empty (ev_participant_snapshot row)
      in \<lparr>ei_event_id = ev_id row,
          ei_created_at = database_datetime_for_response dialect (Naive (ev_created_at row)),
          ei_type = ev_event_type row, ei_attacker = ev_attacker_id row, ei_target = ev_target_id row,
          ei_attacker_name = ev_attacker_name row, ei_target_name = ev_target_name row,
          ei_food = ev_food_name row, ei_group_id = ev_group_id row,
          ei_reservation_id = ev_reservation_id row,
          ei_participant_ids = or_else (ps_ids s) [], ei_participant_names = or_else (ps_names s) [],
          ei_participant_count = or_else (ps_count s) 0,
          ei_backfire_victim_id = or_else (ps_backfire_victim_id s) [],
          ei_backfire_victim_name = or_else (ps_backfire_victim_name s) [],
          ei_backfire_victim_ids = or_else (ps_backfire_victim_ids s) [],
          ei_backfire_victim_names = or_else (ps_backfire_victim_names s) [],
          ei_special_reason = or_else (ps_special_reason s) [],
          ei_force_mode = or_else (ps_force_mode s) [],
          ei_protection_level = or_else (ps_protection_level s) 0,
          ei_reservation_owner_id = or_else (ps_reservation_owner_id s) [],
          ei_reservation_owner_name = or_else (ps_reservation_owner_name s) []\<rparr>)"

definition event_involves :: "user_id \<Rightarrow> roast_event \<Rightarrow> bool" where
  "event_involves u row \<longleftrightarrow>
     (let s = snapshot_or_empty (ev_participant_snapshot row)
      in ev_attacker_id row = u \<or> ev_target_id row = u \<or> u \<in> set (or_else (ps_ids s) []) \<or>
         or_else (ps_backfire_victim_id s) [] = u \<or> u \<in> set (or_else (ps_backfire_victim_ids s) []))"

definition list_events ::
  "dialect \<Rightarrow> int \<Rightarrow> date \<Rightarrow> group_id option \<Rightarrow> user_id option \<Rightarrow> py_datetime option \<Rightarrow> db \<Rightarrow> event_item list" where
  "list_events dialect tz date_str group_id user_id cutoff_at db =
     (let selected = filter (\<lambda>r. ev_date_str r = date_str \<and>
              (str_or group_id [] = [] \<or> ev_group_id r = str_or group_id []) \<and>
              (case cutoff_at of None \<Rightarrow> True
               | Some c \<Rightarrow> ev_created_at r \<le> database_cutoff_value dialect tz c)) (roast_events db);
          rows = sort_key ev_created_at (sort_key ev_id selected)
      in map (event_to_item dialect)
           (if str_or user_id [] = [] then rows else filter (event_involves (str_or user_id [])) rows))"

subsection \<open>Counting the roasted users\<close>

text \<open>
  An event as the statistics read it: any of its keys may be missing. Values are strings, so that
  \<open>str(...)\<close> is the identity.
\<close>

record event_mapping =
  em_date_str :: "string option"
  em_event_id :: "string option"
  em_type :: "string option"
  em_event_type :: "string option"
  em_attacker :: "string option"
  em_attacker_id :: "string option"
  em_target :: "string option"
  em_target_id :: "string option"
  em_group_id :: "string option"
  em_special_reason :: "string option"
  em_backfire_victim_ids :: "string list option"
  em_backfire_victim_id :: "string option"

definition em_kind :: "event_mapping \<Rightarrow> string" where
  "em_kind e = str_or (em_type e) (str_or (em_event_type e) [])"

definition em_attacker_of :: "event_mapping \<Rightarrow> string" where
  "em_attacker_of e = str_or (em_attacker e) (str_or (em_attacker_id e) [])"

definition em_target_of :: "event_mapping \<Rightarrow> string" where
  "em_target_of e = str_or (em_target e) (str_or (em_target_id e) [])"

text \<open>\<open>None\<close> is \<open>continue\<close>; otherwise the victims and the special kind.\<close>

definition em_victims :: "event_mapping \<Rightarrow> (string list \<times> string) option" where
  "em_victims e =
     (if em_kind e = ''success'' \<and> em_target_of e \<noteq> [] \<and> em_target_of e \<noteq> em_attacker_of e
      then Some ([em_target_of e], [])
      else if em_kind e = ''backfire'' \<or> em_kind e = ''bot_backfire'' then
        Some (if or_else (em_backfire_victim_ids e) [] \<noteq> [] then or_else (em_backfire_victim_ids e) []
              else [str_or (em_backfire_victim_id e) (em_attacker_of e)],
              if em_kind e = ''bot_backfire'' then ''bot''
              else if em_special_reason e = Some ''unrolled'' then ''unrolled'' else [])
      else None)"

text \<open>\<open>dict.fromkeys(item for item in victims if item)\<close>: the first occurrences, in order.\<close>

definition first_occurrences :: "string list \<Rightarrow> string list" where
  "first_occurrences xs = rev (remdups (rev (filter (\<lambda>x. x \<noteq> []) xs)))"

type_synonym special_key = "string \<times> string \<times> string \<times> string"

definition count_victim ::
  "string \<Rightarrow> string \<Rightarrow> string \<Rightarrow> string \<Rightarrow> int dict \<times> special_key list \<Rightarrow> int dict \<times> special_key list" where
  "count_victim date grp special_kind victim = (\<lambda>(counts, special_seen).
     if special_kind \<noteq> [] \<and> (date, grp, victim, special_kind) \<in> set special_seen then (counts, special_seen)
     else (dict_put victim (dict_get counts victim 0 + 1) counts,
           if special_kind \<noteq> [] then (date, grp, victim, special_kind) # special_seen else special_seen))"

definition count_event ::
  "event_mapping \<Rightarrow> int dict \<times> special_key list \<times> (string \<times> string) list \<Rightarrow>
   int dict \<times> special_key list \<times> (string \<times> string) list" where
  "count_event e = (\<lambda>(counts, special_seen, event_seen).
     let date = str_or (em_date_str e) [];
         event_id = str_or (em_event_id e) []
     in if event_id \<noteq> [] \<and> (date, event_id) \<in> set event_seen then (counts, special_seen, event_seen)
        else
          let event_seen' = (if event_id \<noteq> [] then (date, event_id) # event_seen else event_seen)
          in case em_victims e of
               None \<Rightarrow> (counts, special_seen, event_seen')
             | Some (victims, special_kind) \<Rightarrow>
                 let (counts', special_seen') =
                   fold (count_victim date (str_or (em_group_id e) []) special_kind)
                     (first_occurrences victims) (counts, special_seen)
                 in (counts', special_seen', event_seen'))"

definition count_roasted_users :: "event_mapping list \<Rightarrow> int dict" where
  "count_roasted_users events = fst (fold count_event events ([], [], []))"

subsection \<open>Facts about writing events\<close>

lemma bind_reservation_id [simp]:
  "er_reservation_id (bind_reservation_event item req) = rr_reservation_id (ri_reservation item)"
  by (simp add: bind_reservation_event_def Let_def)

lemma schema_reservation_id [simp]:
  "rr_reservation_id (ri_reservation (reservation_to_schema row db)) = rr_reservation_id row"
  by (simp add: reservation_to_schema_def)

lemma roast_events_mark [frame_simps]: "roast_events (mark_group_active_users now d g us db) = roast_events db"
  by (simp add: mark_group_active_users_def Let_def)

lemma insert_event_rows [simp]:
  "roast_events (insert_event now req db) = roast_events db @
     [event_row now (case er_date_str req of Some d \<Rightarrow> d | None \<Rightarrow> rollpig_today now) req (next_event_id db)]"
  by (simp add: insert_event_def Let_def frame_simps)

text \<open>The identifier that bounds the event: the one the client named, if the caller passed its row.\<close>

definition names_reservation :: "event_create_request \<Rightarrow> reservation_item option \<Rightarrow> bool" where
  "names_reservation req reservation \<longleftrightarrow>
     (case reservation of Some item \<Rightarrow> rr_reservation_id (ri_reservation item) = er_reservation_id req | None \<Rightarrow> True)"

lemma bound_event_id:
  "names_reservation req reservation \<Longrightarrow>
   er_reservation_id (bound_event req reservation db) = er_reservation_id req"
  by (auto simp: bound_event_def event_reservation_def names_reservation_def
      dest: get_reservation_SomeD split: option.splits)

definition events_of :: "string \<Rightarrow> db \<Rightarrow> roast_event list" where
  "events_of i db = filter (\<lambda>e. ev_reservation_id e = i) (roast_events db)"

lemma has_reservation_event_iff: "has_reservation_event i db \<longleftrightarrow> events_of i db \<noteq> []"
  by (auto simp: has_reservation_event_def events_of_def filter_empty_conv)

lemma event_row_sels [simp]:
  "ev_reservation_id (event_row now d req i) = er_reservation_id req" "ev_id (event_row now d req i) = i"
  "ev_date_str (event_row now d req i) = d" "ev_group_id (event_row now d req i) = er_group_id req"
  "ev_created_at (event_row now d req i) = now" "ev_attacker_id (event_row now d req i) = er_attacker_id req"
  "ev_target_id (event_row now d req i) = er_target_id req"
  "ev_participant_snapshot (event_row now d req i) = event_snapshot req"
  by (simp_all add: event_row_def)

lemma record_events_of:
  assumes "names_reservation req reservation" and "i \<noteq> []"
    and "record_roast_event_with_status now req reservation db = (db', recorded, created)"
  shows "length (events_of i db') = length (events_of i db) +
      of_bool (er_reservation_id req = i \<and> events_of i db = [])"
    and "er_reservation_id req = i \<Longrightarrow> created \<longleftrightarrow> events_of i db = []"
  using assms bound_event_id [OF assms(1), of db]
  by (auto simp: record_roast_event_with_status_def has_reservation_event_iff split: if_splits)
     (auto simp: events_of_def)

text \<open>Any calls, each with its clock, request and reservation; the answers \<open>created\<close>.\<close>

fun record_events :: "(datetime \<times> event_create_request \<times> reservation_item option) list \<Rightarrow> db \<Rightarrow> db \<times> bool list" where
  "record_events [] db = (db, [])"
| "record_events ((now, req, reservation) # calls) db =
     (let (db1, recorded, created) = record_roast_event_with_status now req reservation db;
          (db2, answers) = record_events calls db1
      in (db2, created # answers))"

lemma record_events_of_once:
  assumes "\<forall>(now, req, reservation)\<in>set calls. names_reservation req reservation \<and> er_reservation_id req = i"
    and "i \<noteq> []" and "record_events calls db = (db', answers)"
  shows "answers = (case calls of [] \<Rightarrow> [] | _ # later \<Rightarrow> (events_of i db = []) # replicate (length later) False) \<and>
         length (events_of i db') = (if calls = [] then length (events_of i db) else max 1 (length (events_of i db)))"
  using assms
proof (induction calls arbitrary: db db' answers)
  case Nil
  then show ?case by simp
next
  case (Cons call calls)
  obtain now req reservation where call: "call = (now, req, reservation)" by (metis surj_pair)
  obtain db1 recorded created where first:
    "record_roast_event_with_status now req reservation db = (db1, recorded, created)" by (metis surj_pair)
  obtain db2 rest where later: "record_events calls db1 = (db2, rest)" by (metis surj_pair)
  have res: "db' = db2" "answers = created # rest" using Cons.prems(3) by (auto simp: call first later)
  from Cons.prems(1) have names: "names_reservation req reservation" "er_reservation_id req = i"
    by (auto simp: call)
  note one = record_events_of [OF names(1) \<open>i \<noteq> []\<close> first]
  have ne: "events_of i db1 \<noteq> []" using one(1) names(2) by (cases "events_of i db1") auto
  have "rest = replicate (length calls) False \<and> length (events_of i db2) =
      (if calls = [] then length (events_of i db1) else max 1 (length (events_of i db1)))"
    using Cons.IH [of db1 db2 rest] Cons.prems(1,2) later ne by (auto split: list.splits)
  with one names(2) ne show ?case
    by (cases "events_of i db") (simp_all add: res max_def split: if_splits)
qed

text \<open>Repeating the write of a reservation's event changes nothing.\<close>

lemma record_event_again:
  assumes "er_reservation_id req \<noteq> []" and "names_reservation req reservation"
  shows "fst (record_roast_event_with_status now req reservation
           (fst (record_roast_event_with_status now req reservation db))) =
         fst (record_roast_event_with_status now req reservation db)"
  using assms bound_event_id [OF assms(2), of db]
  by (simp add: record_roast_event_with_status_def has_reservation_event_def)

interpretation event_retry: retry_safe
  "\<lambda>db. if er_reservation_id req \<noteq> [] \<and> names_reservation req reservation
         then record_roast_event_with_status now req reservation db else (db, False, False)" "\<lambda>_. True"
  for now req reservation
  by unfold_locales (simp_all add: record_event_again)

text \<open>
  C10: A reservation is logged once. Whatever calls name it, from the event endpoint or from the
  completion of the reservation, with whatever content, the log of a reservation that had no event
  holds exactly one afterwards; the first call answers that it created it, every later one that it did not.
\<close>

theorem reservation_logged_once:
  assumes "i \<noteq> []" and "events_of i db = []" and "calls \<noteq> []"
    and "\<forall>(now, req, reservation)\<in>set calls. names_reservation req reservation \<and> er_reservation_id req = i"
    and "record_events calls db = (db', answers)"
  shows "length (events_of i db') = 1 \<and> answers = True # replicate (length calls - 1) False"
  using record_events_of_once [OF assms(4,1,5)] assms(2,3) by (cases calls) simp_all

definition sample_event :: event_create_request where
  "sample_event = \<lparr>er_event_type = ''success'', er_attacker_id = ''a'', er_target_id = ''t'',
     er_attacker_name = ''A'', er_target_name = ''T'', er_food = ''bbq'', er_group_id = ''g'',
     er_date_str = Some 5, er_reservation_id = ''r'', er_participant_ids = [''a'', ''b''],
     er_participant_names = [''A'', ''B''], er_participant_count = 2, er_backfire_victim_id = [],
     er_backfire_victim_name = [], er_backfire_victim_ids = [], er_backfire_victim_names = [],
     er_special_reason = [], er_settle_daily_feed = False, er_source_id = [], er_force_mode = [],
     er_protection_level = 0, er_reservation_owner_id = [], er_reservation_owner_name = []\<rparr>"

theorem reservation_logged_once_witness:
  "length (events_of ''r'' (fst (record_events [(1, sample_event, None), (2, sample_event, None)] empty_db))) = 1"
proof -
  obtain db' answers where run:
    "record_events [(1, sample_event, None), (2, sample_event, None)] empty_db = (db', answers)" by (metis surj_pair)
  have "events_of ''r'' empty_db = []" by (simp add: events_of_def empty_db_def)
  moreover have "\<forall>(now, req, reservation)\<in>set [(1::int, sample_event, None), (2, sample_event, None)].
      names_reservation req reservation \<and> er_reservation_id req = ''r''"
    by (simp add: names_reservation_def sample_event_def)
  ultimately show ?thesis
    using reservation_logged_once [of "''r''" empty_db
        "[(1, sample_event, None), (2, sample_event, None)]" db' answers] run by simp
qed

subsection \<open>Listing\<close>

lemma item_of_reservation_event:
  assumes "er_reservation_id req \<noteq> []"
  shows "ei_participant_ids (event_to_item dialect (event_row now d req k)) = er_participant_ids req"
    and "ei_participant_names (event_to_item dialect (event_row now d req k)) = er_participant_names req"
    and "ei_participant_count (event_to_item dialect (event_row now d req k)) = er_participant_count req"
    and "ei_backfire_victim_ids (event_to_item dialect (event_row now d req k)) = er_backfire_victim_ids req"
    and "ei_backfire_victim_id (event_to_item dialect (event_row now d req k)) = er_backfire_victim_id req"
    and "ei_force_mode (event_to_item dialect (event_row now d req k)) = er_force_mode req"
    and "ei_protection_level (event_to_item dialect (event_row now d req k)) = er_protection_level req"
    and "ei_special_reason (event_to_item dialect (event_row now d req k)) = er_special_reason req"
    and "ei_reservation_owner_id (event_to_item dialect (event_row now d req k)) = er_reservation_owner_id req"
  using assms
  by (simp_all add: event_to_item_def event_row_def event_snapshot_def reservation_snapshot_def
      reason_snapshot_def force_snapshot_def snapshot_or_empty_def empty_snapshot_def or_else_def Let_def)

lemma item_of_event_columns:
  "ei_reservation_id (event_to_item dialect (event_row now d req k)) = er_reservation_id req"
  "ei_group_id (event_to_item dialect (event_row now d req k)) = er_group_id req"
  "ei_attacker (event_to_item dialect (event_row now d req k)) = er_attacker_id req"
  "ei_target (event_to_item dialect (event_row now d req k)) = er_target_id req"
  "ei_type (event_to_item dialect (event_row now d req k)) = er_event_type req"
  "ei_food (event_to_item dialect (event_row now d req k)) = er_food req"
  by (simp_all add: event_to_item_def event_row_def Let_def)

lemma set_list_events:
  "set (list_events dialect tz d g u None db) =
     event_to_item dialect ` {r \<in> set (roast_events db). ev_date_str r = d \<and>
       (str_or g [] = [] \<or> ev_group_id r = str_or g []) \<and>
       (str_or u [] = [] \<or> event_involves (str_or u []) r)}"
  by (auto simp: list_events_def Let_def)

lemma involves_item:
  "event_involves u r \<longleftrightarrow> (let i = event_to_item OtherDialect r in
     u \<in> {ei_attacker i, ei_target i, ei_backfire_victim_id i} \<union> set (ei_participant_ids i) \<union> set (ei_backfire_victim_ids i))"
  by (auto simp: event_involves_def event_to_item_def Let_def)

lemma record_unlogged:
  assumes "events_of (er_reservation_id req) db = []"
  shows "record_roast_event_with_status now req reservation db =
     (insert_event now (bound_event req reservation db) db, True, True)"
  using assms by (auto simp: record_roast_event_with_status_def has_reservation_event_iff)

text \<open>
  The event of a reservation carries the reservation's identities whatever the client claims, and
  the target, the attacker, every participant and every backfire victim find it in the listing of
  the reservation's date, with the outcome fields of the request.
\<close>

theorem reservation_event_listed:
  assumes "get_reservation i db = Some r" and "i \<noteq> []" and "er_reservation_id req = i"
    and "events_of i db = []"
    and "record_roast_event_with_status now req None db = (db', recorded, created)"
    and "u \<in> {rr_target_id r, er_backfire_victim_id req} \<union> rp_user_id ` set (locked_participants i db) \<union>
           set (er_backfire_victim_ids req)"
    and "g \<in> {None, Some (rr_group_id r)}"
  shows "\<exists>item\<in>set (list_events dialect tz (rr_date_str r) g (Some u) None db').
     ei_reservation_id item = i \<and> ei_group_id item = rr_group_id r \<and> ei_target item = rr_target_id r \<and>
     ei_attacker item = (if rr_force_operator_id r \<noteq> [] then rr_force_operator_id r else rr_owner_id r) \<and>
     ei_participant_ids item = map rp_user_id (locked_participants i db) \<and>
     ei_force_mode item = str_or (rr_force_mode r) [] \<and>
     ei_protection_level item = max 0 (rr_protection_required r - 1) \<and>
     ei_type item = er_event_type req \<and> ei_food item = er_food req \<and>
     ei_backfire_victim_ids item = er_backfire_victim_ids req"
proof -
  define bound where "bound = bind_reservation_event (reservation_to_schema r db) req"
  define row where "row = event_row now (rr_date_str r) bound (next_event_id db)"
  have id: "rr_reservation_id r = i" using assms(1) by (auto dest: get_reservation_SomeD)
  have "bound_event req None db = bound"
    using assms(1-3) by (simp add: bound_event_def event_reservation_def bound_def)
  then have db': "db' = insert_event now bound db"
    using assms(3,4,5) by (simp add: record_unlogged)
  have row_in: "row \<in> set (roast_events db')"
    by (simp add: db' row_def bound_def bind_reservation_event_def Let_def reservation_to_schema_def)
  have nz: "er_reservation_id bound \<noteq> []" using assms(2) id by (simp add: bound_def)
  note items = item_of_reservation_event [OF nz, of _ now "rr_date_str r" "next_event_id db", folded row_def]
    item_of_event_columns [of _ now "rr_date_str r" bound "next_event_id db", folded row_def]
  have fields: "er_reservation_id bound = i" "er_group_id bound = rr_group_id r" "er_target_id bound = rr_target_id r"
    "er_attacker_id bound = (if rr_force_operator_id r \<noteq> [] then rr_force_operator_id r else rr_owner_id r)"
    "er_participant_ids bound = map rp_user_id (locked_participants i db)"
    "er_force_mode bound = str_or (rr_force_mode r) []"
    "er_protection_level bound = max 0 (rr_protection_required r - 1)"
    "er_event_type bound = er_event_type req" "er_food bound = er_food req"
    "er_backfire_victim_ids bound = er_backfire_victim_ids req"
    "er_backfire_victim_id bound = er_backfire_victim_id req"
    using id by (simp_all add: bound_def bind_reservation_event_def Let_def reservation_to_schema_def)
  have "event_involves u row"
    using assms(6) by (auto simp: involves_item Let_def items fields)
  moreover have "str_or g [] = [] \<or> ev_group_id row = str_or g []"
    using assms(7) fields(2) by (auto simp: row_def str_or_def)
  moreover have "ev_date_str row = rr_date_str r" by (simp add: row_def)
  ultimately have "event_to_item dialect row \<in> set (list_events dialect tz (rr_date_str r) g (Some u) None db')"
    using row_in by (auto simp: set_list_events str_or_def)
  then show ?thesis by (rule bexI [rotated]) (simp add: items fields)
qed

theorem reservation_event_listed_witness:
  "\<exists>item\<in>set (list_events MySQL 0 5 None (Some ''t'') None
       (fst (record_roast_event_with_status 9 (sample_event\<lparr>er_target_id := ''forged''\<rparr>) None sample_db))).
     ei_target item = ''t'' \<and> ei_participant_ids item = [''a'']"
proof -
  obtain db' recorded created where run:
    "record_roast_event_with_status 9 (sample_event\<lparr>er_target_id := ''forged''\<rparr>) None sample_db = (db', recorded, created)"
    by (metis surj_pair)
  have "events_of ''r'' sample_db = []" by (simp add: events_of_def sample_db_def empty_db_def)
  moreover have "map rp_user_id (locked_participants ''r'' sample_db) = [''a'']"
    by (simp add: locked_participants_def sample_db_def owner_participant_def sample_prepare_def)
  ultimately show ?thesis
    using reservation_event_listed [OF sample_db_lookup _ _ _ run, of "''t''" None MySQL 0] run
    by (auto simp: sample_event_def)
qed

subsection \<open>The statistics\<close>

text \<open>Each identified event once, in order: what the statistics count.\<close>

fun identified_once :: "(string \<times> string) set \<Rightarrow> event_mapping list \<Rightarrow> event_mapping list" where
  "identified_once seen [] = []"
| "identified_once seen (e # es) =
     (let k = (str_or (em_date_str e) [], str_or (em_event_id e) [])
      in if snd k \<noteq> [] \<and> k \<in> seen then identified_once seen es
         else e # identified_once (if snd k \<noteq> [] then insert k seen else seen) es)"

definition hit :: "string \<Rightarrow> string \<Rightarrow> event_mapping \<Rightarrow> bool" where
  "hit u kind e \<longleftrightarrow> (\<exists>vs. em_victims e = Some (vs, kind) \<and> u \<noteq> [] \<and> u \<in> set vs)"

text \<open>The special punishments of a user: date, group and kind.\<close>

definition punishments :: "string \<Rightarrow> event_mapping list \<Rightarrow> special_key set" where
  "punishments u es =
     {(str_or (em_date_str e) [], str_or (em_group_id e) [], u, kind) |e kind. e \<in> set es \<and> kind \<noteq> [] \<and> hit u kind e}"

lemma first_occurrences [simp]:
  "set (first_occurrences xs) = {x \<in> set xs. x \<noteq> []}" "distinct (first_occurrences xs)"
  by (auto simp: first_occurrences_def)

lemma dict_get_put [simp]: "dict_get (dict_put k v d) u x = (if u = k then v else dict_get d u x)"
  by (simp add: dict_get_def)

lemma fold_count_victim:
  assumes "distinct vs" and "fold (count_victim d g kind) vs (counts, seen) = (counts', seen')"
  shows "dict_get counts' u 0 = dict_get counts u 0 +
           of_bool (u \<in> set vs \<and> (kind = [] \<or> (d, g, u, kind) \<notin> set seen)) \<and>
         set seen' = set seen \<union> (if kind = [] then {} else (\<lambda>v. (d, g, v, kind)) ` set vs)"
  using assms
proof (induction vs arbitrary: counts seen)
  case (Cons v vs)
  obtain c1 s1 where one: "count_victim d g kind v (counts, seen) = (c1, s1)" by (metis surj_pair)
  have step: "dict_get c1 u 0 = dict_get counts u 0 + of_bool (u = v \<and> (kind = [] \<or> (d, g, v, kind) \<notin> set seen))"
    "set s1 = set seen \<union> (if kind = [] then {} else {(d, g, v, kind)})"
    using one by (auto simp: count_victim_def split: if_splits)
  from Cons.prems one have "fold (count_victim d g kind) vs (c1, s1) = (counts', seen')" by simp
  with Cons.IH [of c1 s1] Cons.prems(1) step show ?case by auto
qed simp

lemma count_event_step:
  assumes "count_event e (counts, special, seen) = (counts', special', seen')"
    and "k = (str_or (em_date_str e) [], str_or (em_event_id e) [])"
  shows "snd k \<noteq> [] \<and> k \<in> set seen \<Longrightarrow> (counts', special', seen') = (counts, special, seen)"
    and "\<not> (snd k \<noteq> [] \<and> k \<in> set seen) \<Longrightarrow>
      set seen' = (if snd k \<noteq> [] then insert k (set seen) else set seen) \<and>
      dict_get counts' u 0 = dict_get counts u 0 + of_bool (hit u [] e) +
        int (card (punishments u [e] - set special)) \<and>
      set special' = set special \<union> (\<Union>v. punishments v [e])"
proof -
  show "snd k \<noteq> [] \<and> k \<in> set seen \<Longrightarrow> (counts', special', seen') = (counts, special, seen)"
    using assms by (auto simp: count_event_def Let_def)
next
  assume new: "\<not> (snd k \<noteq> [] \<and> k \<in> set seen)"
  define d where "d = str_or (em_date_str e) []"
  define g where "g = str_or (em_group_id e) []"
  have seen': "set seen' = (if snd k \<noteq> [] then insert k (set seen) else set seen)"
    using assms new by (auto simp: count_event_def Let_def split: option.splits prod.splits if_splits)
  show "set seen' = (if snd k \<noteq> [] then insert k (set seen) else set seen) \<and>
      dict_get counts' u 0 = dict_get counts u 0 + of_bool (hit u [] e) +
        int (card (punishments u [e] - set special)) \<and>
      set special' = set special \<union> (\<Union>v. punishments v [e])"
  proof (cases "em_victims e")
    case None
    then have "counts' = counts \<and> special' = special"
      using assms new by (auto simp: count_event_def Let_def split: if_splits)
    with None seen' show ?thesis by (simp add: hit_def punishments_def)
  next
    case (Some p)
    obtain vs kind where v: "em_victims e = Some (vs, kind)" using Some by (metis surj_pair)
    have "fold (count_victim d g kind) (first_occurrences vs) (counts, special) = (counts', special')"
      using assms new v by (auto simp: count_event_def Let_def d_def g_def split: prod.splits if_splits)
    note fc = fold_count_victim [OF first_occurrences(2) this, of u]
    have hit: "hit w c e \<longleftrightarrow> c = kind \<and> w \<noteq> [] \<and> w \<in> set vs" for w c using v by (auto simp: hit_def)
    have pun: "punishments w [e] = (if kind \<noteq> [] \<and> w \<noteq> [] \<and> w \<in> set vs then {(d, g, w, kind)} else {})" for w
      by (auto simp: punishments_def hit d_def g_def)
    show ?thesis using fc seen' by (auto simp: hit pun insert_Diff_if)
  qed
qed

lemma punishments_Cons: "punishments u (e # es) = punishments u [e] \<union> punishments u es"
  by (auto simp: punishments_def)

lemma finite_punishments [simp]: "finite (punishments u es)"
proof -
  have "punishments u es \<subseteq> (\<lambda>e. (str_or (em_date_str e) [], str_or (em_group_id e) [], u,
      case em_victims e of Some (vs, kind) \<Rightarrow> kind | None \<Rightarrow> [])) ` set es"
    by (auto simp: punishments_def hit_def image_iff split: option.splits)
  then show ?thesis by (rule finite_subset) simp
qed

lemma fold_count_events:
  assumes "fold count_event es (counts, special, seen) = (counts', special', seen')"
  shows "dict_get counts' u 0 = dict_get counts u 0 +
     int (length (filter (hit u []) (identified_once (set seen) es))) +
     int (card (punishments u (identified_once (set seen) es) - set special))"
  using assms
proof (induction es arbitrary: counts special seen)
  case Nil
  then show ?case by (simp add: punishments_def)
next
  case (Cons e es)
  obtain c1 p1 s1 where one: "count_event e (counts, special, seen) = (c1, p1, s1)" by (metis surj_pair)
  from Cons.prems one have "fold count_event es (c1, p1, s1) = (counts', special', seen')" by simp
  note IH = Cons.IH [OF this]
  define k where "k = (str_or (em_date_str e) [], str_or (em_event_id e) [])"
  note step = count_event_step [OF one k_def]
  show ?case
  proof (cases "snd k \<noteq> [] \<and> k \<in> set seen")
    case True
    with step(1) IH show ?thesis by (simp add: k_def)
  next
    case False
    define rest where "rest = identified_once (set s1) es"
    have once: "identified_once (set seen) (e # es) = e # rest"
      using False step(2) [OF False, of u] by (auto simp: k_def rest_def)
    have own: "punishments u rest - set p1 = punishments u rest - (set special \<union> punishments u [e])"
      using step(2) [OF False, of u] by (auto simp: punishments_def)
    have "punishments u (e # rest) - set special =
        (punishments u [e] - set special) \<union> (punishments u rest - (set special \<union> punishments u [e]))"
      unfolding punishments_Cons [of u e rest] by blast
    then have "card (punishments u (e # rest) - set special) =
        card (punishments u [e] - set special) + card (punishments u rest - set p1)"
      unfolding own by (simp add: card_Un_disjoint disjoint_iff)
    with IH step(2) [OF False, of u] show ?thesis unfolding once by (simp add: rest_def)
  qed
qed

lemma count_by_hits:
  "dict_get (count_roasted_users events) u 0 =
     int (length (filter (hit u []) (identified_once {} events))) +
     int (card (punishments u (identified_once {} events)))"
proof -
  obtain c p s where "fold count_event events ([], [], []) = (c, p, s)" by (metis surj_pair)
  with fold_count_events [OF this, of u] show ?thesis
    by (simp add: count_roasted_users_def dict_get_def)
qed

text \<open>
  C19: The statistics count a user exactly once for every identified event in which he was roasted or
  was an ordinary backfire victim, plus once for every distinct special punishment, whatever
  duplicates the list holds: punishments of the same date, group and kind count once.
\<close>

theorem roasted_users_exact:
  "dict_get (count_roasted_users events) u 0 =
     int (length (filter (hit u []) (identified_once {} events))) +
     int (card (punishments u (identified_once {} events)))"
  by (rule count_by_hits)

end
