(* ===== verification/Delivery.thy ===== *)
theory Delivery
  imports Events
begin

section \<open>Delivering reservations (\<^verbatim>\<open>routers/roast_reservations.py\<close>)\<close>

text \<open>
  The bot that owns a reservation claims it when it is ready, stores the outcome it has drawn, marks
  the message as being sent and completes it; a claim that is not followed up is handed out again
  after five minutes, unless the message may already have been sent. Every operation is a function
  from the database to the database and the answer; the relation \<open>reservation_step\<close> at the
  end collects all transactions that touch reservations.
\<close>

definition ROAST_RESERVATION_CLAIM_TIMEOUT :: int where
  "ROAST_RESERVATION_CLAIM_TIMEOUT = minutes 5"

record mutation_response =
  mu_ok :: bool
  mu_reservation :: "reservation_item option"
  mu_event_recorded :: bool

definition refused :: mutation_response where
  "refused = \<lparr>mu_ok = False, mu_reservation = None, mu_event_recorded = False\<rparr>"

definition accepted :: "roast_reservation \<Rightarrow> db \<Rightarrow> mutation_response" where
  "accepted row db = \<lparr>mu_ok = True, mu_reservation = Some (reservation_to_schema row db), mu_event_recorded = False\<rparr>"

subsection \<open>Messages and attempts\<close>

text \<open>\<open>bind_message\<close>: a request has exactly the columns of the row it writes.\<close>

definition find_message :: "string \<Rightarrow> group_id \<Rightarrow> string \<Rightarrow> db \<Rightarrow> roast_reservation_message option" where
  "find_message bot_id group_id message_id db =
     one_or_none (\<lambda>m. message_key m = (bot_id, group_id, message_id)) (roast_reservation_messages db)"

definition scoped_reservation :: "string \<Rightarrow> group_id \<Rightarrow> date \<Rightarrow> db \<Rightarrow> roast_reservation option" where
  "scoped_reservation i g d db =
     one_or_none (\<lambda>r. rr_reservation_id r = i \<and> rr_group_id r = g \<and> rr_date_str r = d) (roast_reservations db)"

definition bind_message :: "roast_reservation_message \<Rightarrow> db \<Rightarrow> db \<times> bool" where
  "bind_message req db =
     (case scoped_reservation (rm_reservation_id req) (rm_group_id req) (rm_date_str req) db of
        None \<Rightarrow> (db, False)
      | Some _ \<Rightarrow>
          (case find_message (rm_bot_id req) (rm_group_id req) (rm_message_id req) db of
             Some existing \<Rightarrow> (db, rm_reservation_id existing = rm_reservation_id req)
           | None \<Rightarrow>
               (db\<lparr>roast_reservation_messages :=
                     filter (\<lambda>m. \<not> rm_date_str m < rm_date_str req - 7) (roast_reservation_messages db) @ [req]\<rparr>,
                True)))"

record reply_join_request =
  rj_bot_id :: string
  rj_group_id :: group_id
  rj_message_id :: string
  rj_date_str :: date
  rj_attacker_id :: user_id
  rj_attacker_name :: string
  rj_protection_gathering_version :: int

definition mark_seen_in_group :: "datetime \<Rightarrow> date \<Rightarrow> group_id \<Rightarrow> user_id \<Rightarrow> pig_id \<Rightarrow> db \<Rightarrow> db" where
  "mark_seen_in_group now d g u p db =
     (if one_or_none (\<lambda>r. group_roll_key r = (d, g, u)) (group_rolls db) = None
      then db\<lparr>group_rolls := group_rolls db @
             [\<lparr>gr_date_str = d, gr_group_id = g, gr_user_id = u, gr_pig_id = p, gr_seen_at = now\<rparr>]\<rparr>
      else db)"

definition join_request :: "reply_join_request \<Rightarrow> roast_reservation \<Rightarrow> daily_roll \<Rightarrow> prepare_request" where
  "join_request req reservation roll =
     \<lparr>rq_attacker_id = rj_attacker_id req, rq_attacker_name = rj_attacker_name req,
      rq_attacker_pig_id = dr_pig_id roll, rq_target_id = rr_target_id reservation,
      rq_target_name = rr_target_name reservation, rq_group_id = rj_group_id req,
      rq_delivery_bot_id = rj_bot_id req, rq_force_mode = None, rq_date_str = rj_date_str req,
      rq_now_ts = None, rq_cooldown_seconds = None, rq_max_charges = None,
      rq_supports_protection_gathering = True,
      rq_protection_gathering_version = rj_protection_gathering_version req\<rparr>"

definition join_by_message_once ::
  "datetime \<Rightarrow> string \<Rightarrow> reply_join_request \<Rightarrow> db \<Rightarrow> error + db \<times> prepare_response" where
  "join_by_message_once now fresh req db =
     (if rj_date_str req \<noteq> rollpig_today now then Inr (db, answer ReservationClosed)
      else case find_message (rj_bot_id req) (rj_group_id req) (rj_message_id req) db of
        None \<Rightarrow> Inr (db, answer MessageNotFound)
      | Some binding \<Rightarrow>
          (case scoped_reservation (rm_reservation_id binding) (rj_group_id req) (rj_date_str req) db of
             None \<Rightarrow> Inr (db, answer ReservationClosed)
           | Some reservation \<Rightarrow>
               if rr_status reservation \<noteq> Pending then Inr (db, answer ReservationClosed)
               else if rr_target_id reservation = rj_attacker_id req then Inr (db, answer SelfTarget)
               else (case rolled_today (rj_date_str req) (rj_attacker_id req) db of
                 None \<Rightarrow> Inr (db, answer AttackerUnrolled)
               | Some roll \<Rightarrow>
                   (case prepare_reservation (join_request req reservation roll)
                           (Some (rr_reservation_id reservation)) now fresh db of
                      Inl e \<Rightarrow> Inl e
                    | Inr (db1, response) \<Rightarrow>
                        Inr (if pa_status response = ReservationJoined \<or> pa_status response = AlreadyJoined
                             then mark_seen_in_group now (rj_date_str req) (rj_group_id req)
                                    (rj_attacker_id req) (dr_pig_id roll) db1
                             else db1, response)))))"

definition join_by_message ::
  "dialect \<Rightarrow> datetime \<Rightarrow> string \<Rightarrow> reply_join_request \<Rightarrow> (nat \<Rightarrow> nat \<Rightarrow> db) \<Rightarrow> error + db \<times> prepare_response" where
  "join_by_message dialect now fresh req dbs =
     retry_message_transaction dialect (\<lambda>attempt k. join_by_message_once now fresh req (dbs attempt k))"

text \<open>\<open>record_unrolled_attempt\<close>; the insert fails when another transaction has inserted the row.\<close>

definition unrolled_attempt_once :: "date \<Rightarrow> user_id \<Rightarrow> bool \<Rightarrow> db \<Rightarrow> error + db \<times> int" where
  "unrolled_attempt_once d u raced db =
     (case one_or_none (\<lambda>r. attempt_key r = (d, u)) (unrolled_roast_attempts db) of
        None \<Rightarrow>
          if raced then Inl IntegrityError
          else Inr (db\<lparr>unrolled_roast_attempts := unrolled_roast_attempts db @
                 [\<lparr>ua_date_str = d, ua_user_id = u, ua_attempt_count = 1\<rparr>]\<rparr>, 1)
      | Some row \<Rightarrow>
          Inr (db\<lparr>unrolled_roast_attempts := upd_rows (\<lambda>r. attempt_key r = (d, u))
                 (\<lambda>r. r\<lparr>ua_attempt_count := ua_attempt_count r + 1\<rparr>) (unrolled_roast_attempts db)\<rparr>,
               ua_attempt_count row + 1))"

definition record_unrolled_attempt ::
  "date \<Rightarrow> user_id \<Rightarrow> (nat \<Rightarrow> bool) \<Rightarrow> (nat \<Rightarrow> db) \<Rightarrow> error + db \<times> int" where
  "record_unrolled_attempt d u raced dbs =
     retry_integrity ''unrolled roast attempt retry exhausted'' 2
       (\<lambda>k. unrolled_attempt_once d u (raced k) (dbs k))"

subsection \<open>Preparing\<close>

text \<open>
  The endpoint runs two transactions: the preparation, and a second one that looks at the target's
  roll again. \<open>between\<close> is what other transactions commit between the two.
\<close>

definition settles_activation :: "prepare_status \<Rightarrow> bool" where
  "settles_activation s \<longleftrightarrow> s \<in> {ReservationCreated, ReservationJoined, ReservationUpgraded, AlreadyJoined}"

definition settle_activation ::
  "prepare_request \<Rightarrow> datetime \<Rightarrow> prepare_response \<Rightarrow> db \<Rightarrow> db \<times> prepare_response" where
  "settle_activation req now response db =
     (if settles_activation (pa_status response) then
        let handled = (case pa_reservation response of
                Some item \<Rightarrow> rr_reservation_id (ri_reservation item) | None \<Rightarrow> []);
            db' = fst (activate_if_target_already_rolled now (rq_date_str req) (rq_target_id req) handled db)
        in (db', (case pa_reservation response of
              None \<Rightarrow> response
            | Some _ \<Rightarrow>
                (case get_reservation handled db' of
                   Some current \<Rightarrow> response\<lparr>pa_reservation := Some (reservation_to_schema current db')\<rparr>
                 | None \<Rightarrow> response)))
      else (db, response))"

definition prepare_once ::
  "prepare_request \<Rightarrow> datetime \<Rightarrow> string \<Rightarrow> (db \<Rightarrow> db) \<Rightarrow> db \<Rightarrow> error + db \<times> prepare_response" where
  "prepare_once req now fresh between db =
     (case prepare_reservation req None now fresh db of
        Inl e \<Rightarrow> Inl e
      | Inr (db1, response) \<Rightarrow> Inr (settle_activation req now response (between db1)))"

definition prepare_endpoint ::
  "prepare_request \<Rightarrow> datetime \<Rightarrow> (nat \<Rightarrow> string) \<Rightarrow> (db \<Rightarrow> db) \<Rightarrow> (nat \<Rightarrow> db) \<Rightarrow> error + db \<times> prepare_response" where
  "prepare_endpoint req now fresh between dbs =
     retry_integrity ''prepare roast reservation retry exhausted'' 2
       (\<lambda>k. prepare_once req now (fresh k) between (dbs k))"

subsection \<open>Claiming\<close>

definition owned :: "string \<Rightarrow> date \<Rightarrow> db \<Rightarrow> bool" where
  "owned delivery_bot_id date_str db \<longleftrightarrow>
     (\<exists>r\<in>set (roast_reservations db). rr_delivery_bot_id r = delivery_bot_id \<and> rr_date_str r = date_str \<and>
        rr_status r \<in> {Pending, Ready, Processing, Prepared})"

record claim_request =
  cl_delivery_bot_id :: string
  cl_date_str :: date
  cl_limit :: int
  cl_supports_prepared :: bool
  cl_supports_protection_gathering :: bool
  cl_protection_gathering_version :: int
  cl_excluded_reservation_ids :: "string list"
  cl_supports_waiting_notice :: bool

record claim_response =
  cp_items :: "reservation_item list"
  cp_has_owned :: bool
  cp_waiting_notices :: "reservation_item list"

definition claim_gathers :: "claim_request \<Rightarrow> bool" where
  "claim_gathers req \<longleftrightarrow> cl_supports_protection_gathering req \<and> 2 \<le> cl_protection_gathering_version req"

definition excluded_ids :: "claim_request \<Rightarrow> string list" where
  "excluded_ids req = filter (\<lambda>i. i \<noteq> []) (take 64 (cl_excluded_reservation_ids req))"

definition claim_limit :: "claim_request \<Rightarrow> nat" where
  "claim_limit req = nat (max 1 (min 12 (cl_limit req)))"

definition declare_capability :: "claim_request \<Rightarrow> db \<Rightarrow> db" where
  "declare_capability req db =
     (if claim_gathers req then
        db\<lparr>roast_reservations := upd_rows
             (\<lambda>r. rr_delivery_bot_id r = cl_delivery_bot_id req \<and> rr_date_str r = cl_date_str req \<and>
                  rr_status r \<in> {Pending, Ready} \<and> rr_delivery_gathering_version r < 2)
             (\<lambda>r. r\<lparr>rr_delivery_gathering_version := 2\<rparr>) (roast_reservations db)\<rparr>
      else db)"

definition stale :: "datetime \<Rightarrow> datetime option \<Rightarrow> bool" where
  "stale now claimed_at =
     (case claimed_at of None \<Rightarrow> True | Some t \<Rightarrow> t < now - ROAST_RESERVATION_CLAIM_TIMEOUT)"

definition claimable :: "datetime \<Rightarrow> roast_reservation \<Rightarrow> bool" where
  "claimable now r \<longleftrightarrow>
     rr_status r = Ready \<or> rr_status r \<in> {Processing, Prepared} \<and> stale now (rr_claimed_at r)"

definition claim_selects :: "claim_request \<Rightarrow> datetime \<Rightarrow> roast_reservation \<Rightarrow> bool" where
  "claim_selects req now r \<longleftrightarrow>
     rr_delivery_bot_id r = cl_delivery_bot_id req \<and> rr_date_str r = cl_date_str req \<and> claimable now r \<and>
     rr_reservation_id r \<notin> set (excluded_ids req) \<and>
     (claim_gathers req \<or> rr_protection_required r = 0 \<and> rr_force_operator_id r = [])"

definition lease :: "claim_request \<Rightarrow> datetime \<Rightarrow> (string \<Rightarrow> token) \<Rightarrow> roast_reservation \<Rightarrow> roast_reservation" where
  "lease req now fresh r =
     r\<lparr>rr_status := (if rr_outcome_snapshot r \<noteq> None
                     then (if cl_supports_prepared req then Prepared else Sending) else Processing),
       rr_claim_token := Some (fresh (rr_reservation_id r)), rr_claimed_at := Some now\<rparr>"

text \<open>Rows are rewritten by identifier; \<open>rewrite_selected\<close> is the loop over the selected rows.\<close>

definition rewrite_selected ::
  "roast_reservation list \<Rightarrow> (roast_reservation \<Rightarrow> roast_reservation) \<Rightarrow> db \<Rightarrow> db" where
  "rewrite_selected rows f db =
     db\<lparr>roast_reservations :=
          upd_rows (\<lambda>r. rr_reservation_id r \<in> set (map rr_reservation_id rows)) f (roast_reservations db)\<rparr>"

definition notice_due :: "claim_request \<Rightarrow> datetime \<Rightarrow> roast_reservation \<Rightarrow> bool" where
  "notice_due req now r \<longleftrightarrow>
     rr_delivery_bot_id r = cl_delivery_bot_id req \<and> rr_date_str r = cl_date_str req \<and>
     rr_status r = Pending \<and> rr_target_pig_id r \<noteq> [] \<and> 0 < rr_protection_required r \<and>
     rr_force_mode r \<noteq> Some ''super'' \<and>
     (case rr_waiting_notice r of
        None \<Rightarrow> False
      | Some n \<Rightarrow> wn_status n = NPending \<or>
          wn_status n = NProcessing \<and>
          (case wn_claimed_at n of None \<Rightarrow> False
           | Some t \<Rightarrow> t < now - ROAST_RESERVATION_CLAIM_TIMEOUT)) \<and>
     rr_reservation_id r \<notin> set (excluded_ids req)"

definition lease_notice :: "datetime \<Rightarrow> (string \<Rightarrow> token) \<Rightarrow> roast_reservation \<Rightarrow> roast_reservation" where
  "lease_notice now fresh r =
     r\<lparr>rr_waiting_notice := Some \<lparr>wn_status = NProcessing,
          wn_claim_token = Some (fresh (rr_reservation_id r)), wn_claimed_at = Some now\<rparr>\<rparr>"

definition claim_rows :: "claim_request \<Rightarrow> datetime \<Rightarrow> db \<Rightarrow> roast_reservation list" where
  "claim_rows req now db = take (claim_limit req) (filter (claim_selects req now) (roast_reservations db))"

definition notice_rows :: "claim_request \<Rightarrow> datetime \<Rightarrow> db \<Rightarrow> roast_reservation list" where
  "notice_rows req now db =
     (if cl_supports_waiting_notice req \<and> claim_gathers req
      then take (claim_limit req) (filter (notice_due req now) (roast_reservations db)) else [])"

definition claim ::
  "datetime \<Rightarrow> (string \<Rightarrow> token) \<Rightarrow> (string \<Rightarrow> token) \<Rightarrow> claim_request \<Rightarrow> db \<Rightarrow> db \<times> claim_response" where
  "claim now fresh fresh_notice req db =
     (let db1 = declare_capability req db;
          rows = claim_rows req now db1;
          db2 = rewrite_selected rows (lease req now fresh) db1;
          items = map (\<lambda>r. reservation_to_schema (lease req now fresh r) db2) rows;
          due = notice_rows req now db2;
          db3 = rewrite_selected due (lease_notice now fresh_notice) db2;
          notices = map (\<lambda>r.
              let item = reservation_to_schema (lease_notice now fresh_notice r) db3
              in item\<lparr>ri_reservation := (ri_reservation item)\<lparr>rr_claim_token :=
                   Some (fresh_notice (rr_reservation_id r))\<rparr>\<rparr>) due
      in (db3, \<lparr>cp_items = items, cp_has_owned = owned (cl_delivery_bot_id req) (cl_date_str req) db3,
                cp_waiting_notices = notices\<rparr>))"

text \<open>\<open>transition_waiting_notice\<close>.\<close>

datatype notice_action = NoticeSending | NoticeSent | NoticeRelease

definition next_notice :: "notice_action \<Rightarrow> waiting_notice \<Rightarrow> waiting_notice option" where
  "next_notice action notice =
     (if action = NoticeSending \<and> wn_status notice \<in> {NProcessing, NSending}
      then Some (notice\<lparr>wn_status := NSending\<rparr>)
      else if action = NoticeSent \<and> wn_status notice \<in> {NSending, NSent}
      then Some (notice\<lparr>wn_status := NSent\<rparr>)
      else if action = NoticeRelease \<and> wn_status notice = NProcessing then Some pending_notice
      else None)"

definition transition_waiting_notice ::
  "datetime \<Rightarrow> string \<Rightarrow> token \<Rightarrow> notice_action \<Rightarrow> db \<Rightarrow> db \<times> bool" where
  "transition_waiting_notice now i claim_token action db =
     (case get_reservation i db of
        None \<Rightarrow> (db, False)
      | Some row \<Rightarrow>
          if rr_status row \<noteq> Pending \<or> rr_date_str row \<noteq> rollpig_today now \<or> claim_token = [] then (db, False)
          else (case rr_waiting_notice row of
            None \<Rightarrow> (db, False)
          | Some notice \<Rightarrow>
              if wn_claim_token notice \<noteq> Some claim_token then (db, False)
              else (case next_notice action notice of
                None \<Rightarrow> (db, False)
              | Some notice' \<Rightarrow> (set_reservation (row\<lparr>rr_waiting_notice := Some notice'\<rparr>) db, True))))"

subsection \<open>Outcomes\<close>

record outcome_request =
  oc_reservation_id :: string
  oc_claim_token :: token
  oc_outcome_snapshot :: json_object
  oc_settle_daily_feed :: bool

text \<open>\<open>str(snapshot.get("event_type") or "") == "success"\<close>: only that string prints so.\<close>

definition outcome_succeeded :: "json_object \<Rightarrow> bool" where
  "outcome_succeeded snapshot \<longleftrightarrow> fmlookup snapshot ''event_type'' = Some (JStr ''success'')"

definition count_success :: "roast_reservation \<Rightarrow> json_object \<Rightarrow> db \<Rightarrow> db" where
  "count_success row snapshot db =
     (if rr_protection_required row \<noteq> 0 \<and> outcome_succeeded snapshot then
        (case get_protection (rr_date_str row) (rr_group_id row) (rr_target_id row) db of
           None \<Rightarrow> db
         | Some p \<Rightarrow> put_protection (p\<lparr>gp_roast_success_count := gp_roast_success_count p + 1\<rparr>) db)
      else db)"

definition settles_feeds :: "roast_reservation \<Rightarrow> outcome_request \<Rightarrow> bool" where
  "settles_feeds row req \<longleftrightarrow>
     oc_settle_daily_feed req \<and>
     (or_else (rr_force_feed_user_ids row) [] \<noteq> [] \<or>
      rr_force_mode row \<notin> {Some ''normal'', Some ''super''} \<or>
      rr_protection_required row \<noteq> 0 \<and> rr_force_mode row \<noteq> Some ''super'') \<and>
     outcome_succeeded (oc_outcome_snapshot req)"

definition eligible_to_feed :: "roast_reservation \<Rightarrow> roast_reservation_participant \<Rightarrow> bool" where
  "eligible_to_feed row p \<longleftrightarrow>
     (if rr_force_mode row = Some ''super'' then rp_user_id p \<in> set (or_else (rr_force_feed_user_ids row) [])
      else rr_protection_required row = 0 \<or> rp_contribution p = 1)"

text \<open>The feeds are settled in the order of the users and reported in the order of joining.\<close>

fun settle_feeds ::
  "string \<Rightarrow> datetime \<Rightarrow> date \<Rightarrow> string \<Rightarrow> (user_id \<Rightarrow> user_daily_feed option option) \<Rightarrow> user_id list \<Rightarrow>
   db \<Rightarrow> error + db \<times> (user_id \<times> daily_feed_result) list" where
  "settle_feeds tenant now d i race [] db = Inr (db, [])"
| "settle_feeds tenant now d i race (u # us) db =
     (case apply_daily_feed tenant now d u ''reservation'' i (race u) db of
        Inl e \<Rightarrow> Inl e
      | Inr (db1, fed) \<Rightarrow>
          (case settle_feeds tenant now d i race us db1 of
             Inl e \<Rightarrow> Inl e
           | Inr (db2, later) \<Rightarrow> Inr (db2, (u, fed) # later)))"

definition settle_outcome_feeds ::
  "string \<Rightarrow> datetime \<Rightarrow> (user_id \<Rightarrow> user_daily_feed option option) \<Rightarrow> outcome_request \<Rightarrow>
   roast_reservation \<Rightarrow> db \<Rightarrow> error + db \<times> daily_feed_result list" where
  "settle_outcome_feeds tenant now race req row db =
     (if settles_feeds row req then
        let eligible = map rp_user_id (filter (eligible_to_feed row) (locked_participants (rr_reservation_id row) db))
        in (case settle_feeds tenant now (rr_date_str row) (rr_reservation_id row) race (sort eligible) db of
              Inl e \<Rightarrow> Inl e
            | Inr (db', results) \<Rightarrow> Inr (db', List.map_filter (map_of results) eligible))
      else Inr (db, []))"

definition to_prepared :: "roast_reservation \<Rightarrow> roast_reservation" where
  "to_prepared row = (if rr_status row = Processing then row\<lparr>rr_status := Prepared\<rparr> else row)"

definition prepare_outcome_once ::
  "string \<Rightarrow> datetime \<Rightarrow> (user_id \<Rightarrow> user_daily_feed option option) \<Rightarrow> outcome_request \<Rightarrow> db \<Rightarrow>
   error + db \<times> mutation_response" where
  "prepare_outcome_once tenant now race req db =
     (case get_reservation (oc_reservation_id req) db of
        None \<Rightarrow> Inr (db, refused)
      | Some row \<Rightarrow>
          if rr_claim_token row \<noteq> Some (oc_claim_token req) \<or>
             rr_status row \<notin> {Processing, Prepared, Sending, Completed} then Inr (db, refused)
          else (case rr_outcome_snapshot row of
            Some stored \<Rightarrow>
              if stored \<noteq> oc_outcome_snapshot req then Inr (db, refused)
              else
                let row' = to_prepared row; db' = set_reservation row' db
                in Inr (db', accepted row' db')
          | None \<Rightarrow>
              if rr_status row \<noteq> Processing then Inr (db, refused)
              else
                (case settle_outcome_feeds tenant now race req row
                        (count_success row (oc_outcome_snapshot req) db) of
                   Inl e \<Rightarrow> Inl e
                 | Inr (db1, results) \<Rightarrow>
                     let row' = to_prepared (row\<lparr>rr_outcome_snapshot := Some (oc_outcome_snapshot req),
                                  rr_daily_feed_results := Some results\<rparr>);
                         db' = set_reservation row' db1
                     in Inr (db', accepted row' db'))))"

definition prepare_outcome ::
  "dialect \<Rightarrow> string \<Rightarrow> datetime \<Rightarrow> (user_id \<Rightarrow> user_daily_feed option option) \<Rightarrow> outcome_request \<Rightarrow>
   (nat \<Rightarrow> db) \<Rightarrow> error + db \<times> mutation_response" where
  "prepare_outcome dialect tenant now race req dbs =
     run_transaction_with_sqlite_lock_retry dialect
       (\<lambda>attempt. prepare_outcome_once tenant now race req (dbs attempt))"

text \<open>The old clients' endpoint: the stored outcome is sent at once.\<close>

definition save_outcome :: "outcome_request \<Rightarrow> db \<Rightarrow> db \<times> mutation_response" where
  "save_outcome req db =
     (case get_reservation (oc_reservation_id req) db of
        None \<Rightarrow> (db, refused)
      | Some row \<Rightarrow>
          if rr_claim_token row \<noteq> Some (oc_claim_token req) \<or>
             rr_status row \<notin> {Processing, Sending, Completed} then (db, refused)
          else if rr_outcome_snapshot row = None \<and> rr_status row \<noteq> Processing then (db, refused)
          else if rr_outcome_snapshot row \<noteq> None \<and> rr_outcome_snapshot row \<noteq> Some (oc_outcome_snapshot req)
            then (db, refused)
          else
            let row' = row\<lparr>rr_outcome_snapshot := Some (oc_outcome_snapshot req),
                  rr_status := (if rr_status row = Processing then Sending else rr_status row)\<rparr>;
                db' = set_reservation row' db
            in (db', accepted row' db'))"

subsection \<open>Sending, completing, releasing\<close>

definition mark_sending :: "string \<Rightarrow> token \<Rightarrow> db \<Rightarrow> db \<times> mutation_response" where
  "mark_sending i claim_token db =
     (case get_reservation i db of
        None \<Rightarrow> (db, refused)
      | Some row \<Rightarrow>
          if rr_claim_token row \<noteq> Some claim_token \<or> rr_status row \<notin> {Prepared, Sending, Completed} \<or>
             rr_outcome_snapshot row = None then (db, refused)
          else
            let row' = (if rr_status row = Prepared then row\<lparr>rr_status := Sending\<rparr> else row);
                db' = set_reservation row' db
            in (db', accepted row' db'))"

definition to_completed :: "datetime \<Rightarrow> roast_reservation \<Rightarrow> roast_reservation" where
  "to_completed now row =
     (if rr_status row \<noteq> Completed
      then row\<lparr>rr_status := Completed, rr_active_slot := None, rr_completed_at := Some now\<rparr> else row)"

definition complete ::
  "datetime \<Rightarrow> string \<Rightarrow> token \<Rightarrow> event_create_request option \<Rightarrow> db \<Rightarrow> db \<times> mutation_response" where
  "complete now i claim_token event db =
     (case get_reservation i db of
        None \<Rightarrow> (db, refused)
      | Some row \<Rightarrow>
          if rr_claim_token row \<noteq> Some claim_token \<or> rr_status row \<notin> {Sending, Completed} then (db, refused)
          else
            let row' = to_completed now row;
                db1 = set_reservation row' db;
                reservation_item = reservation_to_schema row' db1
            in (case event of
                  None \<Rightarrow> (db1, accepted row' db1)
                | Some ev \<Rightarrow>
                    let (db2, recorded) = record_roast_event now (bind_reservation_event reservation_item ev)
                          (Some reservation_item) db1
                    in (db2, \<lparr>mu_ok = True, mu_reservation = Some reservation_item,
                              mu_event_recorded = recorded\<rparr>)))"

definition release :: "string \<Rightarrow> token \<Rightarrow> db \<Rightarrow> db \<times> mutation_response" where
  "release i claim_token db =
     (case get_reservation i db of
        None \<Rightarrow> (db, refused)
      | Some row \<Rightarrow>
          if rr_claim_token row \<noteq> Some claim_token \<or> rr_status row \<notin> {Processing, Prepared} then (db, refused)
          else
            let row' = row\<lparr>rr_status := Ready, rr_claim_token := None, rr_claimed_at := None\<rparr>;
                db' = set_reservation row' db
            in (db', accepted row' db'))"

subsection \<open>Frames\<close>

lemma put_protection_frame [simp]:
  "roast_reservations (put_protection p db) = roast_reservations db"
  "roast_reservation_participants (put_protection p db) = roast_reservation_participants db"
  "user_daily_feeds (put_protection p db) = user_daily_feeds db"
  "roast_events (put_protection p db) = roast_events db"
  by (simp_all add: put_protection_def)

lemma count_success_frame [simp]:
  "roast_reservations (count_success row s db) = roast_reservations db"
  "roast_reservation_participants (count_success row s db) = roast_reservation_participants db"
  "roast_events (count_success row s db) = roast_events db"
  by (simp_all add: count_success_def split: option.split)

lemma feed_frame:
  assumes "apply_daily_feed tenant now d u source i race db = Inr (db', fed)"
  shows "roast_reservations db' = roast_reservations db \<and>
    roast_reservation_participants db' = roast_reservation_participants db \<and>
    roast_events db' = roast_events db \<and> group_protections db' = group_protections db"
  using assms
  by (auto simp: apply_daily_feed_def loaded_progress_def set_progress_def add_progress_def Let_def
      split: option.splits if_splits prod.splits)

lemma settle_feeds_frame:
  "settle_feeds tenant now d i race us db = Inr (db', fed) \<Longrightarrow>
   roast_reservations db' = roast_reservations db \<and>
   roast_reservation_participants db' = roast_reservation_participants db \<and>
   roast_events db' = roast_events db \<and> group_protections db' = group_protections db"
proof (induction us arbitrary: db fed)
  case (Cons u us)
  then show ?case by (auto split: sum.splits dest!: feed_frame)
qed simp

lemma settle_outcome_frame:
  "settle_outcome_feeds tenant now race req row db = Inr (db', results) \<Longrightarrow>
   roast_reservations db' = roast_reservations db \<and>
   roast_reservation_participants db' = roast_reservation_participants db \<and>
   roast_events db' = roast_events db \<and> group_protections db' = group_protections db"
  by (auto simp: settle_outcome_feeds_def Let_def dest!: settle_feeds_frame split: if_splits sum.splits)

lemma event_frame:
  "roast_reservations (fst (record_roast_event now req r db)) = roast_reservations db"
  "roast_reservation_participants (fst (record_roast_event now req r db)) = roast_reservation_participants db"
  by (simp_all add: record_roast_event_def record_roast_event_with_status_def insert_event_def Let_def frame_simps)

subsection \<open>Every operation keeps the invariant\<close>

lemma stored_row:
  assumes "reservations_wf db" and "get_reservation i db = Some row"
  shows "row \<in> set (roast_reservations db)" "reservation_ok row" "ripe db row" "rr_reservation_id row = i"
  using assms row_ok get_reservation_SomeD by blast+

text \<open>The writes of one row: what has to be shown of it.\<close>

definition good_write :: "db \<Rightarrow> roast_reservation \<Rightarrow> roast_reservation \<Rightarrow> bool" where
  "good_write db r r' \<longleftrightarrow> reservation_evolves r r' \<and> reservation_ok r' \<and> ripe db r'"

lemma write_effect:
  assumes "reservations_wf db" and "get_reservation i db = Some row" and "good_write db row row'"
  shows "reservation_effect db (set_reservation row' db)"
  using assms stored_row [OF assms(1,2)] by (auto simp: good_write_def intro: set_reservation_effect)

lemma write_after_frame_effect:
  assumes "reservations_wf db" and "get_reservation i db = Some row" and "good_write db row row'"
    and frame: "roast_reservations db1 = roast_reservations db"
      "roast_reservation_participants db1 = roast_reservation_participants db"
  shows "reservation_effect db (set_reservation row' db1)"
proof -
  have good: "good_write db1 row row'"
    using assms(3) by (simp add: good_write_def ripe_def reservations_wf_cong [OF frame])
  have "reservations_wf db1" and "get_reservation i db1 = Some row"
    using assms(1,2) by (simp_all add: reservations_wf_cong [OF frame])
  then have "reservation_effect db1 (set_reservation row' db1)" using good by (rule write_effect)
  with reservation_effect_frame [OF assms(1) frame] show ?thesis by (rule reservation_effect_trans)
qed

lemma good_write_same:
  "reservation_ok r \<Longrightarrow> ripe db r \<Longrightarrow> good_write db r r"
  by (simp add: good_write_def)

lemmas good_write_defs = good_write_def reservation_ok_def reservation_evolves_def ripe_def irrevocable_def

lemma good_lease:
  assumes "reservation_ok r" and "ripe db r" and "claimable now r"
  shows "good_write db r (lease req now fresh r)"
proof -
  have "rr_status r \<in> {Ready, Processing, Prepared}" using assms(3) by (auto simp: claimable_def)
  then show ?thesis
  proof (cases "rr_outcome_snapshot r")
    case None
    then have "lease req now fresh r = r\<lparr>rr_status := Processing,
        rr_claim_token := Some (fresh (rr_reservation_id r)), rr_claimed_at := Some now\<rparr>" by (simp add: lease_def)
    with None \<open>rr_status r \<in> _\<close> show ?thesis
      by (elim insertE emptyE) (use assms(1,2) in \<open>simp_all add: good_write_defs\<close>)
  next
    case (Some s)
    define r' where "r' st = r\<lparr>rr_status := st, rr_claim_token := Some (fresh (rr_reservation_id r)),
        rr_claimed_at := Some now\<rparr>" for st
    have "rr_status r \<noteq> Processing" using Some assms(1) by (auto simp: reservation_ok_def)
    with \<open>rr_status r \<in> _\<close> consider "rr_status r = Ready" | "rr_status r = Prepared" by auto
    then have "good_write db r (r' Prepared) \<and> good_write db r (r' Sending)"
    proof cases
      case 1
      from 1 Some assms(1,2) show ?thesis by (simp add: r'_def good_write_defs)
    next
      case 2
      from 2 Some assms(1,2) show ?thesis by (simp add: r'_def good_write_defs)
    qed
    with Some show ?thesis by (simp add: lease_def r'_def)
  qed
qed

lemma good_capability:
  assumes "reservation_ok r" and "ripe db r" and "rr_status r \<noteq> Completed"
  shows "good_write db r (r\<lparr>rr_delivery_gathering_version := v\<rparr>)"
  using assms by (simp add: good_write_defs)

lemma good_notice:
  assumes "reservation_ok r" and "ripe db r" and "rr_status r = Pending"
  shows "good_write db r (r\<lparr>rr_waiting_notice := w\<rparr>)"
  using assms by (simp add: good_write_def)

lemma good_outcome:
  assumes "reservation_ok r" and "ripe db r" and "rr_status r = Processing" and "rr_outcome_snapshot r = None"
  shows "good_write db r (to_prepared (r\<lparr>rr_outcome_snapshot := Some s, rr_daily_feed_results := f\<rparr>))"
    and "good_write db r (r\<lparr>rr_outcome_snapshot := Some s, rr_status := Sending\<rparr>)"
  using assms by (simp_all add: good_write_defs to_prepared_def)

lemma good_sending:
  assumes "reservation_ok r" and "ripe db r" and "rr_status r = Prepared"
  shows "good_write db r (r\<lparr>rr_status := Sending\<rparr>)"
  using assms by (simp add: good_write_defs)

lemma good_completed:
  assumes "reservation_ok r" and "ripe db r" and "rr_status r \<in> {Sending, Completed}"
  shows "good_write db r (to_completed now r)"
  using assms(3)
  by (elim insertE emptyE) (use assms(1,2) in \<open>simp_all add: good_write_defs to_completed_def\<close>)

lemma good_release:
  assumes "reservation_ok r" and "ripe db r" and "rr_status r \<in> {Processing, Prepared}"
  shows "good_write db r (r\<lparr>rr_status := Ready, rr_claim_token := None, rr_claimed_at := None\<rparr>)"
  using assms(3) by (elim insertE emptyE) (use assms(1,2) in \<open>simp_all add: good_write_defs\<close>)

lemma rewrite_effect:
  assumes wf: "reservations_wf db"
    and f: "\<And>r. r \<in> set (roast_reservations db) \<Longrightarrow> P r \<Longrightarrow> good_write db r (f r)"
  shows "reservation_effect db (db\<lparr>roast_reservations := upd_rows P f (roast_reservations db)\<rparr>)"
proof (rule map_reservations_effect [OF wf])
  show "db\<lparr>roast_reservations := upd_rows P f (roast_reservations db)\<rparr> =
      db\<lparr>roast_reservations := map (\<lambda>r. if P r then f r else r) (roast_reservations db)\<rparr>"
    by (simp add: upd_rows_def)
  fix r assume "r \<in> set (roast_reservations db)"
  then show "reservation_evolves r (if P r then f r else r) \<and> reservation_ok (if P r then f r else r) \<and>
      ripe db (if P r then f r else r)"
    using f [of r] row_ok [OF wf, of r] by (simp add: good_write_def)
qed

lemma rewrite_selected_effect:
  assumes wf: "reservations_wf db" and rows: "set rows \<subseteq> set (roast_reservations db)"
    and f: "\<And>r. r \<in> set rows \<Longrightarrow> good_write db r (f r)"
  shows "reservation_effect db (rewrite_selected rows f db)"
  unfolding rewrite_selected_def
proof (rule rewrite_effect [OF wf])
  fix r assume "r \<in> set (roast_reservations db)" "rr_reservation_id r \<in> set (map rr_reservation_id rows)"
  then obtain x where "x \<in> set rows" "rr_reservation_id x = rr_reservation_id r" by auto
  with rows wf \<open>r \<in> set (roast_reservations db)\<close> have "x = r"
    by (auto simp: reservations_wf_def dest: unique_onD)
  with f \<open>x \<in> set rows\<close> show "good_write db r (f r)" by simp
qed

lemma declare_capability_effect:
  assumes "reservations_wf db" shows "reservation_effect db (declare_capability req db)"
  using assms row_ok [OF assms]
  by (auto simp: declare_capability_def reservation_effect_frame intro!: rewrite_effect good_capability)

lemma claim_rows_sub:
  "set (claim_rows req now db) \<subseteq> {r \<in> set (roast_reservations db). claim_selects req now r}"
  "set (notice_rows req now db) \<subseteq> {r \<in> set (roast_reservations db). notice_due req now r}"
  by (auto simp: claim_rows_def notice_rows_def dest: in_set_takeD split: if_splits)

lemma claim_effect:
  assumes "reservations_wf db"
  shows "reservation_effect db (fst (claim now fresh fresh_notice req db))"
proof -
  define db1 where "db1 = declare_capability req db"
  define db2 where "db2 = rewrite_selected (claim_rows req now db1) (lease req now fresh) db1"
  have 1: "reservation_effect db db1" unfolding db1_def by (rule declare_capability_effect) (rule assms)
  note wf1 = reservation_effectD [OF 1]
  have 2: "reservation_effect db1 db2"
    unfolding db2_def using claim_rows_sub(1) [of req now db1] row_ok [OF wf1]
    by (intro rewrite_selected_effect [OF wf1] good_lease) (auto simp: claim_selects_def)
  note wf2 = reservation_effectD [OF 2]
  have "reservation_effect db2 (rewrite_selected (notice_rows req now db2) (lease_notice now fresh_notice) db2)"
    unfolding lease_notice_def using claim_rows_sub(2) [of req now db2] row_ok [OF wf2]
    by (intro rewrite_selected_effect [OF wf2] good_notice) (auto simp: notice_due_def)
  with 1 2 show ?thesis
    by (auto simp: claim_def Let_def db1_def [symmetric] db2_def [symmetric] intro: reservation_effect_trans)
qed

lemma transition_notice_effect:
  "reservations_wf db \<Longrightarrow> reservation_effect db (fst (transition_waiting_notice now i token action db))"
  by (auto simp: transition_waiting_notice_def reservation_effect_frame
      intro!: write_effect good_notice stored_row split: option.split)

lemma prepare_outcome_effect:
  assumes wf: "reservations_wf db"
    and call: "prepare_outcome_once tenant now race req db = Inr (db', resp)"
  shows "reservation_effect db db'"
proof (cases "get_reservation (oc_reservation_id req) db")
  case None
  with call wf show ?thesis by (auto simp: prepare_outcome_once_def reservation_effect_frame)
next
  case (Some row)
  note row = stored_row [OF wf Some]
  show ?thesis
  proof (cases "rr_outcome_snapshot row")
    case None
    with call Some wf row show ?thesis
      by (auto simp: prepare_outcome_once_def Let_def reservation_effect_frame
          intro!: write_after_frame_effect [OF wf Some] good_outcome(1)
          dest!: settle_outcome_frame split: if_splits sum.splits)
  next
    case (Some s)
    have "good_write db row (to_prepared row)"
      using row \<open>rr_outcome_snapshot row = Some s\<close>
      by (auto simp: to_prepared_def good_write_def reservation_ok_def)
    with call Some \<open>get_reservation _ _ = _\<close> wf show ?thesis
      by (auto simp: prepare_outcome_once_def Let_def reservation_effect_frame
          intro!: write_effect [OF wf] split: if_splits)
  qed
qed

lemma save_outcome_effect:
  assumes wf: "reservations_wf db" shows "reservation_effect db (fst (save_outcome req db))"
proof (cases "get_reservation (oc_reservation_id req) db")
  case None
  with wf show ?thesis by (auto simp: save_outcome_def reservation_effect_frame)
next
  case (Some row)
  note row = stored_row [OF wf Some]
  have same: "row\<lparr>rr_outcome_snapshot := Some s, rr_status := rr_status row\<rparr> = row"
    if "rr_outcome_snapshot row = Some s" for s using that by simp
  show ?thesis
    using Some wf row good_outcome(2) [OF row(2,3)] good_write_same [OF row(2,3)]
    by (cases "rr_status row = Processing")
       (auto simp: save_outcome_def Let_def reservation_effect_frame reservation_ok_def same
         intro!: write_effect [OF wf Some])
qed

lemma mark_sending_effect:
  assumes wf: "reservations_wf db" shows "reservation_effect db (fst (mark_sending i token db))"
  using wf
  by (auto simp: mark_sending_def Let_def reservation_effect_frame
      intro!: write_effect [OF wf] good_sending good_write_same stored_row split: option.split)

lemma complete_effect:
  assumes wf: "reservations_wf db" shows "reservation_effect db (fst (complete now i token event db))"
proof (cases "get_reservation i db")
  case None
  with wf show ?thesis by (simp add: complete_def reservation_effect_frame)
next
  case (Some row)
  note row = stored_row [OF wf Some]
  show ?thesis
  proof (cases "rr_claim_token row = Some token \<and> rr_status row \<in> {Sending, Completed}")
    case False
    with Some wf show ?thesis by (auto simp: complete_def reservation_effect_frame)
  next
    case True
    then have 1: "reservation_effect db (set_reservation (to_completed now row) db)"
      using row by (intro write_effect [OF wf Some] good_completed) auto
    then show ?thesis
      using True Some reservation_effect_frame [OF reservation_effectD [OF 1] event_frame]
      by (auto simp: complete_def Let_def split: option.split prod.split)
         (metis fst_conv reservation_effect_trans)+
  qed
qed

lemma release_effect:
  assumes wf: "reservations_wf db" shows "reservation_effect db (fst (release i token db))"
  using wf
  by (auto simp: release_def Let_def reservation_effect_frame
      intro!: write_effect [OF wf] good_release stored_row split: option.split)

subsection \<open>All transactions on reservations\<close>

lemma mark_seen_frame:
  "roast_reservations (mark_seen_in_group now d g u p db) = roast_reservations db"
  "roast_reservation_participants (mark_seen_in_group now d g u p db) = roast_reservation_participants db"
  by (simp_all add: mark_seen_in_group_def)

lemma join_by_message_effect:
  assumes wf: "reservations_wf db" and call: "join_by_message_once now fresh req db = Inr (db', resp)"
  shows "reservation_effect db db'"
proof (cases "db' = db")
  case True
  with wf show ?thesis by (simp add: reservation_effect_frame)
next
  case False
  then obtain reservation roll db1 where
    "prepare_reservation (join_request req reservation roll) (Some (rr_reservation_id reservation)) now fresh db = Inr (db1, resp)"
    and db': "db' = db1 \<or> db' = mark_seen_in_group now (rj_date_str req) (rj_group_id req) (rj_attacker_id req) (dr_pig_id roll) db1"
    using call by (auto simp: join_by_message_once_def split: if_splits option.splits sum.splits)
  then have 1: "reservation_effect db db1" using prepare_reservation_effect [OF wf] by blast
  with db' show ?thesis
    using reservation_effect_frame [OF reservation_effectD [OF 1] mark_seen_frame]
    by (blast intro: reservation_effect_trans)
qed

text \<open>
  One transaction: any of the operations above with any arguments, the activation by a daily roll,
  the synchronisation with a changed protection, or a transaction that writes neither table.
\<close>

inductive reservation_step :: "db \<Rightarrow> db \<Rightarrow> bool" where
  prepare: "prepare_reservation req expected now fresh db = Inr (db', resp) \<Longrightarrow> reservation_step db db'"
| join: "join_by_message_once now fresh reply db = Inr (db', resp) \<Longrightarrow> reservation_step db db'"
| arrival: "reservation_step db (fst (activate_target_reservations now d u p handled db))"
| recheck: "reservation_step db (fst (activate_if_target_already_rolled now d u handled db))"
| sync: "reservation_step db (sync_pending_protection now row removed g db)"
| claim: "reservation_step db (fst (claim now fresh_claim fresh_notice creq db))"
| notice: "reservation_step db (fst (transition_waiting_notice now i token action db))"
| outcome: "prepare_outcome_once tenant now race oreq db = Inr (db', mresp) \<Longrightarrow> reservation_step db db'"
| old_outcome: "reservation_step db (fst (save_outcome oreq db))"
| sending: "reservation_step db (fst (mark_sending i token db))"
| complete: "reservation_step db (fst (complete now i token event db))"
| release: "reservation_step db (fst (release i token db))"
| other: "roast_reservations db' = roast_reservations db \<Longrightarrow>
    roast_reservation_participants db' = roast_reservation_participants db \<Longrightarrow> reservation_step db db'"

inductive_cases reservation_stepE: "reservation_step db db'"

lemma reservation_step_effect:
  assumes "reservation_step db db'" and wf: "reservations_wf db"
  shows "reservation_effect db db'"
  using assms(1)
proof cases
  case prepare
  with wf show ?thesis by (auto intro: prepare_reservation_effect)
next
  case join
  with wf show ?thesis by (auto intro: join_by_message_effect)
next
  case outcome
  with wf show ?thesis by (auto intro: prepare_outcome_effect)
next
  case other
  with wf show ?thesis by (simp add: reservation_effect_frame)
qed (use wf in \<open>simp_all add: activate_target_effect activate_if_rolled_effect sync_effect claim_effect
      transition_notice_effect save_outcome_effect mark_sending_effect complete_effect release_effect\<close>)

lemma reservation_steps_effect:
  "reservation_step\<^sup>*\<^sup>* db db' \<Longrightarrow> reservations_wf db \<Longrightarrow> reservation_effect db db'"
proof (induction rule: rtranclp_induct)
  case base
  then show ?case by (simp add: reservation_effect_frame)
next
  case (step db1 db2)
  then have "reservation_effect db db1" by simp
  with step.hyps(2) show ?case
    by (blast intro: reservation_effect_trans reservation_step_effect dest: reservation_effectD)
qed

lemma empty_wf: "reservations_wf empty_db"
  by (simp add: reservations_wf_def empty_db_def one_active_def participants_wf_def locked_participants_def)

lemma reachable_wf: "reservation_step\<^sup>*\<^sup>* empty_db db \<Longrightarrow> reservations_wf db"
  using reservation_steps_effect [OF _ empty_wf] by (auto dest: reservation_effectD)

lemma prepare_once_steps:
  assumes "prepare_once req now fresh between db = Inr (db', resp)" and "\<And>db. reservation_step\<^sup>*\<^sup>* db (between db)"
  shows "reservation_step\<^sup>*\<^sup>* db db'"
proof -
  obtain db1 resp1 where 1: "prepare_reservation req None now fresh db = Inr (db1, resp1)"
    and 2: "settle_activation req now resp1 (between db1) = (db', resp)"
    using assms(1) by (auto simp: prepare_once_def split: sum.splits)
  have "reservation_step\<^sup>*\<^sup>* (between db1) db'"
    using 2 by (auto simp: settle_activation_def Let_def intro: recheck split: if_splits)
  with prepare [OF 1] assms(2) [of db1] show ?thesis
    by (meson converse_rtranclp_into_rtranclp rtranclp_trans)
qed

end
