(* ===== verification/ProtectionGrants.thy ===== *)
theory ProtectionGrants
  imports Delivery
begin

section \<open>Granting and replacing protections (\<^verbatim>\<open>routers/protections.py\<close>)\<close>

text \<open>
  The writers of the protections: a manual grant for one user, and the daily list of a group, which
  adds a daily source to the listed users and takes it from the others while their other sources stay.
  Both keep the waiting reservations in step with \<open>sync_pending_protection\<close>. The writes that
  only take the SQLite lock (\<open>base_level = base_level\<close>) change nothing and are left out.
\<close>

record grant_request =
  gq_group_id :: group_id
  gq_user_id :: user_id
  gq_level :: int
  gq_protect_date :: date

record grant_response =
  gs_level :: int
  gs_changed :: bool

subsection \<open>Grants\<close>

text \<open>The row to be changed: the group's own, a copy of the global one, or a new one.\<close>

definition granted_new :: "grant_request \<Rightarrow> group_protection" where
  "granted_new req =
     \<lparr>gp_protect_date = gq_protect_date req, gp_group_id = gq_group_id req, gp_user_id = gq_user_id req,
      gp_roast_success_count = 0, gp_source_levels = Some [(''manual'', gq_level req)],
      gp_source_baselines = None, gp_base_level = gq_level req, gp_consecutive_days = 0\<rparr>"

text \<open>Raising the manual source of an existing row.\<close>

definition raise_manual :: "int \<Rightarrow> group_protection \<Rightarrow> group_protection" where
  "raise_manual level row =
     (let raised = (dict_get (protection_levels row) ''manual'' 0 < level);
          sources = (if raised then dict_put ''manual'' level (protection_sources row) else protection_sources row);
          baselines = (if raised then dict_put ''manual'' (gp_roast_success_count row) (source_baselines row)
                       else source_baselines row)
      in row\<lparr>gp_source_levels := Some sources, gp_source_baselines := Some baselines,
             gp_base_level := max_default (map snd sources)\<rparr>)"

definition same_sources :: "int dict option \<Rightarrow> int dict option \<Rightarrow> bool" where
  "same_sources a b =
     (case (a, b) of (None, None) \<Rightarrow> True | (Some x, Some y) \<Rightarrow> dict_eq x y | _ \<Rightarrow> False)"

definition granted_row :: "grant_request \<Rightarrow> db \<Rightarrow> group_protection \<times> bool" where
  "granted_row req db =
     (case get_protection (gq_protect_date req) (gq_group_id req) (gq_user_id req) db of
        Some row \<Rightarrow> (raise_manual (gq_level req) row, protection_level row < gq_level req)
      | None \<Rightarrow>
          (case get_protection (gq_protect_date req) GLOBAL_GROUP (gq_user_id req) db of
             Some legacy \<Rightarrow>
               let row = inherit_global_protection legacy (gq_group_id req)
               in (raise_manual (gq_level req) row, protection_level row < gq_level req)
           | None \<Rightarrow> (granted_new req, True)))"

definition grant_once ::
  "datetime \<Rightarrow> api_key_identity option \<Rightarrow> grant_request \<Rightarrow> db \<Rightarrow> error + db \<times> grant_response" where
  "grant_once now identity req db =
     (if gq_protect_date req \<noteq> rollpig_today now then Inl (HTTPException 422)
      else
        let (row, changed) = granted_row req db;
            old = get_protection (gq_protect_date req) (gq_group_id req) (gq_user_id req) db;
            created = (old = None);
            kept = (case old of None \<Rightarrow> False | Some r \<Rightarrow> same_sources (gp_source_levels r) (gp_source_levels row));
            db1 = sync_pending_protection now row False None (put_protection row db)
        in case record_key_mutation_outcome now identity ''POST /v1/protections/grant''
                  (no_mutation\<lparr>mc_created := of_bool created, mc_updated := of_bool (\<not> created \<and> \<not> kept),
                     mc_idempotent := of_bool (\<not> created \<and> kept)\<rparr>) db1 of
             Inl e \<Rightarrow> Inl e
           | Inr db2 \<Rightarrow> Inr (db2, \<lparr>gs_level = protection_level row, gs_changed = changed\<rparr>))"

definition grant_protection ::
  "dialect \<Rightarrow> datetime \<Rightarrow> api_key_identity option \<Rightarrow> grant_request \<Rightarrow> (nat \<Rightarrow> nat \<Rightarrow> db) \<Rightarrow>
   error + db \<times> grant_response" where
  "grant_protection dialect now identity req dbs =
     run_protection_transaction dialect (\<lambda>round attempt. grant_once now identity req (dbs round attempt))"

subsection \<open>The daily list of a group\<close>

record replace_request =
  rg_group_id :: group_id
  rg_user_ids :: "user_id list"
  rg_protect_date :: date
  rg_initial_level :: int

definition protections_of :: "date \<Rightarrow> group_id \<Rightarrow> db \<Rightarrow> group_protection list" where
  "protections_of d g db = filter (\<lambda>r. gp_protect_date r = d \<and> gp_group_id r = g) (group_protections db)"

definition global_protection :: "replace_request \<Rightarrow> user_id \<Rightarrow> db \<Rightarrow> group_protection option" where
  "global_protection req u db =
     (if rg_group_id req = GLOBAL_GROUP then None
      else get_protection (rg_protect_date req) GLOBAL_GROUP u db)"

text \<open>What is left of a row that loses its daily source.\<close>

definition remaining_sources :: "group_protection \<Rightarrow> group_protection option \<Rightarrow> int dict \<times> int dict" where
  "remaining_sources row legacy =
     (let historical_daily = is_historical_daily_protection row;
          sources = dict_pop ''daily'' (protection_sources row);
          sources = (if historical_daily then dict_pop ''legacy'' sources else sources);
          baselines = source_baselines row
      in case legacy of
           None \<Rightarrow> (dict_pop ''legacy'' sources, baselines)
         | Some g \<Rightarrow>
             let inherited_level = (if historical_daily then 0 else dict_get (protection_levels row) ''legacy'' 0);
                 global_level = protection_level g
             in if inherited_level < global_level
                then (dict_put ''legacy'' global_level sources, dict_put ''legacy'' (gp_roast_success_count row) baselines)
                else (sources, baselines))"

definition reduced_row :: "group_protection \<Rightarrow> int dict \<Rightarrow> int dict \<Rightarrow> group_protection" where
  "reduced_row row sources baselines =
     row\<lparr>gp_source_levels := Some sources,
         gp_source_baselines := Some (filter (\<lambda>(s, _). map_of sources s \<noteq> None) baselines),
         gp_base_level := max_default (map snd sources), gp_consecutive_days := 0\<rparr>"

definition remove_daily ::
  "datetime \<Rightarrow> replace_request \<Rightarrow> group_protection \<Rightarrow> db \<times> int \<Rightarrow> db \<times> int" where
  "remove_daily now req row = (\<lambda>(db, deleted).
     let (sources, baselines) = remaining_sources row (global_protection req (gp_user_id row) db)
     in if sources \<noteq> [] then
          let row' = reduced_row row sources baselines
          in (sync_pending_protection now row' False None (put_protection row' db), deleted)
        else (delete_protection row (sync_pending_protection now row True None db), deleted + 1))"

text \<open>The row a listed user gets; \<open>None\<close> leaves the stored one as it is.\<close>

definition daily_row ::
  "replace_request \<Rightarrow> user_id \<Rightarrow> group_protection option \<Rightarrow> group_protection option \<Rightarrow> group_protection option" where
  "daily_row req u row yesterday =
     (let sources = (case row of None \<Rightarrow> [] | Some r \<Rightarrow> protection_sources r);
          baselines = (case row of None \<Rightarrow> [] | Some r \<Rightarrow> source_baselines r);
          previous_days = (case yesterday of None \<Rightarrow> 0 | Some y \<Rightarrow> gp_consecutive_days y);
          first_days = (if previous_days \<noteq> 0 then previous_days + 1 else 1);
          fresh = \<lparr>gp_protect_date = rg_protect_date req, gp_group_id = rg_group_id req, gp_user_id = u,
             gp_roast_success_count = 0, gp_source_levels = None, gp_source_baselines = None,
             gp_base_level = 0, gp_consecutive_days = 0\<rparr>;
          base = (case row of None \<Rightarrow> fresh | Some r \<Rightarrow> r)
      in if map_of sources ''daily'' \<noteq> None then None
         else
           let (sources', baselines', days) =
             (if row \<noteq> None \<and> is_historical_daily_protection base then
                (dict_put ''daily'' (dict_get sources ''legacy'' 0) (dict_pop ''legacy'' sources),
                 dict_put ''daily'' (dict_get baselines ''legacy'' 0) (dict_pop ''legacy'' baselines),
                 gp_consecutive_days base)
              else
                (dict_put ''daily'' (min 5 (rg_initial_level req + first_days - 1)) sources,
                 dict_put ''daily'' (gp_roast_success_count base) baselines, first_days))
           in Some (base\<lparr>gp_source_levels := Some sources', gp_source_baselines := Some baselines',
                        gp_base_level := max_default (map snd sources'), gp_consecutive_days := days\<rparr>))"

definition grant_daily :: "datetime \<Rightarrow> replace_request \<Rightarrow> user_id \<Rightarrow> db \<Rightarrow> db" where
  "grant_daily now req u db =
     (let stored = get_protection (rg_protect_date req) (rg_group_id req) u db;
          row = (case stored of
                   Some r \<Rightarrow> Some r
                 | None \<Rightarrow> map_option (\<lambda>legacy. inherit_global_protection legacy (rg_group_id req))
                             (global_protection req u db));
          yesterday = get_protection (rg_protect_date req - 1) (rg_group_id req) u db
      in case daily_row req u row yesterday of
           None \<Rightarrow> db
         | Some row' \<Rightarrow> sync_pending_protection now row' False None (put_protection row' db))"

definition replace_group_once ::
  "datetime \<Rightarrow> api_key_identity option \<Rightarrow> replace_request \<Rightarrow> db \<Rightarrow> error + db" where
  "replace_group_once now identity req db =
     (let current = protections_of (rg_protect_date req) (rg_group_id req) db;
          user_ids = sorted_ids (rg_user_ids req);
          removed = filter (\<lambda>r. gp_user_id r \<notin> set user_ids) current;
          (db1, deleted) = fold (remove_daily now req) removed (db, 0);
          db2 = fold (grant_daily now req) user_ids db1
      in record_key_mutation_outcome now identity ''POST /v1/protections/replace-group''
           (no_mutation\<lparr>mc_created := int (length (filter (\<lambda>u. u \<notin> gp_user_id ` set current) user_ids)),
              mc_deleted := deleted\<rparr>) db2)"

definition replace_group ::
  "dialect \<Rightarrow> datetime \<Rightarrow> api_key_identity option \<Rightarrow> replace_request \<Rightarrow> (nat \<Rightarrow> nat \<Rightarrow> db) \<Rightarrow> error + db" where
  "replace_group dialect now identity req dbs =
     run_protection_transaction dialect (\<lambda>round attempt. replace_group_once now identity req (dbs round attempt))"

subsection \<open>Checking\<close>

record protected_response =
  pc_protected :: bool
  pc_base_level :: int
  pc_level :: int
  pc_consecutive_days :: int
  pc_source :: string
  pc_daily_base_level :: int

definition check_protected :: "date \<Rightarrow> group_id \<Rightarrow> user_id \<Rightarrow> db \<Rightarrow> protected_response" where
  "check_protected d g u db =
     (case (case get_protection d g u db of
              Some r \<Rightarrow> Some r | None \<Rightarrow> get_protection d GLOBAL_GROUP u db) of
        None \<Rightarrow> \<lparr>pc_protected = False, pc_base_level = 0, pc_level = 0, pc_consecutive_days = 0,
                 pc_source = ''legacy'', pc_daily_base_level = 0\<rparr>
      | Some row \<Rightarrow> \<lparr>pc_protected = True, pc_base_level = gp_base_level row, pc_level = protection_level row,
                 pc_consecutive_days = gp_consecutive_days row, pc_source = protection_source row,
                 pc_daily_base_level = dict_get (protection_sources row) ''daily''
                   (if gp_source_levels row = None then gp_base_level row else 0)\<rparr>)"

subsection \<open>What a grant does to the level\<close>

lemma protection_level_Nil [simp]: "protection_sources row = [] \<Longrightarrow> protection_level row = 0"
  by (simp add: protection_level_def protection_levels_def)

lemma raise_manual_sels [simp]:
  "protection_key (raise_manual level row) = protection_key row"
  "gp_roast_success_count (raise_manual level row) = gp_roast_success_count row"
  "protection_sources (raise_manual level row) =
     (if dict_get (protection_levels row) ''manual'' 0 < level
      then dict_put ''manual'' level (protection_sources row) else protection_sources row)"
  "source_baselines (raise_manual level row) =
     (if dict_get (protection_levels row) ''manual'' 0 < level
      then dict_put ''manual'' (gp_roast_success_count row) (source_baselines row) else source_baselines row)"
  by (simp_all add: raise_manual_def Let_def protection_key_def protection_sources_def source_baselines_def)

lemma raised_keeps_others:
  assumes "dict_wf (protection_sources row)" and "dict_get (protection_levels row) ''manual'' 0 < level" and "1 \<le> level"
    and "level \<le> protection_level row'" and "\<And>s l. s \<noteq> ''manual'' \<Longrightarrow> map_of (protection_sources row) s = Some l \<Longrightarrow>
      map_of (protection_sources row') s = Some l \<and> raised_level row' s l = raised_level row s l"
  shows "protection_level row \<le> max level (protection_level row')"
proof (cases "protection_sources row = []")
  case True
  with assms(3) show ?thesis by simp
next
  case False
  obtain s l where s: "map_of (protection_sources row) s = Some l" "raised_level row s l = protection_level row"
    using protection_level_attained [OF assms(1) False] by blast
  show ?thesis
  proof (cases "s = ''manual''")
    case True
    with s assms(2) show ?thesis by (simp add: dict_get_def map_of_protection_levels)
  next
    case False
    with s assms(5) [of s l] level_of_source [of row' s l] show ?thesis by simp
  qed
qed

lemma raise_manual_level:
  assumes wf: "dict_wf (protection_sources row)" and level: "1 \<le> level" "level \<le> 5"
  shows "protection_level (raise_manual level row) = max (protection_level row) level"
proof (cases "dict_get (protection_levels row) ''manual'' 0 < level")
  case False
  then have same: "protection_sources (raise_manual level row) = protection_sources row"
    "raised_level (raise_manual level row) s l = raised_level row s l" for s l
    by (simp_all add: raised_level_def)
  from False level(1) obtain l where l: "map_of (protection_sources row) ''manual'' = Some l"
    "level \<le> raised_level row ''manual'' l"
    by (auto simp: dict_get_def map_of_protection_levels split: option.splits)
  have "protection_level (raise_manual level row) = protection_level row"
    unfolding protection_level_def protection_levels_def same ..
  with level_of_source [OF l(1)] l(2) show ?thesis by simp
next
  case True
  define row' where "row' = raise_manual level row"
  have sources: "map_of (protection_sources row') = (map_of (protection_sources row))(''manual'' \<mapsto> level)"
    using True by (simp add: row'_def)
  have wf': "dict_wf (protection_sources row')" "protection_sources row' \<noteq> []"
    using True wf by (simp_all add: row'_def dict_wf_put)
  have manual: "raised_level row' ''manual'' level = level"
    using True level by (simp add: row'_def raised_level_def dict_get_def)
  have other: "raised_level row' s l = raised_level row s l" if "s \<noteq> ''manual''" for s l
    using that True by (simp add: row'_def raised_level_def dict_get_def)
  have "protection_level row' \<le> max (protection_level row) level"
  proof -
    obtain s l where s: "map_of (protection_sources row') s = Some l" "raised_level row' s l = protection_level row'"
      using protection_level_attained [OF wf'] by blast
    then show ?thesis using manual other [of s l] level_of_source [of row s l] sources
      by (cases "s = ''manual''") auto
  qed
  moreover have ge: "level \<le> protection_level row'" using level_of_source [of row' "''manual''" level] sources manual by simp
  moreover have "protection_level row \<le> max level (protection_level row')"
    using True level(1) ge other sources by (intro raised_keeps_others [OF wf]) simp_all
  ultimately show ?thesis by (simp add: row'_def)
qed

lemma protections_set [simp]:
  "group_protections (set_reservation r db) = group_protections db"
  "group_protections (set_contribution i u c db) = group_protections db"
  by (simp_all add: set_reservation_def set_contribution_def)

lemma protections_sync [simp]:
  "group_protections (sync_pending_protection now row removed g db) = group_protections db"
proof -
  have one: "group_protections (sync_one now row removed r db) = group_protections db" for r db
    by (simp add: sync_one_def Let_def)
  have "group_protections (fold (sync_one now row removed) rs db) = group_protections db" for rs db
    by (induction rs arbitrary: db) (simp_all add: one)
  then show ?thesis by (simp add: sync_pending_protection_def)
qed

lemma protections_outcome:
  "record_key_mutation_outcome now identity operation counts db = Inr db' \<Longrightarrow> group_protections db' = group_protections db"
  by (auto simp: record_key_mutation_outcome_def upsert_daily_usage_def upsert_identity_def Let_def split: option.splits if_splits)

lemma get_protection_cong:
  "group_protections db' = group_protections db \<Longrightarrow> get_protection d g u db' = get_protection d g u db"
  by (simp add: get_protection_def)

text \<open>The protection in force for a user of a group, as \<open>check\<close> looks it up.\<close>

definition protection_in_force :: "date \<Rightarrow> group_id \<Rightarrow> user_id \<Rightarrow> db \<Rightarrow> group_protection option" where
  "protection_in_force d g u db =
     (case get_protection d g u db of Some r \<Rightarrow> Some r | None \<Rightarrow> get_protection d GLOBAL_GROUP u db)"

definition level_in_force :: "date \<Rightarrow> group_id \<Rightarrow> user_id \<Rightarrow> db \<Rightarrow> int" where
  "level_in_force d g u db =
     (case protection_in_force d g u db of None \<Rightarrow> 0 | Some r \<Rightarrow> protection_level r)"

lemma check_level: "pc_level (check_protected d g u db) = level_in_force d g u db"
  "pc_protected (check_protected d g u db) = (protection_in_force d g u db \<noteq> None)"
  by (simp_all add: check_protected_def level_in_force_def protection_in_force_def split: option.split)

lemma granted_row_key: "protection_key (fst (granted_row req db)) = (gq_protect_date req, gq_group_id req, gq_user_id req)"
proof (cases "get_protection (gq_protect_date req) (gq_group_id req) (gq_user_id req) db")
  case None
  then show ?thesis
    by (auto simp: granted_row_def granted_new_def protection_key_def Let_def
        dest!: get_protection_SomeD split: option.split) (simp_all add: inherit_global_protection_def raise_manual_def Let_def)
next
  case (Some r)
  then show ?thesis using get_protection_SomeD [OF Some] by (simp add: granted_row_def)
qed

lemma inherit_wf: "dict_wf (protection_sources (inherit_global_protection row g))"
  by (simp add: inherit_global_protection_def Let_def protection_sources_def dict_wf_def)

lemma granted_level:
  assumes level: "1 \<le> gq_level req" "gq_level req \<le> 5"
    and wf: "\<And>r. get_protection (gq_protect_date req) (gq_group_id req) (gq_user_id req) db = Some r \<Longrightarrow>
      dict_wf (protection_sources r)"
  shows "protection_level (fst (granted_row req db)) =
      max (level_in_force (gq_protect_date req) (gq_group_id req) (gq_user_id req) db) (gq_level req)"
    and "snd (granted_row req db) \<longleftrightarrow>
      level_in_force (gq_protect_date req) (gq_group_id req) (gq_user_id req) db < gq_level req"
proof -
  have fresh: "protection_level (granted_new req) = gq_level req"
    using protection_level_single [of "granted_new req" "''manual''" "gq_level req"] level
    by (simp add: granted_new_def raised_level_def source_baselines_def dict_get_def)
  show "protection_level (fst (granted_row req db)) =
      max (level_in_force (gq_protect_date req) (gq_group_id req) (gq_user_id req) db) (gq_level req)"
    using level wf fresh
    by (auto simp: granted_row_def level_in_force_def protection_in_force_def Let_def raise_manual_level
        inherit_wf inherit_level split: option.split)
  show "snd (granted_row req db) \<longleftrightarrow>
      level_in_force (gq_protect_date req) (gq_group_id req) (gq_user_id req) db < gq_level req"
    using level by (auto simp: granted_row_def level_in_force_def protection_in_force_def Let_def inherit_level split: option.split)
qed

text \<open>
  C26: A grant raises the protection a user has in the group to the granted level and never lowers it:
  afterwards the level in force is the larger of the two, so that a repeated grant changes nothing
  more, the answer reports that level and whether it rose, and a check confirms it.
\<close>

theorem grant_raises_level:
  assumes "1 \<le> gq_level req" and "gq_level req \<le> 5"
    and "\<And>r. get_protection (gq_protect_date req) (gq_group_id req) (gq_user_id req) db = Some r \<Longrightarrow>
      dict_wf (protection_sources r)"
    and "grant_once now identity req db = Inr (db', resp)"
  shows "gs_level resp = max (level_in_force (gq_protect_date req) (gq_group_id req) (gq_user_id req) db) (gq_level req) \<and>
     (gs_changed resp \<longleftrightarrow> level_in_force (gq_protect_date req) (gq_group_id req) (gq_user_id req) db < gq_level req) \<and>
     pc_level (check_protected (gq_protect_date req) (gq_group_id req) (gq_user_id req) db') = gs_level resp \<and>
     pc_protected (check_protected (gq_protect_date req) (gq_group_id req) (gq_user_id req) db')"
proof -
  obtain db2 where out: "group_protections db' = group_protections (put_protection (fst (granted_row req db)) db)"
    and resp: "gs_level resp = protection_level (fst (granted_row req db))" "gs_changed resp = snd (granted_row req db)"
    using assms(4) by (auto simp: grant_once_def Let_def split: if_splits prod.splits sum.splits dest!: protections_outcome)
  have "get_protection (gq_protect_date req) (gq_group_id req) (gq_user_id req) db' = Some (fst (granted_row req db))"
    using get_protection_cong [OF out] by (simp add: table_simps granted_row_key)
  then show ?thesis
    using granted_level [OF assms(1,2,3)] resp
    by (simp add: check_level level_in_force_def protection_in_force_def)
qed

definition sample_grant :: grant_request where
  "sample_grant = \<lparr>gq_group_id = ''g'', gq_user_id = ''t'', gq_level = 3, gq_protect_date = 0\<rparr>"

theorem grant_raises_level_witness:
  "pc_level (check_protected 0 ''g'' ''t'' (fst (projr (grant_once 0 None sample_grant empty_db)))) = 3"
proof -
  obtain db' resp where run: "grant_once 0 None sample_grant empty_db = Inr (db', resp)"
    and level: "level_in_force 0 ''g'' ''t'' empty_db = 0"
  proof -
    have "\<not> isl (grant_once 0 None sample_grant empty_db)" by code_simp
    moreover have "level_in_force 0 ''g'' ''t'' empty_db = 0" by code_simp
    ultimately show ?thesis using that by (cases "grant_once 0 None sample_grant empty_db") auto
  qed
  have "gq_protect_date sample_grant = 0" "gq_group_id sample_grant = ''g''" "gq_user_id sample_grant = ''t''"
    "gq_level sample_grant = 3" by (simp_all add: sample_grant_def)
  moreover have "get_protection 0 ''g'' ''t'' empty_db = None" by (simp add: get_protection_def empty_db_def)
  ultimately show ?thesis using grant_raises_level [OF _ _ _ run] run level by simp
qed

subsection \<open>What the daily list does to the sources\<close>

definition source_of :: "date \<Rightarrow> group_id \<Rightarrow> user_id \<Rightarrow> string \<Rightarrow> db \<Rightarrow> int option" where
  "source_of d g u s db = Option.bind (get_protection d g u db) (\<lambda>r. map_of (protection_sources r) s)"

lemma remaining_sources_lookup:
  assumes "remaining_sources row legacy = (sources, baselines)"
  shows "map_of sources ''daily'' = None"
    and "s \<notin> {''daily'', ''legacy''} \<Longrightarrow> map_of sources s = map_of (protection_sources row) s"
  using assms
  by (auto simp: remaining_sources_def Let_def map_of_dict_pop split: option.splits if_splits)

lemma reduced_row_sels [simp]:
  "protection_key (reduced_row row sources baselines) = protection_key row"
  "protection_sources (reduced_row row sources baselines) = sources"
  by (simp_all add: reduced_row_def protection_key_def protection_sources_def)

definition removal_result :: "replace_request \<Rightarrow> db \<Rightarrow> group_protection \<Rightarrow> group_protection option" where
  "removal_result req db row =
     (let (sources, baselines) = remaining_sources row (global_protection req (gp_user_id row) db)
      in if sources \<noteq> [] then Some (reduced_row row sources baselines) else None)"

lemma get_protection_sync [simp]:
  "get_protection d g u (sync_pending_protection now row removed g' db) = get_protection d g u db"
  by (simp add: get_protection_def)

lemma get_protection_delete_sync [simp]:
  "get_protection d g u (delete_protection row (sync_pending_protection now row' removed g' db)) =
   get_protection d g u (delete_protection row db)"
  by (simp add: get_protection_def delete_protection_def)

lemma remove_daily_lookup:
  "get_protection d g u (fst (remove_daily now req row (db, n))) =
     (if (d, g, u) = protection_key row then removal_result req db row else get_protection d g u db)"
  by (auto simp: remove_daily_def removal_result_def Let_def table_simps split: prod.splits)

lemma removal_result_cong:
  assumes "\<And>u. rg_group_id req \<noteq> GLOBAL_GROUP \<Longrightarrow>
      get_protection (rg_protect_date req) GLOBAL_GROUP u db' = get_protection (rg_protect_date req) GLOBAL_GROUP u db"
  shows "removal_result req db' row = removal_result req db row"
  using assms by (simp add: removal_result_def global_protection_def)

lemma distinct_key_None: "key r \<notin> key ` set rs \<Longrightarrow> one_or_none (\<lambda>x. key x = key r) rs = None"
  by (induction rs) auto

lemma fold_remove_daily_lookup:
  assumes "distinct (map protection_key rows)"
    and "\<forall>r\<in>set rows. gp_protect_date r = rg_protect_date req \<and> gp_group_id r = rg_group_id req"
  shows "get_protection d g u (fst (fold (remove_daily now req) rows (db, n))) =
     (case one_or_none (\<lambda>r. protection_key r = (d, g, u)) rows of
        None \<Rightarrow> get_protection d g u db | Some row \<Rightarrow> removal_result req db row)"
  using assms
proof (induction rows arbitrary: db n)
  case (Cons row rows)
  obtain db1 n1 where step: "remove_daily now req row (db, n) = (db1, n1)" by (metis surj_pair)
  note look = remove_daily_lookup [of _ _ _ now req row db n, unfolded step fst_conv]
  have same: "removal_result req db1 r = removal_result req db r" for r
    using Cons.prems(2) by (intro removal_result_cong) (simp add: look protection_key_def)
  have none: "one_or_none (\<lambda>r. protection_key r = protection_key row) rows = None"
    using Cons.prems(1) by (intro distinct_key_None) simp
  have fold: "get_protection d g u (fst (fold (remove_daily now req) (row # rows) (db, n))) =
     (case one_or_none (\<lambda>r. protection_key r = (d, g, u)) rows of
        None \<Rightarrow> get_protection d g u db1 | Some row \<Rightarrow> removal_result req db row)"
  proof -
    have "distinct (map protection_key rows)" using Cons.prems(1) by simp
    moreover have "\<forall>r\<in>set rows. gp_protect_date r = rg_protect_date req \<and> gp_group_id r = rg_group_id req"
      using Cons.prems(2) by (meson list.set_intros(2))
    ultimately show ?thesis by (simp only: fold_simps step Cons.IH same)
  qed
  show ?case
  proof (cases "protection_key row = (d, g, u)")
    case True
    with none have "one_or_none (\<lambda>r. protection_key r = (d, g, u)) rows = None" by metis
    then have "get_protection d g u (fst (fold (remove_daily now req) (row # rows) (db, n))) = removal_result req db row"
      unfolding fold look using True by simp
    with True show ?thesis by simp
  next
    case False
    then have "get_protection d g u db1 = get_protection d g u db" by (simp add: look)
    with False show ?thesis unfolding fold by (simp split: option.split)
  qed
qed simp

lemma daily_row_lookup:
  assumes "daily_row req u row yesterday = Some row'"
    and "row \<noteq> None \<Longrightarrow> protection_key (the row) = (rg_protect_date req, rg_group_id req, u)"
  shows "protection_key row' = (rg_protect_date req, rg_group_id req, u)"
    and "map_of (protection_sources row') ''daily'' \<noteq> None"
    and "s \<notin> {''daily'', ''legacy''} \<Longrightarrow> map_of (protection_sources row') s =
      (case row of None \<Rightarrow> None | Some r \<Rightarrow> map_of (protection_sources r) s)"
proof -
  define P where "P s x \<longleftrightarrow> s \<notin> {''daily'', ''legacy''} \<longrightarrow>
      x = (case row of None \<Rightarrow> None | Some r \<Rightarrow> map_of (protection_sources r) s)" for s x
  have "\<exists>sources. gp_source_levels row' = Some sources \<and> map_of sources ''daily'' \<noteq> None \<and> (\<forall>s. P s (map_of sources s))"
    using assms(1)
    by (auto simp: P_def daily_row_def Let_def map_of_dict_pop split: option.splits if_splits prod.splits)
  then obtain sources where sources: "gp_source_levels row' = Some sources" "map_of sources ''daily'' \<noteq> None"
    "\<And>s. P s (map_of sources s)" by blast
  then have "protection_sources row' = sources" by (simp add: protection_sources_def)
  with sources show "map_of (protection_sources row') ''daily'' \<noteq> None"
    and "s \<notin> {''daily'', ''legacy''} \<Longrightarrow> map_of (protection_sources row') s =
      (case row of None \<Rightarrow> None | Some r \<Rightarrow> map_of (protection_sources r) s)" by (simp_all add: P_def)
  show "protection_key row' = (rg_protect_date req, rg_group_id req, u)"
    using assms by (auto simp: daily_row_def Let_def protection_key_def split: option.splits if_splits prod.splits)
qed

definition listed_row :: "replace_request \<Rightarrow> user_id \<Rightarrow> db \<Rightarrow> group_protection option" where
  "listed_row req u db =
     (case get_protection (rg_protect_date req) (rg_group_id req) u db of
        Some r \<Rightarrow> Some r
      | None \<Rightarrow> map_option (\<lambda>legacy. inherit_global_protection legacy (rg_group_id req)) (global_protection req u db))"

lemma listed_row_key:
  "listed_row req u db = Some r \<Longrightarrow> protection_key r = (rg_protect_date req, rg_group_id req, u)"
  by (auto simp: listed_row_def global_protection_def protection_key_def inherit_global_protection_def Let_def
      dest!: get_protection_SomeD split: option.splits if_splits)

lemma listed_row_source:
  "s \<notin> {''daily'', ''legacy''} \<Longrightarrow>
   (case listed_row req u db of None \<Rightarrow> None | Some r \<Rightarrow> map_of (protection_sources r) s) =
   source_of (rg_protect_date req) (rg_group_id req) u s db"
  by (auto simp: listed_row_def source_of_def inherit_global_protection_def Let_def protection_sources_def
      split: option.splits)

lemma grant_daily_eq:
  "grant_daily now req u db =
     (case daily_row req u (listed_row req u db) (get_protection (rg_protect_date req - 1) (rg_group_id req) u db) of
        None \<Rightarrow> db
      | Some row' \<Rightarrow> sync_pending_protection now row' False None (put_protection row' db))"
  by (simp add: grant_daily_def listed_row_def Let_def)

text \<open>Granting to one user: his row alone changes, gets a daily source and keeps the others.\<close>

lemma grant_daily_other:
  assumes "(d, g, v) \<noteq> (rg_protect_date req, rg_group_id req, u)"
  shows "get_protection d g v (grant_daily now req u db) = get_protection d g v db"
proof (cases "daily_row req u (listed_row req u db) (get_protection (rg_protect_date req - 1) (rg_group_id req) u db)")
  case (Some row')
  have "protection_key row' = (rg_protect_date req, rg_group_id req, u)"
    using daily_row_lookup(1) [OF Some] listed_row_key by fastforce
  with assms Some show ?thesis by (auto simp: grant_daily_eq table_simps)
qed (simp add: grant_daily_eq)

lemma grant_daily_self:
  "source_of (rg_protect_date req) (rg_group_id req) u ''daily'' (grant_daily now req u db) \<noteq> None"
  "s \<notin> {''daily'', ''legacy''} \<Longrightarrow>
   source_of (rg_protect_date req) (rg_group_id req) u s (grant_daily now req u db) =
   source_of (rg_protect_date req) (rg_group_id req) u s db"
proof -
  let ?row = "listed_row req u db"
  let ?yesterday = "get_protection (rg_protect_date req - 1) (rg_group_id req) u db"
  have "source_of (rg_protect_date req) (rg_group_id req) u ''daily'' (grant_daily now req u db) \<noteq> None \<and>
     (s \<notin> {''daily'', ''legacy''} \<longrightarrow>
      source_of (rg_protect_date req) (rg_group_id req) u s (grant_daily now req u db) =
      source_of (rg_protect_date req) (rg_group_id req) u s db)"
  proof (cases "daily_row req u ?row ?yesterday")
    case None
    then obtain r where r: "?row = Some r" "map_of (protection_sources r) ''daily'' \<noteq> None"
      by (auto simp: daily_row_def Let_def split: option.splits if_splits prod.splits)
    then have "get_protection (rg_protect_date req) (rg_group_id req) u db = Some r"
      by (auto simp: listed_row_def inherit_global_protection_def Let_def protection_sources_def split: option.splits)
    with None r show ?thesis by (simp add: grant_daily_eq source_of_def)
  next
    case (Some row')
    have key: "?row \<noteq> None \<Longrightarrow> protection_key (the ?row) = (rg_protect_date req, rg_group_id req, u)"
      using listed_row_key by fastforce
    note facts = daily_row_lookup [OF Some key]
    have "get_protection (rg_protect_date req) (rg_group_id req) u (grant_daily now req u db) = Some row'"
      using Some facts(1) by (simp add: grant_daily_eq table_simps)
    with facts listed_row_source [of s req u db] show ?thesis by (simp add: source_of_def)
  qed
  then show "source_of (rg_protect_date req) (rg_group_id req) u ''daily'' (grant_daily now req u db) \<noteq> None"
    and "s \<notin> {''daily'', ''legacy''} \<Longrightarrow>
     source_of (rg_protect_date req) (rg_group_id req) u s (grant_daily now req u db) =
     source_of (rg_protect_date req) (rg_group_id req) u s db" by blast+
qed

text \<open>
  What becomes of the two sources that the list changes. A \<open>legacy\<close> source is either the daily list of an
  old version, which turns into the daily source or goes with it, or a group's copy of the protection
  that holds everywhere: a listed user keeps or inherits it, an unlisted one keeps it only while that
  protection exists, at least at its present level.
\<close>

definition legacy_after :: "bool \<Rightarrow> group_protection option \<Rightarrow> group_protection option \<Rightarrow> int option" where
  "legacy_after listed row everywhere =
     (case row of
        None \<Rightarrow> if listed then map_option protection_level everywhere else None
      | Some r \<Rightarrow>
          let own = (if is_historical_daily_protection r then None else map_of (protection_sources r) ''legacy'');
              level = (if is_historical_daily_protection r then 0 else dict_get (protection_levels r) ''legacy'' 0)
          in if listed then own
             else case everywhere of None \<Rightarrow> None
                  | Some e \<Rightarrow> if level < protection_level e then Some (protection_level e) else own)"

definition daily_after :: "replace_request \<Rightarrow> group_protection option \<Rightarrow> group_protection option \<Rightarrow> int" where
  "daily_after req row yesterday =
     (let days = (case yesterday of None \<Rightarrow> 1 | Some y \<Rightarrow> gp_consecutive_days y + 1);
          fresh = min 5 (rg_initial_level req + days - 1)
      in case row of None \<Rightarrow> fresh
         | Some r \<Rightarrow> (case map_of (protection_sources r) ''daily'' of Some level \<Rightarrow> level
             | None \<Rightarrow> if is_historical_daily_protection r then the (map_of (protection_sources r) ''legacy'') else fresh))"

lemma removal_legacy:
  "Option.bind (removal_result req db row) (\<lambda>r. map_of (protection_sources r) ''legacy'') =
   legacy_after False (Some row) (global_protection req (gp_user_id row) db)"
proof -
  obtain sources baselines where r: "remaining_sources row (global_protection req (gp_user_id row) db) = (sources, baselines)"
    by (metis surj_pair)
  have "Option.bind (removal_result req db row) (\<lambda>r. map_of (protection_sources r) ''legacy'') = map_of sources ''legacy''"
    by (cases "sources = []") (simp_all add: removal_result_def r)
  also have "\<dots> = legacy_after False (Some row) (global_protection req (gp_user_id row) db)"
    using r by (auto simp: remaining_sources_def legacy_after_def Let_def map_of_dict_pop split: option.splits if_splits)
  finally show ?thesis .
qed

lemma inherited_row [simp]:
  "protection_sources (inherit_global_protection e g) = [(''legacy'', protection_level e)]"
  "gp_consecutive_days (inherit_global_protection e g) = 0"
  "\<not> is_historical_daily_protection (inherit_global_protection e g)"
  by (simp_all add: inherit_global_protection_def protection_sources_def is_historical_daily_protection_def Let_def)

lemma get_granted:
  "get_protection (rg_protect_date req) (rg_group_id req) u (grant_daily now req u db) =
     (case daily_row req u (listed_row req u db) (get_protection (rg_protect_date req - 1) (rg_group_id req) u db) of
        None \<Rightarrow> get_protection (rg_protect_date req) (rg_group_id req) u db | Some row' \<Rightarrow> Some row')"
proof (cases "daily_row req u (listed_row req u db) (get_protection (rg_protect_date req - 1) (rg_group_id req) u db)")
  case (Some row')
  have "protection_key row' = (rg_protect_date req, rg_group_id req, u)"
    using daily_row_lookup(1) [OF Some] listed_row_key by fastforce
  with Some show ?thesis by (simp add: grant_daily_eq table_simps)
qed (simp add: grant_daily_eq)

lemma written_sources [simp]:
  "protection_sources (r\<lparr>gp_source_levels := Some l, gp_source_baselines := b, gp_base_level := n\<rparr>) = l"
  "protection_sources (r\<lparr>gp_source_levels := Some l, gp_source_baselines := b, gp_base_level := n, gp_consecutive_days := k\<rparr>) = l"
  by (simp_all add: protection_sources_def)

lemma granted_sources:
  "source_of (rg_protect_date req) (rg_group_id req) u ''legacy'' (grant_daily now req u db) =
     legacy_after True (get_protection (rg_protect_date req) (rg_group_id req) u db) (global_protection req u db)"
  "source_of (rg_protect_date req) (rg_group_id req) u ''daily'' (grant_daily now req u db) =
     Some (daily_after req (get_protection (rg_protect_date req) (rg_group_id req) u db)
       (get_protection (rg_protect_date req - 1) (rg_group_id req) u db))"
  unfolding source_of_def get_granted
  by (auto simp: daily_row_def listed_row_def legacy_after_def daily_after_def Let_def map_of_dict_pop dict_get_def
      is_historical_daily_protection_def split: option.splits)

lemma fold_grant_daily_other:
  assumes "(d, g) \<noteq> (rg_protect_date req, rg_group_id req) \<or> u \<notin> set us"
  shows "get_protection d g u (fold (grant_daily now req) us db) = get_protection d g u db"
  using assms
proof (induction us arbitrary: db)
  case (Cons v us)
  then have "get_protection d g u (grant_daily now req v db) = get_protection d g u db"
    by (intro grant_daily_other) auto
  with Cons.IH [of "grant_daily now req v db"] Cons.prems show ?case by auto
qed simp

lemma fold_grant_daily_source:
  assumes "distinct us"
  shows "u \<in> set us \<Longrightarrow> source_of (rg_protect_date req) (rg_group_id req) u ''daily'' (fold (grant_daily now req) us db) \<noteq> None"
    and "s \<notin> {''daily'', ''legacy''} \<Longrightarrow>
      source_of (rg_protect_date req) (rg_group_id req) u s (fold (grant_daily now req) us db) =
      source_of (rg_protect_date req) (rg_group_id req) u s db"
proof -
  let ?d = "rg_protect_date req" and ?g = "rg_group_id req"
  show "source_of ?d ?g u ''daily'' (fold (grant_daily now req) us db) \<noteq> None" if "u \<in> set us"
    using assms that
  proof (induction us arbitrary: db)
    case (Cons v us)
    show ?case
    proof (cases "u = v")
      case True
      with Cons.prems(1) have "u \<notin> set us" by simp
      then have "source_of ?d ?g u ''daily'' (fold (grant_daily now req) (v # us) db) =
          source_of ?d ?g u ''daily'' (grant_daily now req v db)"
        by (simp add: source_of_def fold_grant_daily_other)
      with True grant_daily_self(1) [of req v now db] show ?thesis by simp
    qed (use Cons in simp)
  qed simp
  show "source_of ?d ?g u s (fold (grant_daily now req) us db) = source_of ?d ?g u s db" if "s \<notin> {''daily'', ''legacy''}"
  proof (induction us arbitrary: db)
    case (Cons v us)
    have "source_of ?d ?g u s (grant_daily now req v db) = source_of ?d ?g u s db"
    proof (cases "u = v")
      case True
      with grant_daily_self(2) [OF that] show ?thesis by simp
    next
      case False
      then show ?thesis using grant_daily_other [of ?d ?g u req v now db] by (simp add: source_of_def)
    qed
    with Cons.IH show ?case by simp
  qed simp
qed

lemma fold_granted_sources:
  assumes "distinct us" and "u \<in> set us"
  shows "source_of (rg_protect_date req) (rg_group_id req) u ''legacy'' (fold (grant_daily now req) us db) =
      legacy_after True (get_protection (rg_protect_date req) (rg_group_id req) u db) (global_protection req u db)"
    and "source_of (rg_protect_date req) (rg_group_id req) u ''daily'' (fold (grant_daily now req) us db) =
      Some (daily_after req (get_protection (rg_protect_date req) (rg_group_id req) u db)
        (get_protection (rg_protect_date req - 1) (rg_group_id req) u db))"
proof -
  let ?of = "\<lambda>t. source_of (rg_protect_date req) (rg_group_id req) u t"
  have "?of t (fold (grant_daily now req) us db) = ?of t (grant_daily now req u db)" for t
    using assms
  proof (induction us arbitrary: db)
    case (Cons v us)
    show ?case
    proof (cases "u = v")
      case True
      with Cons.prems(1) show ?thesis by (simp add: source_of_def fold_grant_daily_other)
    next
      case False
      with Cons have "?of t (fold (grant_daily now req) (v # us) db) = ?of t (grant_daily now req u (grant_daily now req v db))" by simp
      also have "\<dots> = ?of t (grant_daily now req u db)"
        using grant_daily_other [of _ _ u req v now db] False
        by (simp add: source_of_def get_granted listed_row_def global_protection_def cong: option.case_cong)
      finally show ?thesis .
    qed
  qed simp
  then show "?of ''legacy'' (fold (grant_daily now req) us db) =
      legacy_after True (get_protection (rg_protect_date req) (rg_group_id req) u db) (global_protection req u db)"
    and "?of ''daily'' (fold (grant_daily now req) us db) =
      Some (daily_after req (get_protection (rg_protect_date req) (rg_group_id req) u db)
        (get_protection (rg_protect_date req - 1) (rg_group_id req) u db))"
    by (simp_all add: granted_sources)
qed

lemma removal_source:
  "source_after = (case removal_result req db row of None \<Rightarrow> None | Some r \<Rightarrow> map_of (protection_sources r) s) \<Longrightarrow>
   (s = ''daily'' \<longrightarrow> source_after = None) \<and>
   (s \<notin> {''daily'', ''legacy''} \<longrightarrow> source_after = map_of (protection_sources row) s)"
proof -
  obtain sources baselines where r: "remaining_sources row (global_protection req (gp_user_id row) db) = (sources, baselines)"
    by (metis surj_pair)
  from remaining_sources_lookup [OF r] show "source_after = (case removal_result req db row of None \<Rightarrow> None
      | Some r \<Rightarrow> map_of (protection_sources r) s) \<Longrightarrow> ?thesis"
    by (cases "sources = []") (auto simp: removal_result_def r)
qed

text \<open>The first loop: whoever is not listed loses the daily source only.\<close>

lemma remove_all_lookup:
  assumes uniq: "unique_on protection_key (group_protections db)"
    and removed: "removed = filter (\<lambda>r. gp_user_id r \<notin> set us) (protections_of (rg_protect_date req) (rg_group_id req) db)"
    and run: "fold (remove_daily now req) removed (db, 0) = (db1, n)"
  shows "t = ''daily'' \<and> u \<notin> set us \<longrightarrow> source_of (rg_protect_date req) (rg_group_id req) u t db1 = None"
    and "t \<notin> {''daily'', ''legacy''} \<longrightarrow>
      source_of (rg_protect_date req) (rg_group_id req) u t db1 = source_of (rg_protect_date req) (rg_group_id req) u t db"
    and "(d, g) \<noteq> (rg_protect_date req, rg_group_id req) \<or> u \<in> set us \<Longrightarrow> get_protection d g u db1 = get_protection d g u db"
    and "u \<notin> set us \<Longrightarrow> source_of (rg_protect_date req) (rg_group_id req) u ''legacy'' db1 =
      legacy_after False (get_protection (rg_protect_date req) (rg_group_id req) u db) (global_protection req u db)"
proof -
  let ?d = "rg_protect_date req" and ?g = "rg_group_id req"
  have keys: "distinct (map protection_key removed)"
    using uniq by (simp add: removed protections_of_def unique_on_def distinct_map_filter)
  have scope: "\<forall>r\<in>set removed. gp_protect_date r = ?d \<and> gp_group_id r = ?g"
    by (auto simp: removed protections_of_def)
  note look = fold_remove_daily_lookup [OF keys scope, of _ _ _ now db 0, unfolded run fst_conv]
  show "get_protection d g u db1 = get_protection d g u db" if ne: "(d, g) \<noteq> (?d, ?g) \<or> u \<in> set us"
  proof -
    have "one_or_none (\<lambda>r. protection_key r = (d, g, u)) removed = None"
      using scope ne by (auto simp: one_or_none_None_iff protection_key_def removed)
    then show ?thesis by (simp add: look)
  qed
  show "source_of ?d ?g u ''legacy'' db1 = legacy_after False (get_protection ?d ?g u db) (global_protection req u db)"
    if "u \<notin> set us"
  proof (cases "get_protection ?d ?g u db")
    case None
    then have "one_or_none (\<lambda>r. protection_key r = (?d, ?g, u)) removed = None"
      by (auto simp: get_protection_def one_or_none_None_iff removed protections_of_def)
    with None show ?thesis by (simp add: source_of_def look legacy_after_def)
  next
    case (Some row)
    then have row: "row \<in> set (group_protections db)" "protection_key row = (?d, ?g, u)"
      unfolding get_protection_def by (auto dest: one_or_none_SomeD)
    then have "row \<in> set removed" using that by (auto simp: removed protections_of_def protection_key_def)
    then have "one_or_none (\<lambda>r. protection_key r = (?d, ?g, u)) removed = Some row"
      using one_or_none_key [of protection_key removed row] keys row(2) by (simp add: unique_on_def)
    with Some row(2) removal_legacy [of req db row] show ?thesis by (simp add: source_of_def look protection_key_def)
  qed
  have "(t = ''daily'' \<and> u \<notin> set us \<longrightarrow> source_of ?d ?g u t db1 = None) \<and>
      (t \<notin> {''daily'', ''legacy''} \<longrightarrow> source_of ?d ?g u t db1 = source_of ?d ?g u t db)"
  proof (cases "one_or_none (\<lambda>r. protection_key r = (?d, ?g, u)) removed")
    case None
    then have same: "source_of ?d ?g u t db1 = source_of ?d ?g u t db" by (simp add: source_of_def look)
    moreover have "source_of ?d ?g u t db = None" if "u \<notin> set us"
    proof -
      have "one_or_none (\<lambda>r. protection_key r = (?d, ?g, u)) (group_protections db) = None"
        using None that unfolding one_or_none_None_iff by (auto simp: removed protections_of_def protection_key_def)
      then show ?thesis by (simp add: source_of_def get_protection_def)
    qed
    ultimately show ?thesis by metis
  next
    case (Some row)
    then have row: "row \<in> set (group_protections db)" "protection_key row = (?d, ?g, u)"
      by (auto dest!: one_or_none_SomeD simp: removed protections_of_def)
    then have "get_protection ?d ?g u db = Some row"
      using one_or_none_key [OF uniq row(1)] by (simp add: get_protection_def)
    then have before: "source_of ?d ?g u t db = map_of (protection_sources row) t" by (simp add: source_of_def)
    have "source_of ?d ?g u t db1 = (case removal_result req db row of None \<Rightarrow> None | Some r \<Rightarrow> map_of (protection_sources r) t)"
      by (simp add: source_of_def look Some split: option.split)
    from removal_source [OF this] before show ?thesis by metis
  qed
  then show "t = ''daily'' \<and> u \<notin> set us \<longrightarrow> source_of ?d ?g u t db1 = None"
    and "t \<notin> {''daily'', ''legacy''} \<longrightarrow> source_of ?d ?g u t db1 = source_of ?d ?g u t db" by (rule conjunct1, rule conjunct2)
qed

text \<open>
  C27: Replacing the daily list of a group is exact: afterwards a user of the group has a daily
  protection that day if and only if he is listed, at the level that he already had on the list, that
  of the old-style protection it replaces, or that of his run of days; his legacy source is what
  \<open>legacy_after\<close> says (dropped, inherited, raised or kept, by the protection that holds
  everywhere); every further source of protection he has is untouched, and no protection of another
  group or date changes.
\<close>

theorem replace_group_exact:
  assumes "unique_on protection_key (group_protections db)"
    and "replace_group_once now identity req db = Inr db'"
  shows "let listed = (u \<noteq> [] \<and> u \<in> set (rg_user_ids req));
       row = get_protection (rg_protect_date req) (rg_group_id req) u db;
       yesterday = get_protection (rg_protect_date req - 1) (rg_group_id req) u db
     in source_of (rg_protect_date req) (rg_group_id req) u ''daily'' db' = (if listed then Some (daily_after req row yesterday) else None) \<and>
     source_of (rg_protect_date req) (rg_group_id req) u ''legacy'' db' = legacy_after listed row (global_protection req u db) \<and>
     (s \<notin> {''daily'', ''legacy''} \<longrightarrow>
       source_of (rg_protect_date req) (rg_group_id req) u s db' = source_of (rg_protect_date req) (rg_group_id req) u s db) \<and>
     ((d, g) \<noteq> (rg_protect_date req, rg_group_id req) \<longrightarrow> get_protection d g u db' = get_protection d g u db)"
proof -
  let ?d = "rg_protect_date req" and ?g = "rg_group_id req"
  define us where "us = sorted_ids (rg_user_ids req)"
  define removed where "removed = filter (\<lambda>r. gp_user_id r \<notin> set us) (protections_of ?d ?g db)"
  obtain db1 n where 1: "fold (remove_daily now req) removed (db, 0) = (db1, n)" by (metis surj_pair)
  define db2 where "db2 = fold (grant_daily now req) us db1"
  have "group_protections db' = group_protections db2"
    using assms(2) 1
    by (auto simp: replace_group_once_def Let_def removed_def us_def db2_def dest!: protections_outcome)
  then have get': "get_protection d g u db' = get_protection d g u db2" for d g u by (rule get_protection_cong)
  note gone = remove_all_lookup [OF assms(1) removed_def 1]
  define listed where "listed \<longleftrightarrow> u \<noteq> [] \<and> u \<in> set (rg_user_ids req)"
  define row where "row = get_protection ?d ?g u db"
  define yesterday where "yesterday = get_protection (?d - 1) ?g u db"
  have us: "distinct us" "u \<in> set us \<longleftrightarrow> listed" by (auto simp: us_def listed_def)
  have source: "source_of ?d ?g u t db' = source_of ?d ?g u t db2" for t by (simp add: source_of_def get')
  have "source_of ?d ?g u ''daily'' db2 = (if listed then Some (daily_after req row yesterday) else None) \<and>
      source_of ?d ?g u ''legacy'' db2 = legacy_after listed row (global_protection req u db)"
  proof (cases listed)
    case True
    then have "get_protection d g u db1 = get_protection d g u db" for d g using gone(3) us(2) by blast
    with True us fold_granted_sources [OF us(1), of u req now db1] show ?thesis
      by (simp add: db2_def row_def yesterday_def global_protection_def)
  next
    case False
    then have "source_of ?d ?g u t db2 = source_of ?d ?g u t db1" for t
      using us(2) by (simp add: db2_def source_of_def fold_grant_daily_other)
    with False us(2) gone(1) [of "''daily''" u] gone(4) [of u] show ?thesis by (simp add: row_def)
  qed
  moreover have "get_protection d g u db2 = get_protection d g u db" if "(d, g) \<noteq> (?d, ?g)"
    using gone(3) that by (simp add: db2_def fold_grant_daily_other)
  ultimately show ?thesis
    using gone(2) [of s u] fold_grant_daily_source(2) [OF us(1), of s req u now db1]
    unfolding Let_def listed_def [symmetric] row_def [symmetric] yesterday_def [symmetric] by (simp add: source get' db2_def)
qed

definition sample_replace :: replace_request where
  "sample_replace = \<lparr>rg_group_id = ''g'', rg_user_ids = [''u''], rg_protect_date = 5, rg_initial_level = 1\<rparr>"

definition granted_db :: db where
  "granted_db = empty_db\<lparr>group_protections := [\<lparr>gp_protect_date = 5, gp_group_id = ''g'', gp_user_id = ''t'',
     gp_roast_success_count = 0, gp_source_levels = Some [(''manual'', 3), (''daily'', 1)], gp_source_baselines = None,
     gp_base_level = 3, gp_consecutive_days = 2\<rparr>]\<rparr>"

theorem replace_group_exact_witness:
  "source_of 5 ''g'' ''t'' ''daily'' (projr (replace_group_once 0 None sample_replace granted_db)) = None \<and>
   source_of 5 ''g'' ''u'' ''daily'' (projr (replace_group_once 0 None sample_replace granted_db)) \<noteq> None"
proof -
  have "\<not> isl (replace_group_once 0 None sample_replace granted_db)" by code_simp
  then have run: "replace_group_once 0 None sample_replace granted_db =
      Inr (projr (replace_group_once 0 None sample_replace granted_db))" by simp
  have "unique_on protection_key (group_protections granted_db)" by (simp add: granted_db_def unique_on_def)
  note exact = replace_group_exact [OF this run]
  have req: "rg_protect_date sample_replace = 5" "rg_group_id sample_replace = ''g''" "rg_user_ids sample_replace = [''u'']"
    by (simp_all add: sample_replace_def)
  from exact [of "''t''", unfolded req] exact [of "''u''", unfolded req] show ?thesis by (simp add: Let_def)
qed

subsection \<open>Grants and waiting reservations\<close>

text \<open>
  Both writers are sequences of reservation steps, so what holds of every reachable state of the
  reservations holds across grants, too.
\<close>

lemma outcome_frame:
  assumes "record_key_mutation_outcome now identity operation counts db = Inr db'"
  shows "reservation_step db db'"
  using assms
  by (intro other) (auto simp: record_key_mutation_outcome_def upsert_daily_usage_def upsert_identity_def Let_def
      split: option.splits if_splits)

lemma put_sync_steps:
  "reservation_step\<^sup>*\<^sup>* db (sync_pending_protection now row False g (put_protection row db))"
proof -
  have "reservation_step db (put_protection row db)" by (rule other) simp_all
  with sync [of "put_protection row db" now row False g] show ?thesis
    by (blast intro: r_into_rtranclp rtranclp.rtrancl_into_rtrancl)
qed

lemma grant_steps:
  assumes "grant_once now identity req db = Inr (db', resp)"
  shows "reservation_step\<^sup>*\<^sup>* db db'"
  using assms
  by (auto simp: grant_once_def Let_def split: if_splits prod.splits sum.splits
      dest!: outcome_frame intro: rtranclp.rtrancl_into_rtrancl put_sync_steps)

lemma remove_daily_steps: "reservation_step\<^sup>*\<^sup>* (fst s) (fst (remove_daily now req row s))"
proof -
  have "reservation_step (sync_pending_protection now row True None db)
      (delete_protection row (sync_pending_protection now row True None db))" for db
    by (rule other) (simp_all add: frame_simps)
  then have "reservation_step\<^sup>*\<^sup>* db (delete_protection row (sync_pending_protection now row True None db))" for db
    using sync by (blast intro: r_into_rtranclp rtranclp.rtrancl_into_rtrancl)
  then show ?thesis
    by (cases s) (auto simp: remove_daily_def Let_def put_sync_steps split: prod.split)
qed

lemma grant_daily_steps: "reservation_step\<^sup>*\<^sup>* db (grant_daily now req u db)"
  by (simp add: grant_daily_eq put_sync_steps split: option.split)

lemma fold_steps:
  assumes "\<And>x s. reservation_step\<^sup>*\<^sup>* (view s) (view (f x s))"
  shows "reservation_step\<^sup>*\<^sup>* (view s) (view (fold f xs s))"
proof (induction xs arbitrary: s)
  case (Cons x xs)
  with assms [of s x] show ?case by (auto intro: rtranclp_trans)
qed simp

lemma replace_group_steps:
  assumes "replace_group_once now identity req db = Inr db'"
  shows "reservation_step\<^sup>*\<^sup>* db db'"
proof -
  obtain removed us db1 n where run: "fold (remove_daily now req) removed (db, 0) = (db1, n)"
    "reservation_step (fold (grant_daily now req) us db1) db'"
    using assms by (auto simp: replace_group_once_def Let_def split: prod.splits dest!: outcome_frame)
  have "reservation_step\<^sup>*\<^sup>* db db1"
    using fold_steps [of fst "remove_daily now req" "(db, 0)" removed, OF remove_daily_steps] run(1) by simp
  moreover have "reservation_step\<^sup>*\<^sup>* db1 (fold (grant_daily now req) us db1)"
    using fold_steps [of "\<lambda>s. s" "grant_daily now req" db1 us, OF grant_daily_steps] .
  ultimately show ?thesis using run(2) by (meson rtranclp.rtrancl_into_rtrancl rtranclp_trans)
qed

end
