(* ===== verification/Lifecycle.thy ===== *)
theory Lifecycle
  imports Delivery
begin

section \<open>The guarantees of the reservation life cycle\<close>

text \<open>
  The properties of \<^verbatim>\<open>services/reservations.py\<close> and
  \<^verbatim>\<open>routers/roast_reservations.py\<close> over the transactions of \<^theory_text>\<open>Delivery\<close>:
  what holds in every reachable state, what never changes, how claims exclude each other, what is
  counted and charged once, and the one request the server cannot answer.
\<close>

subsection \<open>A concrete run\<close>

text \<open>
  A protected target that has rolled, a boosted request that is ready at once, its claim and its
  outcome.
\<close>

definition sample_roll :: daily_roll where
  "sample_roll = \<lparr>dr_date_str = 5, dr_user_id = ''t'', dr_pig_id = ''boar'', dr_is_new_pig = None,
     dr_previous_copies = None, dr_copies_after_roll = None, dr_previous_expert_level = None,
     dr_expert_level_after_roll = None, dr_collection_size_after_roll = None,
     dr_previous_duplicate_streak = None, dr_duplicate_streak_after_roll = None,
     dr_resource_version = None, dr_appearance_snapshot = None, dr_created_at = 0\<rparr>"

definition guarded_db :: db where
  "guarded_db = empty_db\<lparr>daily_rolls := [sample_roll], group_protections :=
     [\<lparr>gp_protect_date = 5, gp_group_id = ''g'', gp_user_id = ''t'', gp_roast_success_count = 0,
       gp_source_levels = Some [(''manual'', 1)], gp_source_baselines = None, gp_base_level = 1,
       gp_consecutive_days = 0\<rparr>]\<rparr>"

definition ready_db :: db where
  "ready_db = fst (projr (prepare_reservation (sample_prepare\<lparr>rq_force_mode := Some ''normal''\<rparr>) None 0 ''r'' guarded_db))"

definition sample_claim :: claim_request where
  "sample_claim = \<lparr>cl_delivery_bot_id = ''bot'', cl_date_str = 5, cl_limit = 12, cl_supports_prepared = True,
     cl_supports_protection_gathering = True, cl_protection_gathering_version = 2,
     cl_excluded_reservation_ids = [], cl_supports_waiting_notice = True\<rparr>"

definition claimed_db :: db where
  "claimed_db = fst (claim 0 (\<lambda>_. ''k'') (\<lambda>_. ''n'') sample_claim ready_db)"

definition sample_outcome :: outcome_request where
  "sample_outcome = \<lparr>oc_reservation_id = ''r'', oc_claim_token = ''k'',
     oc_outcome_snapshot = fmap_of_list [(''event_type'', JStr ''success'')], oc_settle_daily_feed = True\<rparr>"

definition stored_db :: db where
  "stored_db = fst (projr (prepare_outcome_once ''tenant'' 0 (\<lambda>_. None) sample_outcome claimed_db))"

lemma ready_run:
  "prepare_reservation (sample_prepare\<lparr>rq_force_mode := Some ''normal''\<rparr>) None 0 ''r'' guarded_db =
   Inr (ready_db, snd (projr (prepare_reservation (sample_prepare\<lparr>rq_force_mode := Some ''normal''\<rparr>) None 0 ''r'' guarded_db)))"
  unfolding ready_db_def by (rule right_projr) code_simp

lemma stored_run:
  "prepare_outcome_once ''tenant'' 0 (\<lambda>_. None) sample_outcome claimed_db =
   Inr (stored_db, snd (projr (prepare_outcome_once ''tenant'' 0 (\<lambda>_. None) sample_outcome claimed_db)))"
  unfolding stored_db_def by (rule right_projr) code_simp

lemma ready_reachable: "reservation_step\<^sup>*\<^sup>* empty_db ready_db"
proof -
  have "reservation_step empty_db guarded_db" by (rule other) (simp_all add: guarded_db_def)
  moreover have "reservation_step guarded_db ready_db" using ready_run by (rule prepare)
  ultimately show ?thesis by (meson rtranclp.simps)
qed

lemma claimed_reachable: "reservation_step\<^sup>*\<^sup>* empty_db claimed_db"
  using ready_reachable claim [of ready_db 0 "\<lambda>_. ''k''" "\<lambda>_. ''n''" sample_claim]
  unfolding claimed_db_def by (rule rtranclp.rtrancl_into_rtrancl)

lemma stored_reachable: "reservation_step\<^sup>*\<^sup>* empty_db stored_db"
  using claimed_reachable outcome [OF stored_run] by (rule rtranclp.rtrancl_into_rtrancl)

definition sent_db :: db where
  "sent_db = fst (mark_sending ''r'' ''k'' stored_db)"

lemma sent_reachable: "reservation_step\<^sup>*\<^sup>* empty_db sent_db"
  using stored_reachable sending [of stored_db "''r''" "''k''"]
  unfolding sent_db_def by (rule rtranclp.rtrancl_into_rtrancl)

subsection \<open>What holds in every reachable state\<close>

text \<open>
  C2: Whatever transactions run in whatever order, a target has at most one open reservation per
  group and date, and at most twelve different users take part in a reservation, each with a
  contribution of one or two.
\<close>

theorem one_reservation_per_target:
  assumes "reservation_step\<^sup>*\<^sup>* empty_db db"
  shows "length (filter (\<lambda>r. rr_status r \<noteq> Completed \<and> rr_date_str r = d \<and> rr_group_id r = g \<and>
           rr_target_id r = u) (roast_reservations db)) \<le> 1 \<and>
     length (locked_participants i db) \<le> 12 \<and> distinct (map rp_user_id (locked_participants i db)) \<and>
     (\<forall>p\<in>set (locked_participants i db). rp_contribution p \<in> {1, 2})"
proof -
  have wf: "reservations_wf db" using assms by (rule reachable_wf)
  let ?open = "filter (\<lambda>r. rr_status r \<noteq> Completed \<and> rr_date_str r = d \<and> rr_group_id r = g \<and> rr_target_id r = u)
      (roast_reservations db)"
  have slot: "active_target_key r = Some (d, g, u, 1)" if "r \<in> set ?open" for r
    using that row_ok [OF wf, of r] by (simp add: active_target_key_def reservation_ok_def)
  have "x = y" if "x \<in> set ?open" "y \<in> set ?open" for x y
    using that slot [OF that(1)] slot [OF that(2)] wf by (auto simp: reservations_wf_def one_active_def)
  moreover have "distinct ?open"
    using wf by (auto simp: reservations_wf_def unique_on_def distinct_map)
  ultimately have "length ?open \<le> 1"
    by (metis (no_types, lifting) One_nat_def card_le_Suc0_iff_eq distinct_card List.finite_set)
  moreover have pw: "participants_wf db" using wf by (simp add: reservations_wf_def)
  then have "distinct (map rp_user_id (locked_participants i db))"
    by (auto simp: participants_wf_def locked_participants_def unique_on_def distinct_map inj_on_def participant_key_def)
  ultimately show ?thesis
    using pw by (auto simp: participants_wf_def ROAST_RESERVATION_MAX_PARTICIPANTS_def locked_participants_def)
qed

theorem one_reservation_per_target_witness:
  "length (filter (\<lambda>r. rr_status r \<noteq> Completed \<and> rr_date_str r = 5 \<and> rr_group_id r = ''g'' \<and>
     rr_target_id r = ''t'') (roast_reservations ready_db)) \<le> 1"
  using one_reservation_per_target [OF ready_reachable] by blast

text \<open>
  C8: No reservation is roasted early: in every reachable state a reservation that has left the
  waiting state, and was not forced by a super operator, has gathered the contributions its
  target's protection required, and they can never become fewer.
\<close>

theorem gathered_before_roasting:
  assumes "reservation_step\<^sup>*\<^sup>* empty_db db" and "r \<in> set (roast_reservations db)"
    and "rr_status r \<noteq> Pending" and "rr_force_mode r \<noteq> Some ''super''" and "0 < rr_protection_required r"
    and "reservation_step\<^sup>*\<^sup>* db db'"
  shows "rr_protection_required r \<le> gathered (rr_reservation_id r) db'"
proof -
  have wf: "reservations_wf db" using assms(1) by (rule reachable_wf)
  have "rr_protection_required r \<le> gathered (rr_reservation_id r) db"
    using row_ok [OF wf assms(2)] assms(3-5) by (auto simp: ripe_def)
  also have "\<dots> \<le> gathered (rr_reservation_id r) db'"
    using reservation_steps_effect [OF assms(6) wf] by (simp add: reservation_effect_def)
  finally show ?thesis .
qed

theorem gathered_before_roasting_witness:
  "rr_protection_required (hd (roast_reservations ready_db)) \<le> gathered ''r'' stored_db"
proof -
  have mem: "hd (roast_reservations ready_db) \<in> set (roast_reservations ready_db)" by code_simp
  have row: "rr_status (hd (roast_reservations ready_db)) \<noteq> Pending"
    "rr_force_mode (hd (roast_reservations ready_db)) \<noteq> Some ''super''"
    "0 < rr_protection_required (hd (roast_reservations ready_db))"
    "rr_reservation_id (hd (roast_reservations ready_db)) = ''r''" by code_simp+
  have "reservation_step\<^sup>*\<^sup>* ready_db stored_db"
    using claim [of ready_db 0 "\<lambda>_. ''k''" "\<lambda>_. ''n''" sample_claim, folded claimed_db_def] outcome [OF stored_run]
    by (meson r_into_rtranclp rtranclp.rtrancl_into_rtrancl)
  from gathered_before_roasting [OF ready_reachable mem row(1-3) this] show ?thesis by (simp only: row(4))
qed

text \<open>
  C20: What a reservation has become stays: its scope and owner never change, a stored outcome and
  the feeds settled with it are never replaced, a started sending is never undone, and a completed
  reservation never changes at all.
\<close>

theorem reservation_history_frozen:
  assumes "reservation_step\<^sup>*\<^sup>* empty_db db" and "reservation_step\<^sup>*\<^sup>* db db'"
    and "get_reservation i db = Some r"
  shows "\<exists>r'. get_reservation i db' = Some r' \<and>
     (rr_date_str r', rr_group_id r', rr_target_id r', rr_owner_id r') =
       (rr_date_str r, rr_group_id r, rr_target_id r, rr_owner_id r) \<and>
     (rr_outcome_snapshot r \<noteq> None \<longrightarrow> rr_outcome_snapshot r' = rr_outcome_snapshot r \<and>
        rr_daily_feed_results r' = rr_daily_feed_results r) \<and>
     (rr_status r \<in> {Sending, Completed} \<longrightarrow> rr_status r' \<in> {Sending, Completed} \<and>
        rr_claim_token r' = rr_claim_token r) \<and>
     (rr_status r = Completed \<longrightarrow> r' = r)"
proof -
  have wf: "reservations_wf db" using assms(1) by (rule reachable_wf)
  note eff = reservation_steps_effect [OF assms(2) wf]
  note row = stored_row [OF wf assms(3)]
  obtain r' where r': "r' \<in> set (roast_reservations db')" "reservation_evolves r r'"
    using eff row(1) by (auto simp: reservation_effect_def)
  then have "get_reservation i db' = Some r'"
    using get_reservation_member [OF reservation_effectD [OF eff] r'(1)] row(4)
    by (simp add: reservation_evolves_def)
  with r'(2) show ?thesis by (auto simp: reservation_evolves_def irrevocable_def)
qed

theorem reservation_history_frozen_witness:
  "\<exists>r'. get_reservation ''r'' sent_db = Some r' \<and> rr_outcome_snapshot r' = Some (oc_outcome_snapshot sample_outcome)"
proof -
  have row: "get_reservation ''r'' stored_db = Some (hd (roast_reservations stored_db))" by code_simp
  have "rr_outcome_snapshot (hd (roast_reservations stored_db)) = Some (oc_outcome_snapshot sample_outcome)" by code_simp
  moreover have "reservation_step\<^sup>*\<^sup>* stored_db sent_db"
    using sending [of stored_db "''r''" "''k''"] unfolding sent_db_def by (rule r_into_rtranclp)
  ultimately show ?thesis using reservation_history_frozen [OF stored_reachable _ row] by fastforce
qed

subsection \<open>Claims\<close>

interpretation delivery: send_once reservation_evolves irrevocable "\<lambda>r. \<exists>now. claimable now r"
  by unfold_locales (auto simp: reservation_evolves_def irrevocable_def claimable_def)

lemma declared_row:
  "x \<in> set (roast_reservations (declare_capability req db)) \<Longrightarrow>
   \<exists>r\<in>set (roast_reservations db). x = r \<or> x = r\<lparr>rr_delivery_gathering_version := 2\<rparr>"
  by (auto simp: declare_capability_def set_upd_rows split: if_splits)

definition claimed_ids :: "db \<times> claim_response \<Rightarrow> string list" where
  "claimed_ids result = map (\<lambda>item. rr_reservation_id (ri_reservation item)) (cp_items (snd result))"

lemma claimed_ids_eq:
  "claimed_ids (claim now fresh fresh_notice req db) =
     map rr_reservation_id (claim_rows req now (declare_capability req db))"
  by (simp add: claimed_ids_def claim_def Let_def reservation_to_schema_def lease_def comp_def)

lemma claimed_row:
  assumes "i \<in> set (claimed_ids (claim now fresh fresh_notice req db))"
  shows "\<exists>r\<in>set (roast_reservations db). rr_reservation_id r = i \<and> claimable now r \<and>
     rr_delivery_bot_id r = cl_delivery_bot_id req"
proof -
  obtain x where x: "x \<in> set (roast_reservations (declare_capability req db))" "claim_selects req now x"
    "rr_reservation_id x = i"
    using assms claim_rows_sub(1) [of req now "declare_capability req db"] by (auto simp: claimed_ids_eq)
  from declared_row [OF x(1)] x(2,3) show ?thesis by (auto simp: claim_selects_def claimable_def)
qed

text \<open>
  C6: A message is sent at most once: when a reservation is being sent or is completed, no claim of
  any bot at any later time hands it out again and no release takes it back.
\<close>

theorem never_sent_twice:
  assumes "reservation_step\<^sup>*\<^sup>* empty_db db" and "get_reservation i db = Some r"
    and "rr_status r \<in> {Sending, Completed}" and "reservation_step\<^sup>*\<^sup>* db db'"
  shows "i \<notin> set (claimed_ids (claim now fresh fresh_notice req db')) \<and> \<not> mu_ok (snd (release i token db'))"
proof -
  have wf: "reservations_wf db" using assms(1) by (rule reachable_wf)
  note eff = reservation_steps_effect [OF assms(4) wf]
  note row = stored_row [OF wf assms(2)]
  obtain r' where r': "r' \<in> set (roast_reservations db')" "reservation_evolves r r'"
    using eff row(1) by (auto simp: reservation_effect_def)
  have id: "rr_reservation_id r' = i" using r'(2) row(4) by (simp add: reservation_evolves_def)
  have "irrevocable r" using assms(3) by (simp add: irrevocable_def)
  then have closed: "\<not> claimable now r'" and irr: "irrevocable r'"
    using delivery.never_claimable_again delivery.committed_steps r'(2) by blast+
  have "x = r'" if "x \<in> set (roast_reservations db')" "rr_reservation_id x = i" for x
    using that id r'(1) reservation_effectD [OF eff] by (auto simp: reservations_wf_def dest: unique_onD)
  with closed have "i \<notin> set (claimed_ids (claim now fresh fresh_notice req db'))" by (auto dest: claimed_row)
  moreover have "get_reservation i db' = Some r'"
    using get_reservation_member [OF reservation_effectD [OF eff] r'(1)] id by simp
  ultimately show ?thesis using irr by (auto simp: release_def irrevocable_def refused_def)
qed

theorem never_sent_twice_witness:
  "''r'' \<notin> set (claimed_ids (claim 9999999999 (\<lambda>_. ''k2'') (\<lambda>_. ''n2'') sample_claim sent_db))"
proof -
  have "get_reservation ''r'' sent_db = Some (hd (roast_reservations sent_db))" by code_simp
  moreover have "rr_status (hd (roast_reservations sent_db)) \<in> {Sending, Completed}" by code_simp
  ultimately show ?thesis using never_sent_twice [OF sent_reachable] by blast
qed

lemma get_rewrite_selected:
  assumes wf: "reservations_wf db" and rows: "set rows \<subseteq> set (roast_reservations db)"
    and id: "\<And>r. rr_reservation_id (f r) = rr_reservation_id r"
    and some: "get_reservation i db = Some r"
  shows "get_reservation i (rewrite_selected rows f db) = Some (if r \<in> set rows then f r else r)"
proof -
  define P where "P x \<longleftrightarrow> rr_reservation_id x \<in> set (map rr_reservation_id rows)" for x :: roast_reservation
  have "one_or_none (\<lambda>x. rr_reservation_id x = i) (upd_rows P f rs) =
      map_option (\<lambda>x. if P x then f x else x) (one_or_none (\<lambda>x. rr_reservation_id x = i) rs)" for rs
    by (induction rs) (simp_all add: id)
  moreover have "roast_reservations (rewrite_selected rows f db) = upd_rows P f (roast_reservations db)"
    by (simp add: rewrite_selected_def P_def [abs_def])
  ultimately have "get_reservation i (rewrite_selected rows f db) = Some (if P r then f r else r)"
    using some by (simp add: get_reservation_def)
  moreover have "P r \<longleftrightarrow> r \<in> set rows"
    using rows wf stored_row(1) [OF wf some] by (auto simp: P_def reservations_wf_def dest: unique_onD)
  ultimately show ?thesis by simp
qed

lemma lease_sels [simp]:
  "rr_reservation_id (lease req now fresh r) = rr_reservation_id r"
  "rr_claim_token (lease req now fresh r) = Some (fresh (rr_reservation_id r))"
  "rr_claimed_at (lease req now fresh r) = Some now"
  "rr_outcome_snapshot (lease req now fresh r) = rr_outcome_snapshot r"
  "rr_status (lease req now fresh r) = (if rr_outcome_snapshot r \<noteq> None
     then (if cl_supports_prepared req then Prepared else Sending) else Processing)"
  by (simp_all add: lease_def)

lemma lease_notice_sels [simp]:
  "rr_reservation_id (lease_notice now fresh r) = rr_reservation_id r"
  "rr_status (lease_notice now fresh r) = rr_status r"
  by (simp_all add: lease_notice_def)

text \<open>The row of a claimed reservation.\<close>

lemma claimed_stored:
  assumes wf: "reservations_wf db" and claimed: "i \<in> set (claimed_ids (claim now fresh fresh_notice req db))"
  shows "\<exists>r\<in>set (roast_reservations (declare_capability req db)). rr_reservation_id r = i \<and> claim_selects req now r \<and>
     get_reservation i (fst (claim now fresh fresh_notice req db)) = Some (lease req now fresh r)"
proof -
  define db1 where "db1 = declare_capability req db"
  define db2 where "db2 = rewrite_selected (claim_rows req now db1) (lease req now fresh) db1"
  obtain r where r: "r \<in> set (claim_rows req now db1)" "rr_reservation_id r = i"
    using claimed by (auto simp: claimed_ids_eq db1_def)
  then have sel: "r \<in> set (roast_reservations db1)" "claim_selects req now r"
    using claim_rows_sub(1) [of req now db1] by auto
  have wf1: "reservations_wf db1"
    unfolding db1_def by (rule reservation_effectD [OF declare_capability_effect [OF wf]])
  have "reservation_effect db1 db2"
    unfolding db2_def using claim_rows_sub(1) [of req now db1] row_ok [OF wf1]
    by (intro rewrite_selected_effect [OF wf1] good_lease) (auto simp: claim_selects_def)
  then have wf2: "reservations_wf db2" by (rule reservation_effectD)
  have "get_reservation i db1 = Some r" using get_reservation_member [OF wf1 sel(1)] r(2) by simp
  then have 2: "get_reservation i db2 = Some (lease req now fresh r)"
    unfolding db2_def using r(1) claim_rows_sub(1) [of req now db1] wf1
    by (subst get_rewrite_selected [where r = r]) auto
  have "\<not> notice_due req now (lease req now fresh r)" by (simp add: notice_due_def)
  then have "lease req now fresh r \<notin> set (notice_rows req now db2)"
    using claim_rows_sub(2) [of req now db2] by auto
  moreover have "fst (claim now fresh fresh_notice req db) =
      rewrite_selected (notice_rows req now db2) (lease_notice now fresh_notice) db2"
    by (simp add: claim_def Let_def db1_def db2_def)
  ultimately have "get_reservation i (fst (claim now fresh fresh_notice req db)) = Some (lease req now fresh r)"
    using get_rewrite_selected [OF wf2 _ _ 2, of "notice_rows req now db2" "lease_notice now fresh_notice"]
      claim_rows_sub(2) [of req now db2] by auto
  with sel r(2) show ?thesis unfolding db1_def by blast
qed

text \<open>
  C11: A claim is an exclusive lease of exactly five minutes: the reservations a claim returns are
  at most twelve, belong to the claiming bot and now carry its token, and while nobody reports
  on one of them it can be claimed again at precisely the times later than five minutes after the
  claim, unless it was handed out for immediate sending.
\<close>

theorem claim_is_exclusive_lease:
  assumes "reservation_step\<^sup>*\<^sup>* empty_db db"
    and "i \<in> set (claimed_ids (claim now fresh fresh_notice req db))"
  shows "\<exists>r. get_reservation i (fst (claim now fresh fresh_notice req db)) = Some r \<and>
      rr_claim_token r = Some (fresh i) \<and> rr_delivery_bot_id r = cl_delivery_bot_id req \<and>
      length (claimed_ids (claim now fresh fresh_notice req db)) \<le> 12 \<and>
      (claimable later r \<longleftrightarrow> now + minutes 5 < later \<and> rr_status r \<noteq> Sending) \<and>
      (later \<le> now + minutes 5 \<longrightarrow>
        i \<notin> set (claimed_ids (claim later fresh2 fresh_notice2 req2 (fst (claim now fresh fresh_notice req db)))))"
proof -
  have wf: "reservations_wf db" using assms(1) by (rule reachable_wf)
  let ?db' = "fst (claim now fresh fresh_notice req db)"
  obtain r where r: "rr_reservation_id r = i" "claim_selects req now r"
    "get_reservation i ?db' = Some (lease req now fresh r)" using claimed_stored [OF wf assms(2)] by blast
  have lease: "claimable later (lease req now fresh r) \<longleftrightarrow>
      now + minutes 5 < later \<and> rr_status (lease req now fresh r) \<noteq> Sending"
    by (auto simp: claimable_def stale_def ROAST_RESERVATION_CLAIM_TIMEOUT_def)
  have "reservations_wf ?db'" by (rule reservation_effectD [OF claim_effect [OF wf]])
  then have "x = lease req now fresh r" if "x \<in> set (roast_reservations ?db')" "rr_reservation_id x = i" for x
    using that r(3) get_reservation_member [of ?db' x] by simp
  then have "i \<notin> set (claimed_ids (claim later fresh2 fresh_notice2 req2 ?db'))" if "later \<le> now + minutes 5"
    using that lease by (auto dest: claimed_row)
  moreover have "length (claimed_ids (claim now fresh fresh_notice req db)) \<le> 12"
    by (simp add: claimed_ids_eq claim_rows_def claim_limit_def)
  ultimately show ?thesis
    using r lease by (intro exI [of _ "lease req now fresh r"]) (auto simp: claim_selects_def lease_def)
qed

theorem claim_is_exclusive_lease_witness:
  "''r'' \<notin> set (claimed_ids (claim (minutes 5) (\<lambda>_. ''k2'') (\<lambda>_. ''n2'') sample_claim
     (fst (claim 0 (\<lambda>_. ''k'') (\<lambda>_. ''n'') sample_claim ready_db))))"
proof -
  have "''r'' \<in> set (claimed_ids (claim 0 (\<lambda>_. ''k'') (\<lambda>_. ''n'') sample_claim ready_db))" by code_simp
  from claim_is_exclusive_lease [OF ready_reachable this, of "minutes 5" "\<lambda>_. ''k2''" "\<lambda>_. ''n2''" sample_claim]
  show ?thesis by auto
qed

subsection \<open>Outcomes\<close>

lemma get_set_reservation:
  "get_reservation i db = Some r \<Longrightarrow> rr_reservation_id row = i \<Longrightarrow> get_reservation i (set_reservation row db) = Some row"
proof -
  have "one_or_none (\<lambda>x. rr_reservation_id x = i) rs = Some r \<Longrightarrow> rr_reservation_id row = i \<Longrightarrow>
      one_or_none (\<lambda>x. rr_reservation_id x = i) (upd_rows (\<lambda>x. rr_reservation_id x = rr_reservation_id row) (\<lambda>_. row) rs) =
      Some row" for rs
    by (induction rs) (auto split: if_splits)
  then show "get_reservation i db = Some r \<Longrightarrow> rr_reservation_id row = i \<Longrightarrow> get_reservation i (set_reservation row db) = Some row"
    by (simp add: get_reservation_def set_reservation_def)
qed

lemma get_reservation_cong: "roast_reservations db' = roast_reservations db \<Longrightarrow> get_reservation i db' = get_reservation i db"
  by (simp add: get_reservation_def)

lemma to_prepared_sels [simp]:
  "rr_reservation_id (to_prepared r) = rr_reservation_id r" "rr_claim_token (to_prepared r) = rr_claim_token r"
  "rr_outcome_snapshot (to_prepared r) = rr_outcome_snapshot r" "rr_status (to_prepared r) \<noteq> Processing"
  "rr_status r \<noteq> Processing \<Longrightarrow> to_prepared r = r"
  by (simp_all add: to_prepared_def)

text \<open>The two ways the call can end without an error.\<close>

definition outcome_settled :: "outcome_request \<Rightarrow> roast_reservation \<Rightarrow> bool" where
  "outcome_settled req row \<longleftrightarrow>
     rr_reservation_id row = oc_reservation_id req \<and> rr_claim_token row = Some (oc_claim_token req) \<and>
     rr_outcome_snapshot row = Some (oc_outcome_snapshot req) \<and> rr_status row \<in> {Prepared, Sending, Completed}"

lemma prepare_outcome_cases:
  assumes wf: "reservations_wf db" and call: "prepare_outcome_once tenant now race req db = Inr (db', resp)"
  shows "db' = db \<and> resp = refused \<or>
     (\<exists>row. get_reservation (oc_reservation_id req) db' = Some row \<and> outcome_settled req row \<and>
        resp = accepted row db')"
proof (cases "get_reservation (oc_reservation_id req) db")
  case None
  with call show ?thesis by (simp add: prepare_outcome_once_def)
next
  case (Some row)
  note row = stored_row [OF wf Some]
  show ?thesis
  proof (cases "rr_outcome_snapshot row")
    case None
    have "\<exists>row'. get_reservation (oc_reservation_id req) (set_reservation row' db1) = Some row' \<and>
        row' = to_prepared (row\<lparr>rr_outcome_snapshot := Some (oc_outcome_snapshot req), rr_daily_feed_results := Some fs\<rparr>)"
      if "settle_outcome_feeds tenant now race req row (count_success row (oc_outcome_snapshot req) db) = Inr (db1, fs)" for db1 fs
    proof -
      have "roast_reservations db1 = roast_reservations db" using settle_outcome_frame [OF that] by simp
      then have "get_reservation (oc_reservation_id req) db1 = Some row" using Some get_reservation_cong by metis
      then show ?thesis using row(4) by (simp add: get_set_reservation)
    qed
    with None Some call row show ?thesis
      by (fastforce simp: prepare_outcome_once_def Let_def outcome_settled_def to_prepared_def split: if_splits sum.splits)
  next
    case (Some s)
    have "get_reservation (oc_reservation_id req) (set_reservation (to_prepared row) db) = Some (to_prepared row)"
      using \<open>get_reservation _ _ = _\<close> row(4) by (simp add: get_set_reservation)
    with Some call \<open>get_reservation _ db = _\<close> row show ?thesis
      by (auto simp: prepare_outcome_once_def Let_def outcome_settled_def to_prepared_def split: if_splits)
  qed
qed

lemma prepare_outcome_settled:
  assumes "reservations_wf db" and "get_reservation (oc_reservation_id req) db = Some row" and "outcome_settled req row"
  shows "prepare_outcome_once tenant now race req db = Inr (db, accepted row db)"
proof -
  have "set_reservation row db = db"
    using stored_row [OF assms(1,2)] assms(1) by (simp add: set_reservation_same)
  with assms(2,3) show ?thesis
    by (auto simp: prepare_outcome_once_def outcome_settled_def Let_def)
qed

text \<open>The call as the server runs it: an error rolls the transaction back.\<close>

definition outcome_call ::
  "string \<Rightarrow> datetime \<Rightarrow> (user_id \<Rightarrow> user_daily_feed option option) \<Rightarrow> outcome_request \<Rightarrow> db \<Rightarrow>
   db \<times> (error + mutation_response)" where
  "outcome_call tenant now race req db =
     (case prepare_outcome_once tenant now race req db of
        Inl e \<Rightarrow> (db, Inl e) | Inr (db', resp) \<Rightarrow> (db', Inr resp))"

lemma outcome_call_again:
  assumes "reservations_wf db"
  shows "outcome_call tenant now race req (fst (outcome_call tenant now race req db)) = outcome_call tenant now race req db"
proof (cases "prepare_outcome_once tenant now race req db")
  case (Inl e)
  then show ?thesis by (simp add: outcome_call_def)
next
  case (Inr p)
  obtain db' resp where p: "prepare_outcome_once tenant now race req db = Inr (db', resp)" using Inr by (metis surj_pair)
  have wf': "reservations_wf db'" using prepare_outcome_effect [OF assms p] by (rule reservation_effectD)
  from prepare_outcome_cases [OF assms p] p prepare_outcome_settled [OF wf', of req]
  show ?thesis by (auto simp: outcome_call_def)
qed

interpretation outcome_replay: replay_safe "outcome_call tenant now race req" reservations_wf
  for tenant now race req
proof unfold_locales
  fix db assume wf: "reservations_wf db"
  show "reservations_wf (fst (outcome_call tenant now race req db))"
    unfolding outcome_call_def
    by (auto split: sum.split intro: wf reservation_effectD [OF prepare_outcome_effect [OF wf]])
qed (simp_all add: outcome_call_again)

text \<open>
  C21: The success of a reservation raises its target's protection by exactly one, however often the
  client repeats the request: the counter moves with the first call that stores a successful outcome
  and every repetition finds the stored outcome, answers the same and changes nothing.
\<close>

theorem success_counted_once:
  assumes "reservation_step\<^sup>*\<^sup>* empty_db db" and "get_reservation (oc_reservation_id req) db = Some r"
    and "rr_claim_token r = Some (oc_claim_token req)" and "rr_status r = Processing"
    and "outcome_succeeded (oc_outcome_snapshot req)" and "rr_protection_required r \<noteq> 0"
    and "get_protection (rr_date_str r) (rr_group_id r) (rr_target_id r) db = Some p"
    and "outcome_call tenant now race req db = (db', Inr resp)"
  shows "outcome_call tenant now race req (((\<lambda>s. fst (outcome_call tenant now race req s)) ^^ n) db) = (db', Inr resp) \<and>
     mu_ok resp \<and>
     get_protection (rr_date_str r) (rr_group_id r) (rr_target_id r) db' =
       Some (p\<lparr>gp_roast_success_count := gp_roast_success_count p + 1\<rparr>)"
proof -
  have wf: "reservations_wf db" using assms(1) by (rule reachable_wf)
  note row = stored_row [OF wf assms(2)]
  have none: "rr_outcome_snapshot r = None" using row(2) assms(4) by (simp add: reservation_ok_def)
  let ?db1 = "count_success r (oc_outcome_snapshot req) db"
  obtain db2 fs where feeds: "settle_outcome_feeds tenant now race req r ?db1 = Inr (db2, fs)"
    and db': "roast_reservations db' = roast_reservations (set_reservation (to_prepared (r\<lparr>rr_outcome_snapshot :=
        Some (oc_outcome_snapshot req), rr_daily_feed_results := Some fs\<rparr>)) db2)"
      "group_protections db' = group_protections db2" "mu_ok resp"
    using assms(2-4,8) none
    by (auto simp: outcome_call_def prepare_outcome_once_def Let_def accepted_def set_reservation_def split: sum.splits)
  have "protection_key p = (rr_date_str r, rr_group_id r, rr_target_id r)"
    using assms(7) by (rule get_protection_SomeD)
  then have "get_protection (rr_date_str r) (rr_group_id r) (rr_target_id r) ?db1 =
      Some (p\<lparr>gp_roast_success_count := gp_roast_success_count p + 1\<rparr>)"
    using assms(5-7) by (auto simp: count_success_def table_simps protection_key_def)
  moreover have "group_protections db2 = group_protections ?db1" using settle_outcome_frame [OF feeds] by simp
  ultimately have "get_protection (rr_date_str r) (rr_group_id r) (rr_target_id r) db' =
      Some (p\<lparr>gp_roast_success_count := gp_roast_success_count p + 1\<rparr>)"
    by (simp add: get_protection_def db'(2))
  with outcome_replay.replay [OF wf, of tenant now race req n] db'(3) assms(8) show ?thesis by simp
qed

theorem success_counted_once_witness:
  "map gp_roast_success_count (group_protections
     (fst (outcome_call ''tenant'' 0 (\<lambda>_. None) sample_outcome
       (fst (outcome_call ''tenant'' 0 (\<lambda>_. None) sample_outcome claimed_db))))) = [1]"
proof -
  let ?r = "hd (roast_reservations claimed_db)"
  let ?p = "hd (group_protections claimed_db)"
  define resp where "resp = snd (projr (prepare_outcome_once ''tenant'' 0 (\<lambda>_. None) sample_outcome claimed_db))"
  have row: "get_reservation (oc_reservation_id sample_outcome) claimed_db = Some ?r" by code_simp
  have facts: "rr_claim_token ?r = Some (oc_claim_token sample_outcome)" "rr_status ?r = Processing"
    "rr_protection_required ?r \<noteq> 0" by code_simp+
  have success: "outcome_succeeded (oc_outcome_snapshot sample_outcome)" by code_simp
  have protection: "get_protection (rr_date_str ?r) (rr_group_id ?r) (rr_target_id ?r) claimed_db = Some ?p" by code_simp
  have call: "outcome_call ''tenant'' 0 (\<lambda>_. None) sample_outcome claimed_db = (stored_db, Inr resp)"
    unfolding outcome_call_def resp_def by (subst stored_run) simp
  have "map gp_roast_success_count (group_protections stored_db) = [1]" by code_simp
  with success_counted_once [OF claimed_reachable row facts(1,2) success facts(3) protection call, of 1] call
  show ?thesis by simp
qed

subsection \<open>Completion\<close>

lemma settle_feeds_total: "\<exists>db' fs. settle_feeds tenant now d i (\<lambda>_. None) us db = Inr (db', fs)"
proof (induction us arbitrary: db)
  case (Cons u us)
  have "\<exists>db1 fed. apply_daily_feed tenant now d u ''reservation'' i None db = Inr (db1, fed)"
    by (simp add: apply_daily_feed_def Let_def split: option.split prod.split)
  then obtain db1 fed where "apply_daily_feed tenant now d u ''reservation'' i None db = Inr (db1, fed)" by blast
  with Cons.IH [of db1] show ?case by fastforce
qed simp

lemma settle_outcome_total: "\<exists>db' fs. settle_outcome_feeds tenant now (\<lambda>_. None) req row db = Inr (db', fs)"
proof -
  obtain db' fs where "settle_feeds tenant now (rr_date_str row) (rr_reservation_id row) (\<lambda>_. None)
      (sort (map rp_user_id (filter (eligible_to_feed row) (locked_participants (rr_reservation_id row) db)))) db = Inr (db', fs)"
    using settle_feeds_total by blast
  then show ?thesis by (simp add: settle_outcome_feeds_def Let_def)
qed

lemma complete_stored:
  assumes wf: "reservations_wf db" and row: "get_reservation i db = Some r"
    and ok: "rr_claim_token r = Some token" "rr_status r \<in> {Sending, Completed}"
    and call: "complete now i token event db = (db', resp)"
  shows "get_reservation i db' = Some (to_completed now r) \<and> mu_ok resp \<and>
     mu_reservation resp = Some (reservation_to_schema (to_completed now r) db') \<and>
     mu_event_recorded resp = (event \<noteq> None)"
proof -
  have id: "rr_reservation_id (to_completed now r) = i"
    using stored_row(4) [OF wf row] by (simp add: to_completed_def)
  have get: "get_reservation i (set_reservation (to_completed now r) db) = Some (to_completed now r)"
    using get_set_reservation [OF row id] .
  have schema: "reservation_to_schema x (fst (record_roast_event n q e d)) = reservation_to_schema x d" for x n q e d
    by (simp add: reservation_to_schema_def locked_participants_def event_frame)
  show ?thesis
  proof (cases event)
    case None
    with call row ok get show ?thesis by (auto simp: complete_def Let_def accepted_def)
  next
    case (Some ev)
    let ?db1 = "set_reservation (to_completed now r) db"
    let ?item = "reservation_to_schema (to_completed now r) ?db1"
    let ?logged = "record_roast_event now (bind_reservation_event ?item ev) (Some ?item) ?db1"
    have "snd ?logged" by (simp add: record_roast_event_def record_roast_event_with_status_def Let_def)
    moreover have "db' = fst ?logged" "resp = \<lparr>mu_ok = True, mu_reservation = Some ?item, mu_event_recorded = snd ?logged\<rparr>"
      using call row ok Some by (auto simp: complete_def Let_def split: prod.splits)
    ultimately show ?thesis
      using Some get schema by (simp add: get_reservation_cong [OF event_frame(1)])
  qed
qed

lemma complete_event:
  assumes wf: "reservations_wf db" and row: "get_reservation i db = Some r" and "i \<noteq> []"
    and ok: "rr_claim_token r = Some token" "rr_status r \<in> {Sending, Completed}"
    and call: "complete now i token (Some ev) db = (db', resp)"
  shows "length (events_of i db') = max 1 (length (events_of i db))"
proof -
  let ?db1 = "set_reservation (to_completed now r) db"
  let ?item = "reservation_to_schema (to_completed now r) ?db1"
  have id: "rr_reservation_id (to_completed now r) = i"
    using stored_row(4) [OF wf row] by (simp add: to_completed_def)
  obtain recorded created where run: "record_roast_event_with_status now (bind_reservation_event ?item ev) (Some ?item) ?db1 =
      (db', recorded, created)"
    using call row ok by (auto simp: complete_def Let_def record_roast_event_def split: prod.splits)
  have "names_reservation (bind_reservation_event ?item ev) (Some ?item)" by (simp add: names_reservation_def)
  from record_events_of(1) [OF this \<open>i \<noteq> []\<close> run] id
  have "length (events_of i db') = length (events_of i ?db1) + of_bool (events_of i ?db1 = [])" by simp
  moreover have "events_of i ?db1 = events_of i db" by (simp add: events_of_def set_reservation_def)
  ultimately show ?thesis by (cases "events_of i db") auto
qed

text \<open>
  C22: Completing is final and repeatable: the completion of a reservation that is being sent frees the
  target's slot and logs the event unless it is already logged; every later completion with the same token, at any
  time and with any event, gives the same answer and changes nothing.
\<close>

theorem completion_is_final:
  assumes "reservation_step\<^sup>*\<^sup>* empty_db db" and "get_reservation i db = Some r" and "i \<noteq> []"
    and "rr_claim_token r = Some token" and "rr_status r = Sending"
    and "complete now i token (Some ev) db = (db', resp)"
  shows "mu_ok resp \<and> mu_event_recorded resp \<and> length (events_of i db') = max 1 (length (events_of i db)) \<and>
     (\<exists>r'. get_reservation i db' = Some r' \<and> rr_status r' = Completed \<and> rr_active_slot r' = None) \<and>
     complete later i token (Some ev2) db' = (db', resp)"
proof -
  have wf: "reservations_wf db" using assms(1) by (rule reachable_wf)
  have sending: "rr_status r \<in> {Sending, Completed}" using assms(5) by simp
  define r' where "r' = to_completed now r"
  have final: "get_reservation i db' = Some r'" "mu_ok resp" "mu_event_recorded resp"
    "mu_reservation resp = Some (reservation_to_schema r' db')"
    using complete_stored [OF wf assms(2,4) sending assms(6)] by (simp_all add: r'_def)
  have events: "length (events_of i db') = max 1 (length (events_of i db))"
    using complete_event [OF wf assms(2,3,4) sending assms(6)] .
  have wf': "reservations_wf db'"
    using complete_effect [OF wf, of now i token "Some ev"] assms(6) by (auto dest: reservation_effectD)
  have r': "rr_status r' = Completed" "rr_active_slot r' = None" "rr_claim_token r' = Some token" "rr_reservation_id r' = i"
    using assms(4,5) stored_row(4) [OF wf assms(2)] by (simp_all add: r'_def to_completed_def)
  have same: "to_completed later r' = r'" "set_reservation r' db' = db'"
    using r'(1) set_reservation_same [OF wf' stored_row(1) [OF wf' final(1)]] by (simp_all add: to_completed_def)
  have "events_of i db' \<noteq> []" using events by auto
  then have "has_reservation_event i db'" by (simp add: has_reservation_event_iff)
  then have "complete later i token (Some ev2) db' =
      (db', \<lparr>mu_ok = True, mu_reservation = Some (reservation_to_schema r' db'), mu_event_recorded = True\<rparr>)"
    using r' assms(3)
    by (simp add: complete_def final(1) same Let_def record_roast_event_def record_roast_event_with_status_def)
  with final events r' show ?thesis by (cases resp) auto
qed

theorem completion_is_final_witness:
  "length (events_of ''r'' (fst (complete 1 ''r'' ''k'' (Some sample_event) sent_db))) = 1"
proof -
  have row: "get_reservation ''r'' sent_db = Some (hd (roast_reservations sent_db))" by code_simp
  have facts: "rr_claim_token (hd (roast_reservations sent_db)) = Some ''k''"
    "rr_status (hd (roast_reservations sent_db)) = Sending" "events_of ''r'' sent_db = []" by code_simp+
  obtain db' resp where run: "complete 1 ''r'' ''k'' (Some sample_event) sent_db = (db', resp)" by (metis surj_pair)
  from completion_is_final [OF sent_reachable row _ facts(1,2) run] facts(3) run show ?thesis by simp
qed

text \<open>A claimed reservation is stored under its new token; a first claim finds it without an outcome.\<close>

lemma claimed_without_outcome:
  assumes "reservations_wf db" and "get_reservation i db = Some r" and "rr_outcome_snapshot r = None"
    and "i \<in> set (claimed_ids (claim now fresh fresh_notice req db))"
  obtains row where "get_reservation i (fst (claim now fresh fresh_notice req db)) = Some row" "rr_status row = Processing"
    "rr_claim_token row = Some (fresh i)" "rr_outcome_snapshot row = None" "rr_reservation_id row = i"
proof -
  obtain x where x: "x \<in> set (roast_reservations (declare_capability req db))" "rr_reservation_id x = i"
    "get_reservation i (fst (claim now fresh fresh_notice req db)) = Some (lease req now fresh x)"
    using claimed_stored [OF assms(1,4)] by auto
  obtain y where y: "y \<in> set (roast_reservations db)" "x = y \<or> x = y\<lparr>rr_delivery_gathering_version := 2\<rparr>"
    using declared_row [OF x(1)] by blast
  then have "rr_reservation_id y = i" "rr_outcome_snapshot x = rr_outcome_snapshot y" using x(2) by auto
  moreover have "y = r" using get_reservation_member [OF assms(1) y(1)] calculation(1) assms(2) by simp
  ultimately have "rr_outcome_snapshot x = None" using assms(3) by simp
  with x show ?thesis by (intro that [OF x(3)]) simp_all
qed

text \<open>
  C23: A ready reservation gets through: whatever outcome the claiming bot draws, storing it, marking
  the message as being sent and completing the reservation all succeed with the claim's token, and
  the reservation is then completed with exactly that outcome.
\<close>

theorem delivery_gets_through:
  assumes "reservation_step\<^sup>*\<^sup>* empty_db db" and "get_reservation i db = Some r" and "rr_outcome_snapshot r = None"
    and "i \<in> set (claimed_ids (claim now fresh fresh_notice req db))"
  shows "\<exists>db2 resp db3 db4 r4.
     prepare_outcome_once tenant now (\<lambda>_. None) \<lparr>oc_reservation_id = i, oc_claim_token = fresh i,
         oc_outcome_snapshot = outcome, oc_settle_daily_feed = settle\<rparr>
       (fst (claim now fresh fresh_notice req db)) = Inr (db2, resp) \<and> mu_ok resp \<and>
     fst (mark_sending i (fresh i) db2) = db3 \<and> mu_ok (snd (mark_sending i (fresh i) db2)) \<and>
     fst (complete now i (fresh i) event db3) = db4 \<and> mu_ok (snd (complete now i (fresh i) event db3)) \<and>
     get_reservation i db4 = Some r4 \<and> rr_status r4 = Completed \<and> rr_outcome_snapshot r4 = Some outcome"
proof -
  have wf: "reservations_wf db" using assms(1) by (rule reachable_wf)
  define db1 where "db1 = fst (claim now fresh fresh_notice req db)"
  define oreq where "oreq = \<lparr>oc_reservation_id = i, oc_claim_token = fresh i,
         oc_outcome_snapshot = outcome, oc_settle_daily_feed = settle\<rparr>"
  have wf1: "reservations_wf db1" unfolding db1_def by (rule reservation_effectD [OF claim_effect [OF wf]])
  obtain row where row: "get_reservation i db1 = Some row" "rr_status row = Processing" "rr_claim_token row = Some (fresh i)"
    "rr_outcome_snapshot row = None" "rr_reservation_id row = i"
    using claimed_without_outcome [OF wf assms(2-4)] unfolding db1_def by blast
  obtain dbf fs where feeds: "settle_outcome_feeds tenant now (\<lambda>_. None) oreq row (count_success row outcome db1) = Inr (dbf, fs)"
    using settle_outcome_total by blast
  define row2 where "row2 = to_prepared (row\<lparr>rr_outcome_snapshot := Some outcome, rr_daily_feed_results := Some fs\<rparr>)"
  define db2 where "db2 = set_reservation row2 dbf"
  have call: "prepare_outcome_once tenant now (\<lambda>_. None) oreq db1 = Inr (db2, accepted row2 db2)"
    using row feeds by (simp add: prepare_outcome_once_def oreq_def row2_def db2_def Let_def)
  have wf2: "reservations_wf db2" using prepare_outcome_effect [OF wf1 call] by (rule reservation_effectD)
  have "get_reservation i dbf = Some row"
    using row(1) settle_outcome_frame [OF feeds] get_reservation_cong [of dbf db1] by simp
  then have row2: "get_reservation i db2 = Some row2" "rr_status row2 = Prepared" "rr_claim_token row2 = Some (fresh i)"
    "rr_outcome_snapshot row2 = Some outcome" "rr_reservation_id row2 = i"
    using row by (simp_all add: db2_def get_set_reservation row2_def to_prepared_def)
  define row3 where "row3 = row2\<lparr>rr_status := Sending\<rparr>"
  define db3 where "db3 = fst (mark_sending i (fresh i) db2)"
  have send: "db3 = set_reservation row3 db2" "mu_ok (snd (mark_sending i (fresh i) db2))"
    using row2 by (simp_all add: db3_def mark_sending_def row3_def Let_def accepted_def)
  have wf3: "reservations_wf db3" unfolding db3_def by (rule reservation_effectD [OF mark_sending_effect [OF wf2]])
  have row3: "get_reservation i db3 = Some row3" "rr_claim_token row3 = Some (fresh i)" "rr_status row3 = Sending"
    using row2 by (simp_all add: send(1) get_set_reservation row3_def)
  obtain db4 resp where comp: "complete now i (fresh i) event db3 = (db4, resp)" by (metis surj_pair)
  have "get_reservation i db4 = Some (to_completed now row3)" "mu_ok resp"
    using complete_stored [OF wf3 row3(1,2) _ comp] row3(3) by simp_all
  moreover have "rr_status (to_completed now row3) = Completed" "rr_outcome_snapshot (to_completed now row3) = Some outcome"
    using row2(4) by (simp_all add: to_completed_def row3_def)
  ultimately show ?thesis
    using call send(2) comp unfolding oreq_def db1_def [symmetric] db3_def by (fastforce simp: accepted_def)
qed

theorem delivery_gets_through_witness:
  "\<exists>db2 resp. prepare_outcome_once ''tenant'' 0 (\<lambda>_. None) \<lparr>oc_reservation_id = ''r'', oc_claim_token = ''k'',
       oc_outcome_snapshot = fmempty, oc_settle_daily_feed = False\<rparr>
     (fst (claim 0 (\<lambda>_. ''k'') (\<lambda>_. ''n'') sample_claim ready_db)) = Inr (db2, resp) \<and> mu_ok resp"
proof -
  have row: "get_reservation ''r'' ready_db = Some (hd (roast_reservations ready_db))" by code_simp
  have "rr_outcome_snapshot (hd (roast_reservations ready_db)) = None" by code_simp
  moreover have "''r'' \<in> set (claimed_ids (claim 0 (\<lambda>_. ''k'') (\<lambda>_. ''n'') sample_claim ready_db))" by code_simp
  ultimately show ?thesis
    using delivery_gets_through [OF ready_reachable row, of 0 "\<lambda>_. ''k''" "\<lambda>_. ''n''" sample_claim] by blast
qed

subsection \<open>Payments\<close>

lemma force_denied_free:
  "consume_force_usage u d db = (db', False) \<Longrightarrow> db' = db"
  by (auto simp: consume_force_usage_def split: option.splits if_splits)

lemma usage_mark [simp]: "user_usage (mark_group_active_users now d g us db) = user_usage db"
  by (simp add: mark_group_active_users_def Let_def)

lemma usage_set [simp]:
  "user_usage (set_reservation r db) = user_usage db" "user_usage (put_protection p db) = user_usage db"
  "user_usage (add_participant q db) = user_usage db" "user_usage (set_contribution i u c db) = user_usage db"
  by (simp_all add: set_reservation_def put_protection_def add_participant_def set_contribution_def)

text \<open>Every answer but those that give a seat, and the refusal for want of a charge, which is looked at apart.\<close>

definition free_of_charge :: "prepare_status set" where
  "free_of_charge = - {ReservationCreated, ReservationJoined, ReservationUpgraded, CooldownDenied}"

lemma status_simps [simp]:
  "pa_status (answer s) = s" "pa_status (answer_item s row db) = s"
  "pa_reservation (answer_item s row db) = Some (reservation_to_schema row db)"
  by (simp_all add: answer_def answer_item_def)

lemma join_existing_charge:
  assumes "join_existing req now roll r db = (db', resp)" and "pa_status resp \<in> free_of_charge"
  shows "user_usage db' = user_usage db"
proof -
  have "user_usage db' = user_usage db"
    if "join_members req now roll r db = (db', resp)" "pa_status resp \<in> free_of_charge"
    using that force_denied_free
    by (auto simp: join_members_def Let_def free_of_charge_def split: prod.splits if_splits option.splits)
  with assms show ?thesis
    by (auto simp: join_existing_def take_over_def Let_def free_of_charge_def split: if_splits)
qed

lemma create_reservation_status:
  "create_reservation req now fresh protection roll cooldown db = Inr (db', resp) \<Longrightarrow> pa_status resp = ReservationCreated"
  by (auto simp: create_reservation_def Let_def split: sum.splits option.splits)

lemma refused_bucket:
  assumes "recover_charges c t now mx rs = (c', t')" and "c' \<le> 0" and "1 \<le> mx"
  shows "c \<le> 0 \<and> c' = 0 \<and> t' = int_or (Some t) now"
  using assms by (auto simp: recover_charges_def Let_def split: if_splits)

lemma denied_row:
  assumes "\<not> cr_allowed (snd (consume_row x now mx rs))" and "1 \<le> mx" and "0 < rs"
  shows "\<exists>c t. uu_roast_charges x = Some c \<and> c \<le> 0 \<and> uu_roast_charge_updated_ts x = Some t \<and>
    fst (consume_row x now mx rs) = x\<lparr>uu_roast_charges := Some 0, uu_roast_charge_updated_ts := Some (if t = 0 then now else t)\<rparr>"
proof -
  obtain c' t' where bucket: "bucket_of_row x now mx rs = (c', t')" by (metis surj_pair)
  have empty: "c' \<le> 0" using assms(1) bucket by (simp add: consume_row_def Let_def split: if_splits)
  then have row: "fst (consume_row x now mx rs) = x\<lparr>uu_roast_charges := Some c', uu_roast_charge_updated_ts := Some t'\<rparr>"
    by (simp add: consume_row_def bucket Let_def)
  obtain c t where legacy: "uu_roast_charges x = Some c" "uu_roast_charge_updated_ts x = Some t"
  proof (cases "\<exists>c t. uu_roast_charges x = Some c \<and> uu_roast_charge_updated_ts x = Some t")
    case False
    obtain s u where old: "state_from_legacy_last_use (int_or (uu_last_roast_ts x) 0) now mx rs = (s, u)" by (metis surj_pair)
    have "0 \<le> max 0 (now - int_or (uu_last_roast_ts x) 0) div rs" using assms(3) by (simp add: pos_imp_zdiv_nonneg_iff)
    then have "1 \<le> s" using old assms(2) by (auto simp: state_from_legacy_last_use_def Let_def split: if_splits)
    moreover have "recover_charges s u now mx rs = (c', t')"
      using bucket False old by (auto simp: bucket_of_row_def split: option.splits)
    ultimately have False using refused_bucket [OF _ empty assms(2)] by fastforce
    then show thesis ..
  qed (use that in blast)
  then have "recover_charges c (int_or (Some t) now) now mx rs = (c', t')"
    using bucket by (cases "c = 0") (simp_all add: bucket_of_row_def)
  from refused_bucket [OF this empty assms(2)] legacy row show ?thesis by (auto simp: int_or_def split: if_splits)
qed

lemma cooldown_denied_request:
  assumes "prepare_reservation req expected now fresh db = Inr (db', resp)" and "pa_status resp = CooldownDenied"
  shows "\<exists>db1 cooldown. user_usage db1 = user_usage db \<and> \<not> cr_allowed cooldown \<and>
    consume_roast_usage (rq_attacker_id req) (rq_now_ts req) (rq_cooldown_seconds req) (rq_max_charges req) (of_int now / 1000000) db1 = (db', cooldown)"
proof -
  obtain protection db1 where p: "effective_protection req db = (protection, db1)" by (metis surj_pair)
  have "user_usage db1 = user_usage db" using p
    by (auto simp: effective_protection_def Let_def split: option.splits if_splits)
  moreover have "pa_status (snd (join_existing req now roll r db1)) \<noteq> CooldownDenied" for roll r
    by (simp add: join_existing_def join_members_def take_over_def Let_def split: prod.split)
  then have joined: "join_existing req now roll r db1 \<noteq> (db', resp)" for roll r using assms(2) by (metis snd_conv)
  have "\<exists>roll. open_gathering req now fresh protection roll db1 = Inr (db', resp)"
    using assms p joined by (auto simp: prepare_reservation_def Let_def split: if_splits option.splits)
  ultimately show ?thesis
    using assms(2) create_reservation_status by (fastforce simp: open_gathering_def Let_def split: if_splits prod.splits)
qed

text \<open>
  C24: Nobody pays for nothing: unless a request gets a seat, created, joined or upgraded, every user's
  charges and forced roasts are exactly what they were. The one refusal that writes to them, for want
  of a charge, meets a stored bucket that is empty, and leaves it empty with the time from which
  its next charge is counted, and the rest of the row and all other rows untouched; only a time that
  was zero, which the source takes for none, becomes the present one.
\<close>

theorem no_charge_without_seat:
  assumes "prepare_reservation req expected now fresh db = Inr (db', resp)"
    and "pa_status resp \<notin> {ReservationCreated, ReservationJoined, ReservationUpgraded}"
  shows "user_usage db' = user_usage db \<or> pa_status resp = CooldownDenied \<and>
     (\<exists>row c t. one_or_none (\<lambda>x. uu_user_id x = rq_attacker_id req) (user_usage db) = Some row \<and>
        uu_roast_charges row = Some c \<and> c \<le> 0 \<and> uu_roast_charge_updated_ts row = Some t \<and>
        one_or_none (\<lambda>x. uu_user_id x = rq_attacker_id req) (user_usage db') = Some (row\<lparr>uu_roast_charges := Some 0,
           uu_roast_charge_updated_ts := Some (if t = 0 then effective_now (rq_now_ts req) (of_int now / 1000000) else t)\<rparr>) \<and>
        (\<forall>v. v \<noteq> rq_attacker_id req \<longrightarrow>
           one_or_none (\<lambda>x. uu_user_id x = v) (user_usage db') = one_or_none (\<lambda>x. uu_user_id x = v) (user_usage db)))"
proof -
  obtain protection db1 where p: "effective_protection req db = (protection, db1)" by (metis surj_pair)
  have usage: "user_usage db1 = user_usage db" using p
    by (auto simp: effective_protection_def Let_def split: option.splits if_splits)
  show ?thesis
  proof (cases "pa_status resp = CooldownDenied")
    case False
    with assms(2) have free: "pa_status resp \<in> free_of_charge" by (simp add: free_of_charge_def)
    have "user_usage db' = user_usage db1"
      using assms(1) p free join_existing_charge [of req now _ _ db1 db' resp, OF _ free] force_denied_free create_reservation_status
      by (fastforce simp: prepare_reservation_def open_gathering_def Let_def free_of_charge_def
          split: if_splits option.splits prod.splits)
    with usage show ?thesis by simp
  next
    case True
    let ?now = "effective_now (rq_now_ts req) (of_int now / 1000000)"
    obtain db1 cooldown where same: "user_usage db1 = user_usage db" and "\<not> cr_allowed cooldown"
      and charge: "consume_roast_usage (rq_attacker_id req) (rq_now_ts req) (rq_cooldown_seconds req) (rq_max_charges req)
        (of_int now / 1000000) db1 = (db', cooldown)"
      using cooldown_denied_request [OF assms(1) True] by blast
    obtain mx rs where clamp: "clamp_charge_settings (rq_max_charges req) (rq_cooldown_seconds req) = (mx, rs)" by (metis surj_pair)
    with clamp_bounds have settings: "1 \<le> mx" "0 < rs" by fastforce+
    obtain row where row: "one_or_none (\<lambda>x. uu_user_id x = rq_attacker_id req) (user_usage db) = Some row"
        "\<not> cr_allowed (snd (consume_row row ?now mx rs))"
        "user_usage db' = upd_rows (\<lambda>x. uu_user_id x = rq_attacker_id req) (\<lambda>x. fst (consume_row x ?now mx rs)) (user_usage db)"
      using charge \<open>\<not> cr_allowed cooldown\<close> clamp same by (auto simp: consume_roast_usage_def Let_def split: option.splits)
    have id: "uu_user_id (fst (consume_row x ?now mx rs)) = uu_user_id x" for x
      by (simp add: consume_row_def Let_def split: prod.split)
    have "one_or_none (\<lambda>x. uu_user_id x = v) (user_usage db') =
        (if v = rq_attacker_id req then Some (fst (consume_row row ?now mx rs))
         else one_or_none (\<lambda>x. uu_user_id x = v) (user_usage db))" for v
      unfolding row(3) using row(1) one_or_none_upd_key [where key = uu_user_id and k = v and k' = "rq_attacker_id req", OF id] by simp
    with row(1) True denied_row [OF row(2) settings] show ?thesis by auto
  qed
qed

definition full_request :: prepare_request where
  "full_request = sample_prepare\<lparr>rq_attacker_id := ''b''\<rparr>"

theorem no_charge_without_seat_witness:
  "user_usage (fst (projr (prepare_reservation full_request None 0 ''r2'' claimed_db))) = user_usage claimed_db"
proof -
  have ok: "prepare_reservation full_request None 0 ''r2'' claimed_db =
      Inr (fst (projr (prepare_reservation full_request None 0 ''r2'' claimed_db)),
           snd (projr (prepare_reservation full_request None 0 ''r2'' claimed_db)))"
    by (rule right_projr) code_simp
  have "pa_status (snd (projr (prepare_reservation full_request None 0 ''r2'' claimed_db))) = ReservationBusy"
    by code_simp
  with no_charge_without_seat [OF ok] show ?thesis by simp
qed

subsection \<open>The request that cannot be answered\<close>

lemma find_reservation_occupied:
  assumes wf: "reservations_wf db" and r: "r \<in> set (roast_reservations db)"
    and scope: "rr_date_str r = rq_date_str req" "rr_group_id r = rq_group_id req" "rr_target_id r = rq_target_id req"
    and state: "rr_status r \<notin> {Pending, Completed}" "rr_protection_required r \<le> 0" "rq_force_mode req \<noteq> Some ''super''"
  shows "find_reservation req db = None"
proof -
  have "rr_active_slot r = Some 1" using row_ok [OF wf r] state(1) by (simp add: reservation_ok_def)
  then have key: "active_target_key r = Some (rq_date_str req, rq_group_id req, rq_target_id req, 1)"
    using scope by (simp add: active_target_key_def)
  have "\<not> joinable req x" if x: "x \<in> set (roast_reservations db)" for x
  proof
    assume j: "joinable req x"
    then have "active_target_key x = active_target_key r" by (simp add: key) (simp add: joinable_def active_target_key_def)
    then have "x = r" using wf x r key by (auto simp: reservations_wf_def one_active_def)
    with j state show False by (auto simp: joinable_def)
  qed
  then show ?thesis by (simp add: find_reservation_def one_or_none_None_iff)
qed

text \<open>
  C25: A request the server cannot answer. While an unprotected reservation of a target is being delivered, the target
  may become protected; a new gathering request for that target then finds no reservation to join,
  may not roast at once, spends a charge and runs into the unique key of the target's slot, on both
  attempts. The endpoint ends with the error ``retry exhausted'' instead of an answer, for as long as
  the reservation is being delivered. (The transaction is rolled back, so the charge is kept.)
\<close>

theorem occupied_slot_is_unanswerable:
  assumes "reservation_step\<^sup>*\<^sup>* empty_db db" and "r \<in> set (roast_reservations db)"
    and "rr_date_str r = rq_date_str req" and "rr_group_id r = rq_group_id req" and "rr_target_id r = rq_target_id req"
    and "rr_status r \<notin> {Pending, Completed}" and "rr_protection_required r = 0"
    and "get_protection (rq_date_str req) (rq_group_id req) (rq_target_id req) db = Some p"
    and "gathers req" and "rq_force_mode req = None"
    and "cr_allowed (snd (consume_roast_usage (rq_attacker_id req) (rq_now_ts req) (rq_cooldown_seconds req)
           (rq_max_charges req) (of_int now / 1000000) db))"
  shows "prepare_endpoint req now fresh between (\<lambda>_. db) =
     Inl (RuntimeError ''prepare roast reservation retry exhausted'')"
proof -
  have wf: "reservations_wf db" using assms(1) by (rule reachable_wf)
  have protection: "effective_protection req db = (Some p, db)" using assms(8) by (simp add: effective_protection_def)
  have none: "find_reservation req db = None"
    using assms by (intro find_reservation_occupied [OF wf assms(2)]) simp_all
  obtain db2 cooldown where charge: "consume_roast_usage (rq_attacker_id req) (rq_now_ts req) (rq_cooldown_seconds req)
           (rq_max_charges req) (of_int now / 1000000) db = (db2, cooldown)" by (metis surj_pair)
  have rows: "roast_reservations db2 = roast_reservations db"
    using consume_roast_effect [OF wf charge] by simp
  have "rr_active_slot r = Some 1" using row_ok [OF wf assms(2)] assms(6) by (simp add: reservation_ok_def)
  then have "\<not> no_conflict active_target_key (new_reservation req i (Some p)) (roast_reservations db2)" for i
    using assms(2-5) unfolding rows no_conflict_def
    by (auto simp: new_reservation_def active_target_key_def intro!: bexI [of _ r])
  then have "create_reservation req now i (Some p) roll c db2 = Inl IntegrityError" for i roll c
    by (simp add: create_reservation_def insert_reservation_def Let_def)
  then have "prepare_reservation req None now i db = Inl IntegrityError" for i
    using assms(9-11) charge by (simp add: prepare_reservation_def open_gathering_def protection none Let_def)
  then have "prepare_once req now i between db = Inl IntegrityError" for i by (simp add: prepare_once_def)
  then show ?thesis unfolding prepare_endpoint_def by (intro retry_integrity_hopeless) simp
qed

lemma first_roast_allowed:
  "one_or_none (\<lambda>x. uu_user_id x = u) (user_usage db) = None \<Longrightarrow>
   cr_allowed (snd (consume_roast_usage u t cd mc clock db))"
  by (simp add: consume_roast_usage_def Let_def split: prod.split)

text \<open>
  Such a state is reached by a reservation for an unprotected target, the target's roll, and a grant.
\<close>

definition busy_db :: db where
  "busy_db = fst (activate_target_reservations 0 5 ''t'' ''boar'' [] (fst (projr (prepare_reservation sample_prepare None 0 ''r'' empty_db))))"

definition stuck_db :: db where
  "stuck_db = busy_db\<lparr>group_protections := group_protections guarded_db, daily_rolls := [sample_roll]\<rparr>"

lemma stuck_reachable: "reservation_step\<^sup>*\<^sup>* empty_db stuck_db"
proof -
  have ok: "prepare_reservation sample_prepare None 0 ''r'' empty_db =
      Inr (fst (projr (prepare_reservation sample_prepare None 0 ''r'' empty_db)),
           snd (projr (prepare_reservation sample_prepare None 0 ''r'' empty_db)))"
    by (rule right_projr) code_simp
  have 2: "reservation_step (fst (projr (prepare_reservation sample_prepare None 0 ''r'' empty_db))) busy_db"
    unfolding busy_db_def by (rule arrival)
  have 3: "reservation_step busy_db stuck_db" by (rule other) (simp_all add: stuck_db_def)
  have "reservation_step\<^sup>*\<^sup>* empty_db (fst (projr (prepare_reservation sample_prepare None 0 ''r'' empty_db)))"
    using prepare [OF ok] by (rule r_into_rtranclp)
  then have "reservation_step\<^sup>*\<^sup>* empty_db busy_db" using 2 by (rule rtranclp.rtrancl_into_rtrancl)
  then show ?thesis using 3 by (rule rtranclp.rtrancl_into_rtrancl)
qed

theorem occupied_slot_is_unanswerable_witness:
  "prepare_endpoint full_request 0 (\<lambda>k. ''r2'') id (\<lambda>_. stuck_db) =
     Inl (RuntimeError ''prepare roast reservation retry exhausted'')"
proof -
  let ?r = "hd (roast_reservations stuck_db)"
  have r: "?r \<in> set (roast_reservations stuck_db)" "rr_date_str ?r = rq_date_str full_request"
    "rr_group_id ?r = rq_group_id full_request" "rr_target_id ?r = rq_target_id full_request"
    "rr_status ?r \<notin> {Pending, Completed}" "rr_protection_required ?r = 0" by code_simp+
  have p: "get_protection (rq_date_str full_request) (rq_group_id full_request) (rq_target_id full_request) stuck_db =
      Some (hd (group_protections stuck_db))" by code_simp
  have q: "gathers full_request" "rq_force_mode full_request = None" by code_simp+
  have "one_or_none (\<lambda>u. uu_user_id u = rq_attacker_id full_request) (user_usage stuck_db) = None" by code_simp
  then have "cr_allowed (snd (consume_roast_usage (rq_attacker_id full_request) (rq_now_ts full_request)
      (rq_cooldown_seconds full_request) (rq_max_charges full_request) (of_int 0 / 1000000) stuck_db))"
    by (rule first_roast_allowed)
  from occupied_slot_is_unanswerable [OF stuck_reachable r p q this] show ?thesis .
qed

end
