(* ===== verification/DailyRolls.thy ===== *)
theory DailyRolls
  imports Delivery
begin

section \<open>Daily rolls (\<^verbatim>\<open>routers/daily_rolls.py\<close>, \<^verbatim>\<open>routers/group_rolls.py\<close>)\<close>

text \<open>
  The first request of a user and date decides the pig of the day and grows it; every later one
  only reads it. \<open>seen\<close> is the state the first query of a handler saw, \<open>db\<close> the state its
  transaction works on (after a lost race the handler rolls back and starts again from it), and
  \<open>others\<close> is what other transactions did between the commit of the roll and the second
  reconciliation of the reservations.
\<close>

subsection \<open>Requests\<close>

record roll_request =
  gc_user_id :: user_id
  gc_proposed_pig_id :: pig_id
  gc_date_str :: date
  gc_group_id :: group_id

record snapshot_request =
  sn_user_id :: user_id
  sn_date_str :: date
  sn_pig_id :: pig_id
  sn_resource_version :: string
  sn_payload :: appearance_payload

text \<open>The validators of the snapshot request.\<close>

definition validate_resolved_image_name :: "string \<Rightarrow> error + string" where
  "validate_resolved_image_name value =
     (if value = [] then Inr value
      else if value \<in> {''.'', ''..''} \<or> (\<exists>c\<in>set value. c \<in> {CHR ''/'', CHR 0x5C, CHR '':'', CHR 0x00}) then Inl ValueError
      else if \<exists>c\<in>set value. (of_char c :: nat) < 32 then Inl ValueError
      else Inr value)"

definition normalize_unlocked_variant_levels :: "int list \<Rightarrow> error + int list" where
  "normalize_unlocked_variant_levels value =
     (if \<exists>level\<in>set value. level < 1 \<or> 5 < level then Inl ValueError else Inr (sort (remdups value)))"

definition variant_field_order :: "string \<Rightarrow> nat" where
  "variant_field_order f = (if f = ''image'' then 0 else if f = ''description'' then 1 else 2)"

definition normalize_unlocked_variant_fields :: "string list \<Rightarrow> string list" where
  "normalize_unlocked_variant_fields value = sort_key variant_field_order (remdups value)"

subsection \<open>Get or create\<close>

definition get_group_roll :: "date \<Rightarrow> group_id \<Rightarrow> user_id \<Rightarrow> db \<Rightarrow> group_roll option" where
  "get_group_roll d g u db = one_or_none (\<lambda>r. group_roll_key r = (d, g, u)) (group_rolls db)"

definition add_group_roll :: "datetime \<Rightarrow> group_id \<Rightarrow> user_id \<Rightarrow> pig_id \<Rightarrow> date \<Rightarrow> db \<Rightarrow> db" where
  "add_group_roll now g u pig d db =
     (case get_group_roll d g u db of
        Some _ \<Rightarrow> db
      | None \<Rightarrow> db\<lparr>group_rolls := group_rolls db @
          [\<lparr>gr_date_str = d, gr_group_id = g, gr_user_id = u, gr_pig_id = pig, gr_seen_at = now\<rparr>]\<rparr>)"

definition ensure_group_roll :: "datetime \<Rightarrow> group_id \<Rightarrow> user_id \<Rightarrow> pig_id \<Rightarrow> date \<Rightarrow> db \<Rightarrow> db" where
  "ensure_group_roll now g u pig d db =
     (if g = [] then db else mark_group_active_users now d g [u] (add_group_roll now g u pig d db))"

definition reconcile_reservations_after_commit :: "datetime \<Rightarrow> date \<Rightarrow> user_id \<Rightarrow> pig_id \<Rightarrow> db \<Rightarrow> db" where
  "reconcile_reservations_after_commit now d u pig db = fst (activate_target_reservations now d u pig [] db)"

definition created_roll :: "datetime \<Rightarrow> roll_request \<Rightarrow> appearance option \<Rightarrow> created_roll_progress \<Rightarrow> daily_roll" where
  "created_roll now req appearance p =
     \<lparr>dr_date_str = gc_date_str req, dr_user_id = gc_user_id req, dr_pig_id = gc_proposed_pig_id req,
      dr_is_new_pig = Some (cp_is_new_pig p), dr_previous_copies = Some (cp_previous_copies p),
      dr_copies_after_roll = Some (cp_copies_after_roll p),
      dr_previous_expert_level = Some (cp_previous_expert_level p),
      dr_expert_level_after_roll = Some (cp_expert_level_after_roll p),
      dr_collection_size_after_roll = Some (cp_collection_size_after_roll p),
      dr_previous_duplicate_streak = Some (cp_previous_duplicate_streak p),
      dr_duplicate_streak_after_roll = Some (cp_duplicate_streak_after_roll p),
      dr_resource_version = None, dr_appearance_snapshot = appearance, dr_created_at = now\<rparr>"

definition insert_roll :: "string \<Rightarrow> datetime \<Rightarrow> roll_request \<Rightarrow> appearance option \<Rightarrow> db \<Rightarrow> error + db \<times> daily_roll" where
  "insert_roll tenant now req appearance db =
     (if get_daily_roll (gc_date_str req) (gc_user_id req) db \<noteq> None then Inl IntegrityError
      else
        let (db1, p) = apply_created_roll_progress tenant now (gc_user_id req) (gc_proposed_pig_id req) db;
            roll = created_roll now req appearance p
        in Inr (db1\<lparr>daily_rolls := daily_rolls db1 @ [roll]\<rparr>, roll))"

text \<open>The answer for a roll that exists already.\<close>

definition existing_roll ::
  "string \<Rightarrow> datetime \<Rightarrow> api_key_identity option \<Rightarrow> (db \<Rightarrow> db) \<Rightarrow> roll_request \<Rightarrow> daily_roll \<Rightarrow> db \<Rightarrow>
   error + db \<times> daily_roll_lookup_response" where
  "existing_roll tenant now identity others req existing db =
     (if is_makeup existing then
        (case record_key_mutation_outcome now identity ''POST /v1/daily-rolls/get-or-create''
                (no_mutation\<lparr>mc_idempotent := 1\<rparr>) db of
           Inl e \<Rightarrow> Inl e
         | Inr db' \<Rightarrow> Inr (db', build_lookup_response tenant (Some existing) False db'))
      else
        (case record_key_mutation_outcome now identity ''POST /v1/daily-rolls/get-or-create''
                (no_mutation\<lparr>mc_idempotent := 1\<rparr>)
                (ensure_group_roll now (gc_group_id req) (gc_user_id req) (dr_pig_id existing) (gc_date_str req) db) of
           Inl e \<Rightarrow> Inl e
         | Inr db1 \<Rightarrow>
             let db2 = reconcile_reservations_after_commit now (gc_date_str req) (gc_user_id req) (dr_pig_id existing)
                   (others db1)
             in Inr (db2, build_lookup_response tenant (Some existing) False db2)))"

definition create_roll ::
  "string \<Rightarrow> datetime \<Rightarrow> api_key_identity option \<Rightarrow> (db \<Rightarrow> db) \<Rightarrow> roll_request \<Rightarrow> db \<Rightarrow>
   error + db \<times> daily_roll_lookup_response" where
  "create_roll tenant now identity others req db =
     (case insert_roll tenant now req None db of
        Inl e \<Rightarrow> Inl e
      | Inr (db1, roll) \<Rightarrow>
          let db2 = ensure_group_roll now (gc_group_id req) (gc_user_id req) (gc_proposed_pig_id req) (gc_date_str req) db1;
              db3 = fst (activate_target_reservations now (gc_date_str req) (gc_user_id req) (gc_proposed_pig_id req) [] db2)
          in case record_key_mutation_outcome now identity ''POST /v1/daily-rolls/get-or-create''
                    (no_mutation\<lparr>mc_created := 1\<rparr>) db3 of
               Inl e \<Rightarrow> Inl e
             | Inr db4 \<Rightarrow>
                 let db5 = reconcile_reservations_after_commit now (gc_date_str req) (gc_user_id req)
                       (gc_proposed_pig_id req) (others db4)
                 in Inr (db5, build_lookup_response tenant (Some roll) True db5))"

definition get_or_create_once ::
  "string \<Rightarrow> datetime \<Rightarrow> api_key_identity option \<Rightarrow> (db \<Rightarrow> db) \<Rightarrow> roll_request \<Rightarrow> db \<Rightarrow> db \<Rightarrow>
   error + db \<times> daily_roll_lookup_response" where
  "get_or_create_once tenant now identity others req seen db =
     (case get_daily_roll (gc_date_str req) (gc_user_id req) seen of
        Some existing \<Rightarrow> existing_roll tenant now identity others req existing db
      | None \<Rightarrow>
          (case create_roll tenant now identity others req db of
             Inl IntegrityError \<Rightarrow>
               (case get_daily_roll (gc_date_str req) (gc_user_id req) db of
                  None \<Rightarrow> Inl IntegrityError
                | Some existing \<Rightarrow> existing_roll tenant now identity others req existing db)
           | result \<Rightarrow> result))"

definition get_or_create_daily_roll ::
  "string \<Rightarrow> (nat \<Rightarrow> datetime) \<Rightarrow> api_key_identity option \<Rightarrow> (db \<Rightarrow> db) \<Rightarrow> roll_request \<Rightarrow>
   (nat \<Rightarrow> db) \<Rightarrow> (nat \<Rightarrow> db) \<Rightarrow> error + db \<times> daily_roll_lookup_response" where
  "get_or_create_daily_roll tenant now identity others req seen dbs =
     retry_roll_conflicts (\<lambda>k. get_or_create_once tenant (now k) identity others req (seen k) (dbs k))"

subsection \<open>Making up for yesterday\<close>

definition makeup_known ::
  "string \<Rightarrow> datetime \<Rightarrow> api_key_identity option \<Rightarrow> daily_roll \<Rightarrow> db \<Rightarrow> error + db \<times> daily_roll_lookup_response" where
  "makeup_known tenant now identity existing db =
     (case record_key_mutation_outcome now identity ''POST /v1/daily-rolls/makeup'' (no_mutation\<lparr>mc_idempotent := 1\<rparr>) db of
        Inl e \<Rightarrow> Inl e
      | Inr db' \<Rightarrow> Inr (db', build_lookup_response tenant (Some existing) False db'))"

definition makeup_create ::
  "string \<Rightarrow> datetime \<Rightarrow> api_key_identity option \<Rightarrow> roll_request \<Rightarrow> db \<Rightarrow> error + db \<times> daily_roll_lookup_response" where
  "makeup_create tenant now identity req db =
     (case insert_roll tenant now req (Some \<lparr>ap_is_makeup = True, ap_payload = None\<rparr>) db of
        Inl e \<Rightarrow> Inl e
      | Inr (db1, roll) \<Rightarrow>
          (case record_key_mutation_outcome now identity ''POST /v1/daily-rolls/makeup'' (no_mutation\<lparr>mc_created := 1\<rparr>) db1 of
             Inl e \<Rightarrow> Inl e
           | Inr db2 \<Rightarrow> Inr (db2, build_lookup_response tenant (Some roll) True db2)))"

definition makeup_once ::
  "string \<Rightarrow> datetime \<Rightarrow> api_key_identity option \<Rightarrow> roll_request \<Rightarrow> db \<Rightarrow> db \<Rightarrow>
   error + db \<times> daily_roll_lookup_response" where
  "makeup_once tenant now identity req seen db =
     (if gc_date_str req \<noteq> rollpig_today now - 1 then Inl (HTTPException 422)
      else
        case get_daily_roll (gc_date_str req) (gc_user_id req) seen of
          Some existing \<Rightarrow> makeup_known tenant now identity existing db
        | None \<Rightarrow>
            (case makeup_create tenant now identity req db of
               Inl IntegrityError \<Rightarrow>
                 (case get_daily_roll (gc_date_str req) (gc_user_id req) db of
                    None \<Rightarrow> Inl IntegrityError
                  | Some existing \<Rightarrow> makeup_known tenant now identity existing db)
             | result \<Rightarrow> result))"

definition makeup_daily_roll ::
  "string \<Rightarrow> (nat \<Rightarrow> datetime) \<Rightarrow> api_key_identity option \<Rightarrow> roll_request \<Rightarrow> (nat \<Rightarrow> db) \<Rightarrow> (nat \<Rightarrow> db) \<Rightarrow>
   error + db \<times> daily_roll_lookup_response" where
  "makeup_daily_roll tenant now identity req seen dbs =
     retry_roll_conflicts (\<lambda>k. makeup_once tenant (now k) identity req (seen k) (dbs k))"

subsection \<open>Reading rolls\<close>

definition get_daily_roll_by_date :: "string \<Rightarrow> user_id \<Rightarrow> date \<Rightarrow> db \<Rightarrow> daily_roll_lookup_response" where
  "get_daily_roll_by_date tenant u d db =
     (case get_daily_roll d u db of
        None \<Rightarrow> no_roll_response False
      | Some existing \<Rightarrow> build_lookup_response tenant (Some existing) False db)"

definition get_daily_rolls :: "date \<Rightarrow> db \<Rightarrow> (user_id \<times> pig_id) list" where
  "get_daily_rolls d db =
     map (\<lambda>r. (dr_user_id r, dr_pig_id r)) (filter (\<lambda>r. dr_date_str r = d) (daily_rolls db))"

subsection \<open>The appearance snapshot\<close>

definition snapshot_of :: "bool \<Rightarrow> snapshot_request \<Rightarrow> appearance" where
  "snapshot_of makeup req = \<lparr>ap_is_makeup = makeup, ap_payload = Some (sn_payload req)\<rparr>"

definition has_existing_snapshot :: "daily_roll \<Rightarrow> bool" where
  "has_existing_snapshot r \<longleftrightarrow>
     dr_resource_version r \<noteq> None \<or>
     (dr_appearance_snapshot r \<noteq> None \<and> dr_appearance_snapshot r \<noteq> Some \<lparr>ap_is_makeup = True, ap_payload = None\<rparr>)"

definition snapshot_answer :: "snapshot_request \<Rightarrow> daily_roll \<Rightarrow> outcome_snapshot" where
  "snapshot_answer req r =
     \<lparr>os_snapshot_available = True, os_collection_size_after_roll = int_or (dr_collection_size_after_roll r) 0,
      os_resource_version = sn_resource_version req, os_payload = sn_payload req\<rparr>"

definition complete_daily_roll_snapshot ::
  "datetime \<Rightarrow> api_key_identity option \<Rightarrow> snapshot_request \<Rightarrow> db \<Rightarrow> error + db \<times> outcome_snapshot" where
  "complete_daily_roll_snapshot now identity req db =
     (case get_daily_roll (sn_date_str req) (sn_user_id req) db of
        None \<Rightarrow> Inl (HTTPException 404)
      | Some existing \<Rightarrow>
          if dr_pig_id existing \<noteq> sn_pig_id req then Inl (HTTPException 409)
          else if \<not> growth_snapshot_available existing then Inl (HTTPException 409)
          else
            let payload = snapshot_of (is_makeup existing) req;
                kept = has_existing_snapshot existing;
                db1 = db\<lparr>daily_rolls := upd_rows (\<lambda>r. daily_roll_key r = (sn_date_str req, sn_user_id req))
                  (\<lambda>r. r\<lparr>dr_resource_version := Some (sn_resource_version req), dr_appearance_snapshot := Some payload\<rparr>)
                  (daily_rolls db)\<rparr>
            in if kept \<and> (str_or (dr_resource_version existing) [] \<noteq> sn_resource_version req \<or>
                          dr_appearance_snapshot existing \<noteq> Some payload)
               then Inl (HTTPException 409)
               else
                 case record_key_mutation_outcome now identity ''PUT /v1/daily-rolls/snapshot''
                        (if kept then no_mutation\<lparr>mc_idempotent := 1\<rparr> else no_mutation\<lparr>mc_updated := 1\<rparr>)
                        (if kept then db else db1) of
                   Inl e \<Rightarrow> Inl e
                 | Inr db2 \<Rightarrow> Inr (db2, snapshot_answer req existing))"

subsection \<open>Group rolls\<close>

definition mark_seen ::
  "datetime \<Rightarrow> api_key_identity option \<Rightarrow> group_id \<Rightarrow> user_id \<Rightarrow> pig_id \<Rightarrow> date \<Rightarrow> db \<Rightarrow> error + db" where
  "mark_seen now identity g u pig d db =
     (let created = (get_group_roll d g u db = None) in
      record_key_mutation_outcome now identity ''POST /v1/group-rolls/mark-seen''
        (no_mutation\<lparr>mc_created := of_bool created, mc_idempotent := of_bool (\<not> created)\<rparr>)
        (mark_group_active_users now d g [u] (add_group_roll now g u pig d db)))"

definition get_group_rolls ::
  "dialect \<Rightarrow> int \<Rightarrow> group_id \<Rightarrow> date \<Rightarrow> py_datetime option \<Rightarrow> db \<Rightarrow> (user_id \<times> pig_id) list" where
  "get_group_rolls dialect tz g d cutoff_at db =
     map (\<lambda>r. (gr_user_id r, gr_pig_id r)) (filter (\<lambda>r. gr_group_id r = g \<and> gr_date_str r = d \<and>
       (case cutoff_at of None \<Rightarrow> True | Some c \<Rightarrow> gr_seen_at r \<le> database_cutoff_value dialect tz c)) (group_rolls db))"

subsection \<open>What the steps leave unchanged\<close>

lemma created_progress_frame:
  "get_daily_roll d u' (fst (apply_created_roll_progress t now u p db)) = get_daily_roll d u' db"
  by (simp add: apply_created_roll_progress_def Let_def case_prod_unfold frame_simps split: option.split)

lemma add_group_roll_frame [frame_simps]:
  "daily_rolls (add_group_roll now g u p d db) = daily_rolls db"
  "user_pig_progress (add_group_roll now g u p d db) = user_pig_progress db"
  by (simp_all add: add_group_roll_def split: option.split)

lemma ensure_group_roll_frame [frame_simps]:
  "daily_rolls (ensure_group_roll now g u p d db) = daily_rolls db"
  "user_pig_progress (ensure_group_roll now g u p d db) = user_pig_progress db"
  by (simp_all add: ensure_group_roll_def frame_simps mark_group_active_users_def Let_def)

lemma activate_target_frame [frame_simps]:
  "daily_rolls (fst (activate_target_reservations now d u p h db)) = daily_rolls db"
  "user_pig_progress (fst (activate_target_reservations now d u p h db)) = user_pig_progress db"
  by (simp_all add: activate_target_reservations_def activate_all_def split: option.split)

lemma reconcile_frame [frame_simps]:
  "daily_rolls (reconcile_reservations_after_commit now d u p db) = daily_rolls db"
  "user_pig_progress (reconcile_reservations_after_commit now d u p db) = user_pig_progress db"
  by (simp_all add: reconcile_reservations_after_commit_def frame_simps)

lemma outcome_keeps:
  assumes "record_key_mutation_outcome now identity operation counts db = Inr db'"
  shows "daily_rolls db' = daily_rolls db" and "user_pig_progress db' = user_pig_progress db"
    and "roast_reservations db' = roast_reservations db"
    and "roast_reservation_participants db' = roast_reservation_participants db"
    and "group_rolls db' = group_rolls db" and "group_daily_active_users db' = group_daily_active_users db"
  using assms
  by (auto simp: record_key_mutation_outcome_def upsert_daily_usage_def upsert_identity_def Let_def
      split: option.splits if_splits)

lemma lookup_fields:
  "lr_pig_id (build_lookup_response t (Some r) c db) = Some (dr_pig_id r)"
  "lr_created (build_lookup_response t (Some r) c db) = c"
  by (simp_all add: build_lookup_response_def Let_def)

lemma lookup_created_roll:
  "lr_copies (build_lookup_response t (Some (created_roll now req a p)) c db) = cp_copies_after_roll p"
  "lr_previous_copies (build_lookup_response t (Some (created_roll now req a p)) c db) = cp_previous_copies p"
  by (simp_all add: build_lookup_response_def Let_def created_roll_def growth_snapshot_available_def)

subsection \<open>A created roll\<close>

lemma insert_roll_effect:
  assumes "insert_roll t now req a db = Inr (db1, roll)"
  obtains p x where "roll = created_roll now req a p" "cp_copies_after_roll p = cp_previous_copies p + 1"
    "get_daily_roll (gc_date_str req) (gc_user_id req) db = None"
    "\<And>d u. get_daily_roll d u db1 =
       (if (d, u) = (gc_date_str req, gc_user_id req) then Some roll else get_daily_roll d u db)"
    "get_progress t (gc_user_id req) (gc_proposed_pig_id req) db1 = Some x" "up_copies x = cp_copies_after_roll p"
proof -
  obtain db0 p where step: "apply_created_roll_progress t now (gc_user_id req) (gc_proposed_pig_id req) db = (db0, p)"
    by (metis surj_pair)
  have none: "get_daily_roll (gc_date_str req) (gc_user_id req) db = None"
    and roll: "roll = created_roll now req a p" and db1: "db1 = db0\<lparr>daily_rolls := daily_rolls db0 @ [roll]\<rparr>"
    using assms step by (auto simp: insert_roll_def Let_def split: if_splits)
  have kept: "get_daily_roll d u db0 = get_daily_roll d u db" for d u
    using created_progress_frame [of d u t now "gc_user_id req" "gc_proposed_pig_id req" db] step by simp
  have "daily_roll_key roll = (gc_date_str req, gc_user_id req)" by (simp add: roll created_roll_def daily_roll_key_def)
  then have rolls: "get_daily_roll d u db1 =
      (if (d, u) = (gc_date_str req, gc_user_id req) then Some roll else get_daily_roll d u db)" for d u
    using kept [of d u] none by (auto simp: db1 get_daily_roll_def one_or_none_append split: option.splits)
  have "\<exists>x. get_progress t (gc_user_id req) (gc_proposed_pig_id req) db0 = Some x \<and> up_copies x = cp_copies_after_roll p"
  proof (cases "get_progress t (gc_user_id req) (gc_proposed_pig_id req) db")
    case None
    from created_roll_state(1) [OF step None] show ?thesis
      by (auto simp: frame_simps get_progress_add progress_key_def None)
  next
    case (Some x)
    from created_roll_state(2) [OF step Some] Some show ?thesis by (auto simp: frame_simps get_progress_set)
  qed
  moreover have "get_progress t u q db1 = get_progress t u q db0" for u q by (simp add: db1 get_progress_def)
  ultimately show thesis using that roll created_roll_numbers(1) [OF step] none rolls by metis
qed

lemma get_daily_roll_cong: "daily_rolls db' = daily_rolls db \<Longrightarrow> get_daily_roll d u db' = get_daily_roll d u db"
  by (simp add: get_daily_roll_def)

lemma get_progress_cong: "user_pig_progress db' = user_pig_progress db \<Longrightarrow> get_progress t u p db' = get_progress t u p db"
  by (simp add: get_progress_def)

text \<open>What the other transactions may not do in between: write rolls or growth.\<close>

definition leaves_rolls :: "(db \<Rightarrow> db) \<Rightarrow> bool" where
  "leaves_rolls others \<longleftrightarrow>
     (\<forall>db. daily_rolls (others db) = daily_rolls db \<and> user_pig_progress (others db) = user_pig_progress db)"

lemma existing_roll_effect:
  assumes "leaves_rolls others" and "existing_roll t now identity others req existing db = Inr (db', resp)"
  shows "daily_rolls db' = daily_rolls db" "user_pig_progress db' = user_pig_progress db"
    "lr_pig_id resp = Some (dr_pig_id existing)" "\<not> lr_created resp"
  using assms
  by (auto simp: existing_roll_def leaves_rolls_def Let_def frame_simps lookup_fields
      split: if_splits sum.splits dest: outcome_keeps)

lemma create_roll_effect:
  assumes "leaves_rolls others" and "create_roll t now identity others req db = Inr (db', resp)"
  obtains db1 roll where "insert_roll t now req None db = Inr (db1, roll)"
    "daily_rolls db' = daily_rolls db1" "user_pig_progress db' = user_pig_progress db1"
    "resp = build_lookup_response t (Some roll) True db'"
proof -
  obtain db1 roll where ins: "insert_roll t now req None db = Inr (db1, roll)"
    using assms(2) by (auto simp: create_roll_def split: sum.splits)
  then show thesis
    using assms by (intro that [OF ins])
      (auto simp: create_roll_def leaves_rolls_def Let_def frame_simps split: sum.splits dest: outcome_keeps)
qed

lemma makeup_create_effect:
  assumes "makeup_create t now identity req db = Inr (db', resp)"
  obtains db1 roll where "insert_roll t now req (Some \<lparr>ap_is_makeup = True, ap_payload = None\<rparr>) db = Inr (db1, roll)"
    "daily_rolls db' = daily_rolls db1" "user_pig_progress db' = user_pig_progress db1"
    "resp = build_lookup_response t (Some roll) True db'"
proof -
  obtain db1 roll where ins: "insert_roll t now req (Some \<lparr>ap_is_makeup = True, ap_payload = None\<rparr>) db = Inr (db1, roll)"
    using assms by (auto simp: makeup_create_def split: sum.splits)
  then show thesis
    using assms by (intro that [OF ins]) (auto simp: makeup_create_def split: sum.splits dest: outcome_keeps)
qed

lemma get_or_create_cases:
  assumes "get_or_create_once t now identity others req seen db = Inr res"
    and "get_daily_roll (gc_date_str req) (gc_user_id req) seen \<in> {None, get_daily_roll (gc_date_str req) (gc_user_id req) db}"
  obtains (old) r where "get_daily_roll (gc_date_str req) (gc_user_id req) db = Some r"
      "existing_roll t now identity others req r db = Inr res"
  | (new) "get_daily_roll (gc_date_str req) (gc_user_id req) db = None" "create_roll t now identity others req db = Inr res"
proof (cases "get_daily_roll (gc_date_str req) (gc_user_id req) db")
  case None
  with assms new show thesis by (auto simp: get_or_create_once_def split: sum.splits error.splits)
next
  case (Some r)
  then have "create_roll t now identity others req db = Inl IntegrityError" by (simp add: create_roll_def insert_roll_def)
  with Some assms old [of r] show thesis by (auto simp: get_or_create_once_def)
qed

lemma makeup_cases:
  assumes "makeup_once t now identity req seen db = Inr res"
    and "get_daily_roll (gc_date_str req) (gc_user_id req) seen \<in> {None, get_daily_roll (gc_date_str req) (gc_user_id req) db}"
  obtains (old) r where "get_daily_roll (gc_date_str req) (gc_user_id req) db = Some r" "makeup_known t now identity r db = Inr res"
  | (new) "get_daily_roll (gc_date_str req) (gc_user_id req) db = None" "makeup_create t now identity req db = Inr res"
proof (cases "get_daily_roll (gc_date_str req) (gc_user_id req) db")
  case None
  with assms new show thesis by (auto simp: makeup_once_def split: sum.splits error.splits if_splits)
next
  case (Some r)
  then have "makeup_create t now identity req db = Inl IntegrityError" by (simp add: makeup_create_def insert_roll_def)
  with Some assms old [of r] show thesis by (auto simp: makeup_once_def split: if_splits)
qed

lemma makeup_known_effect:
  assumes "makeup_known t now identity existing db = Inr (db', resp)"
  shows "daily_rolls db' = daily_rolls db" "user_pig_progress db' = user_pig_progress db"
    "lr_pig_id resp = Some (dr_pig_id existing)" "\<not> lr_created resp"
  using assms by (auto simp: makeup_known_def lookup_fields split: sum.splits dest: outcome_keeps)

text \<open>The verdict on a roll request, from the states before and after it.\<close>

definition roll_decided :: "string \<Rightarrow> roll_request \<Rightarrow> db \<Rightarrow> db \<Rightarrow> daily_roll_lookup_response \<Rightarrow> bool" where
  "roll_decided t req db db' resp \<longleftrightarrow>
     (case get_daily_roll (gc_date_str req) (gc_user_id req) db of
        Some r \<Rightarrow> daily_rolls db' = daily_rolls db \<and> user_pig_progress db' = user_pig_progress db \<and>
          \<not> lr_created resp \<and> lr_pig_id resp = Some (dr_pig_id r)
      | None \<Rightarrow> lr_created resp \<and> lr_pig_id resp = Some (gc_proposed_pig_id req) \<and>
          map_option dr_pig_id (get_daily_roll (gc_date_str req) (gc_user_id req) db') = Some (gc_proposed_pig_id req) \<and>
          map_option up_copies (get_progress t (gc_user_id req) (gc_proposed_pig_id req) db') = Some (lr_copies resp) \<and>
          lr_copies resp = lr_previous_copies resp + 1)"

lemma inserted_roll_decided:
  assumes "insert_roll t now req a db = Inr (db1, roll)"
    and "daily_rolls db' = daily_rolls db1" and "user_pig_progress db' = user_pig_progress db1"
    and "resp = build_lookup_response t (Some roll) True db'"
  shows "roll_decided t req db db' resp"
  using assms(1)
proof (rule insert_roll_effect)
  fix p x
  assume p: "roll = created_roll now req a p" "cp_copies_after_roll p = cp_previous_copies p + 1"
    "get_daily_roll (gc_date_str req) (gc_user_id req) db = None"
    "\<And>d u. get_daily_roll d u db1 =
       (if (d, u) = (gc_date_str req, gc_user_id req) then Some roll else get_daily_roll d u db)"
    "get_progress t (gc_user_id req) (gc_proposed_pig_id req) db1 = Some x" "up_copies x = cp_copies_after_roll p"
  have "dr_pig_id roll = gc_proposed_pig_id req" by (simp add: p(1) created_roll_def)
  with p show ?thesis
    unfolding roll_decided_def assms(4)
    by (simp add: lookup_fields lookup_created_roll get_daily_roll_cong [OF assms(2)] get_progress_cong [OF assms(3)])
qed

text \<open>
  C7: The first roll of a user and date decides, and only the first one grows: a request for a
  date that has a roll changes no roll and no copy and answers with the stored pig, also when the
  roll was created by a concurrent request that this one had not seen; otherwise the proposed pig
  becomes the roll and the user gets exactly one copy of it, as reported. The same holds for a
  makeup.
\<close>

theorem roll_decided_once:
  assumes "leaves_rolls others"
    and "get_daily_roll (gc_date_str req) (gc_user_id req) seen \<in> {None, get_daily_roll (gc_date_str req) (gc_user_id req) db}"
    and "get_or_create_once t now identity others req seen db = Inr (db', resp) \<or>
      makeup_once t now identity req seen db = Inr (db', resp)"
  shows "roll_decided t req db db' resp"
  using assms(3)
proof
  assume "get_or_create_once t now identity others req seen db = Inr (db', resp)"
  from this assms(2) show ?thesis
  proof (cases rule: get_or_create_cases)
    case (old r)
    with existing_roll_effect [OF assms(1) old(2)] show ?thesis by (simp add: roll_decided_def)
  next
    case new
    from create_roll_effect [OF assms(1) new(2)] inserted_roll_decided show ?thesis by metis
  qed
next
  assume "makeup_once t now identity req seen db = Inr (db', resp)"
  from this assms(2) show ?thesis
  proof (cases rule: makeup_cases)
    case (old r)
    with makeup_known_effect [OF old(2)] show ?thesis by (simp add: roll_decided_def)
  next
    case new
    from makeup_create_effect [OF new(2)] inserted_roll_decided show ?thesis by metis
  qed
qed

definition sample_roll_request :: roll_request where
  "sample_roll_request = \<lparr>gc_user_id = ''u'', gc_proposed_pig_id = ''pig'', gc_date_str = 5, gc_group_id = ''g''\<rparr>"

definition roll_twice :: "db \<times> daily_roll_lookup_response" where
  "roll_twice =
     (let db1 = fst (projr (get_or_create_once ''t'' 7 None (\<lambda>db. db) sample_roll_request empty_db empty_db))
      in projr (get_or_create_once ''t'' 8 None (\<lambda>db. db) (sample_roll_request\<lparr>gc_proposed_pig_id := ''boar''\<rparr>) empty_db db1))"

theorem roll_decided_once_witness:
  "lr_pig_id (snd roll_twice) = Some ''pig'' \<and> \<not> lr_created (snd roll_twice)"
proof -
  let ?db1 = "fst (projr (get_or_create_once ''t'' 7 None (\<lambda>db. db) sample_roll_request empty_db empty_db))"
  let ?again = "get_or_create_once ''t'' 8 None (\<lambda>db. db) (sample_roll_request\<lparr>gc_proposed_pig_id := ''boar''\<rparr>) empty_db ?db1"
  have "\<not> isl ?again" by code_simp
  then have run: "?again = Inr (fst roll_twice, snd roll_twice)" by (simp add: roll_twice_def)
  have "leaves_rolls (\<lambda>db. db)" by (simp add: leaves_rolls_def)
  moreover have "get_daily_roll 5 ''u'' empty_db = None" by code_simp
  moreover have "map_option dr_pig_id (get_daily_roll 5 ''u'' ?db1) = Some ''pig''" by code_simp
  then obtain r where "get_daily_roll 5 ''u'' ?db1 = Some r" "dr_pig_id r = ''pig''" by auto
  ultimately show ?thesis
    using roll_decided_once [OF _ _ disjI1 [OF run]] by (simp add: sample_roll_request_def roll_decided_def)
qed

subsection \<open>The roll starts the waiting reservations\<close>

lemma lookup_is_makeup: "lr_is_makeup (build_lookup_response t (Some r) c db) = is_makeup r"
  by (simp add: build_lookup_response_def Let_def)

lemma activate_all_waiting:
  assumes "r \<in> set (roast_reservations (fst (activate_all now d u p h db)))" and "pending_of_target d u r"
  shows "rr_protection_required r \<noteq> 0 \<and> rr_force_mode r \<noteq> Some ''super'' \<and>
    gathered (rr_reservation_id r) db < rr_protection_required r \<and> rr_target_pig_id r = p"
proof -
  obtain s where "s \<in> set (roast_reservations db)" "r = (if pending_of_target d u s then activate_one now p h db s else s)"
    using assms(1) by (auto simp: activate_all_def set_upd_rows)
  with assms(2) have "pending_of_target d u s" "r = activate_one now p h db s" by (auto split: if_splits)
  with assms(2) show ?thesis
    by (auto simp: activate_one_def activate_in_def activate_reservation_def Let_def pending_of_target_def split: if_splits)
qed

text \<open>Every answer that is not about a makeup ends with the reconciliation.\<close>

lemma get_or_create_reconciles:
  assumes "leaves_rolls others"
    and "get_daily_roll (gc_date_str req) (gc_user_id req) seen \<in> {None, get_daily_roll (gc_date_str req) (gc_user_id req) db}"
    and "get_or_create_once t now identity others req seen db = Inr (db', resp)" and "\<not> lr_is_makeup resp"
  obtains s roll where "get_daily_roll (gc_date_str req) (gc_user_id req) s = Some roll" "\<not> is_makeup roll"
    "db' = reconcile_reservations_after_commit now (gc_date_str req) (gc_user_id req) (dr_pig_id roll) s"
    "lr_pig_id resp = Some (dr_pig_id roll)"
  using assms(3,2)
proof (cases rule: get_or_create_cases)
  case (old r)
  then obtain db1 where out: "record_key_mutation_outcome now identity ''POST /v1/daily-rolls/get-or-create''
      (no_mutation\<lparr>mc_idempotent := 1\<rparr>)
      (ensure_group_roll now (gc_group_id req) (gc_user_id req) (dr_pig_id r) (gc_date_str req) db) = Inr db1"
    and db': "db' = reconcile_reservations_after_commit now (gc_date_str req) (gc_user_id req) (dr_pig_id r) (others db1)"
    and resp: "resp = build_lookup_response t (Some r) False db'" and "\<not> is_makeup r"
    using assms(4) by (auto simp: existing_roll_def Let_def lookup_is_makeup split: if_splits sum.splits)
  have "daily_rolls (others db1) = daily_rolls db"
    using assms(1) outcome_keeps(1) [OF out] by (simp add: leaves_rolls_def frame_simps)
  with old(1) have "get_daily_roll (gc_date_str req) (gc_user_id req) (others db1) = Some r" by (simp add: get_daily_roll_def)
  from that [OF this \<open>\<not> is_makeup r\<close> db'] show thesis by (simp add: resp lookup_fields)
next
  case new
  then obtain db1 roll db4 where ins: "insert_roll t now req None db = Inr (db1, roll)"
    and out: "record_key_mutation_outcome now identity ''POST /v1/daily-rolls/get-or-create'' (no_mutation\<lparr>mc_created := 1\<rparr>)
      (fst (activate_target_reservations now (gc_date_str req) (gc_user_id req) (gc_proposed_pig_id req) []
        (ensure_group_roll now (gc_group_id req) (gc_user_id req) (gc_proposed_pig_id req) (gc_date_str req) db1))) = Inr db4"
    and db': "db' = reconcile_reservations_after_commit now (gc_date_str req) (gc_user_id req) (gc_proposed_pig_id req) (others db4)"
    and resp: "resp = build_lookup_response t (Some roll) True db'"
    by (auto simp: create_roll_def Let_def split: sum.splits)
  have "daily_rolls (others db4) = daily_rolls db1"
    using assms(1) outcome_keeps(1) [OF out] by (simp add: leaves_rolls_def frame_simps)
  moreover obtain p where roll: "roll = created_roll now req None p"
    and "get_daily_roll (gc_date_str req) (gc_user_id req) db1 = Some roll"
    using ins by (rule insert_roll_effect) auto
  ultimately have "get_daily_roll (gc_date_str req) (gc_user_id req) (others db4) = Some roll" by (simp add: get_daily_roll_def)
  moreover have "\<not> is_makeup roll" "dr_pig_id roll = gc_proposed_pig_id req"
    by (simp_all add: roll created_roll_def is_makeup_def)
  ultimately show thesis using that [of "others db4" roll] db' by (simp add: resp lookup_fields)
qed

text \<open>
  C31: A roll request that is not answered by a makeup leaves no reservation of the user waiting
  that could start: whatever other requests joined or opened reservations between its two
  transactions, every one still pending is protected, not a super force, lacks contributions, and
  knows the pig that has arrived.
\<close>

theorem roll_starts_waiting:
  assumes "leaves_rolls others"
    and "get_daily_roll (gc_date_str req) (gc_user_id req) seen \<in> {None, get_daily_roll (gc_date_str req) (gc_user_id req) db}"
    and "get_or_create_once t now identity others req seen db = Inr (db', resp)" and "\<not> lr_is_makeup resp"
    and "r \<in> set (roast_reservations db')" and "pending_of_target (gc_date_str req) (gc_user_id req) r"
  shows "rr_protection_required r \<noteq> 0 \<and> rr_force_mode r \<noteq> Some ''super'' \<and>
     gathered (rr_reservation_id r) db' < rr_protection_required r \<and> Some (rr_target_pig_id r) = lr_pig_id resp"
proof -
  obtain s roll where "get_daily_roll (gc_date_str req) (gc_user_id req) s = Some roll" "\<not> is_makeup roll"
    and db': "db' = reconcile_reservations_after_commit now (gc_date_str req) (gc_user_id req) (dr_pig_id roll) s"
    and pig: "lr_pig_id resp = Some (dr_pig_id roll)"
    by (rule get_or_create_reconciles [OF assms(1-4)])
  then have "db' = fst (activate_all now (gc_date_str req) (gc_user_id req) (dr_pig_id roll) [] s)"
    by (simp add: reconcile_reservations_after_commit_def activate_target_reservations_def)
  moreover from this have "gathered i db' = gathered i s" for i
    by (simp add: gathered_def locked_participants_def activate_all_def)
  ultimately show ?thesis using activate_all_waiting [of r now] assms(5,6) pig by auto
qed

definition waiting_db :: db where
  "waiting_db = fst (projr (prepare_reservation sample_prepare None 0 ''r'' (empty_db\<lparr>group_protections :=
     [\<lparr>gp_protect_date = 5, gp_group_id = ''g'', gp_user_id = ''t'', gp_roast_success_count = 0,
       gp_source_levels = Some [(''manual'', 3)], gp_source_baselines = None, gp_base_level = 3,
       gp_consecutive_days = 0\<rparr>]\<rparr>)))"

definition arrived :: "db \<times> daily_roll_lookup_response" where
  "arrived = projr (get_or_create_once ''t'' 7 None (\<lambda>db. db) (sample_roll_request\<lparr>gc_user_id := ''t''\<rparr>) waiting_db waiting_db)"

theorem roll_starts_waiting_witness:
  "rr_status (hd (roast_reservations (fst arrived))) = Pending \<and>
   gathered ''r'' (fst arrived) < rr_protection_required (hd (roast_reservations (fst arrived)))"
proof -
  let ?req = "sample_roll_request\<lparr>gc_user_id := ''t''\<rparr>"
  have "\<not> isl (get_or_create_once ''t'' 7 None (\<lambda>db. db) ?req waiting_db waiting_db)" by code_simp
  then have run: "get_or_create_once ''t'' 7 None (\<lambda>db. db) ?req waiting_db waiting_db = Inr (fst arrived, snd arrived)"
    by (simp add: arrived_def)
  let ?r = "hd (roast_reservations (fst arrived))"
  have "leaves_rolls (\<lambda>db. db)" by (simp add: leaves_rolls_def)
  moreover have "get_daily_roll (gc_date_str ?req) (gc_user_id ?req) waiting_db \<in>
      {None, get_daily_roll (gc_date_str ?req) (gc_user_id ?req) waiting_db}" by simp
  moreover have facts: "\<not> lr_is_makeup (snd arrived)" "roast_reservations (fst arrived) \<noteq> []"
    "pending_of_target (gc_date_str ?req) (gc_user_id ?req) ?r" "rr_reservation_id ?r = ''r''" by code_simp+
  moreover from facts(2) have "?r \<in> set (roast_reservations (fst arrived))" by simp
  ultimately have "gathered (rr_reservation_id ?r) (fst arrived) < rr_protection_required ?r"
    using roll_starts_waiting [OF _ _ run, of ?r] by blast
  with facts(3,4) show ?thesis by (simp add: pending_of_target_def)
qed

subsection \<open>The appearance snapshot\<close>

lemma idempotent_outcome: "\<exists>db'. record_key_mutation_outcome now identity operation (no_mutation\<lparr>mc_idempotent := 1\<rparr>) db = Inr db'"
  by (auto simp: record_key_mutation_outcome_def no_mutation_def split: option.split)

lemma snapshot_stored:
  assumes "complete_daily_roll_snapshot now identity req db = Inr (db', ans)"
  obtains r where "get_daily_roll (sn_date_str req) (sn_user_id req) db' = Some r"
    "dr_pig_id r = sn_pig_id req" "growth_snapshot_available r" "has_existing_snapshot r" "ans = snapshot_answer req r"
    "str_or (dr_resource_version r) [] = sn_resource_version req"
    "dr_appearance_snapshot r = Some (snapshot_of (is_makeup r) req)"
proof -
  obtain r0 where r0: "get_daily_roll (sn_date_str req) (sn_user_id req) db = Some r0" "dr_pig_id r0 = sn_pig_id req"
    "growth_snapshot_available r0" "ans = snapshot_answer req r0"
    using assms by (auto simp: complete_daily_roll_snapshot_def Let_def split: option.splits if_splits sum.splits)
  show thesis
  proof (cases "has_existing_snapshot r0")
    case True
    with assms r0 have "daily_rolls db' = daily_rolls db" "str_or (dr_resource_version r0) [] = sn_resource_version req"
      "dr_appearance_snapshot r0 = Some (snapshot_of (is_makeup r0) req)"
      by (auto simp: complete_daily_roll_snapshot_def Let_def split: if_splits sum.splits dest: outcome_keeps)
    with True r0 show thesis by (intro that [of r0]) (simp_all add: get_daily_roll_def)
  next
    case False
    let ?f = "\<lambda>r. r\<lparr>dr_resource_version := Some (sn_resource_version req),
        dr_appearance_snapshot := Some (snapshot_of (is_makeup r0) req)\<rparr>"
    from False assms r0 have "daily_rolls db' =
        upd_rows (\<lambda>r. daily_roll_key r = (sn_date_str req, sn_user_id req)) ?f (daily_rolls db)"
      by (auto simp: complete_daily_roll_snapshot_def Let_def split: sum.splits dest: outcome_keeps)
    moreover have "daily_roll_key (?f r) = daily_roll_key r" for r by (simp add: daily_roll_key_def)
    ultimately have "get_daily_roll (sn_date_str req) (sn_user_id req) db' = Some (?f r0)"
      using r0(1) one_or_none_upd_key [of daily_roll_key ?f] unfolding get_daily_roll_def by simp
    moreover have "is_makeup (?f r0) = is_makeup r0" by (simp add: is_makeup_def snapshot_of_def)
    moreover have "str_or (Some (sn_resource_version req)) [] = sn_resource_version req" by (simp add: str_or_def)
    ultimately show thesis using r0
      by (intro that [of "?f r0"]) (simp_all add: growth_snapshot_available_def has_existing_snapshot_def snapshot_answer_def)
  qed
qed

text \<open>
  C32: The first snapshot of a roll is the roll's: reading the roll gives back exactly what was
  stored, storing it again succeeds with the same answer and changes no roll, and any other snapshot
  for the same pig is refused as a conflict.
\<close>

theorem snapshot_stored_once:
  assumes "complete_daily_roll_snapshot now identity req db = Inr (db', ans)" and "sn_resource_version req \<noteq> []"
    and "sn_user_id req' = sn_user_id req" and "sn_date_str req' = sn_date_str req" and "sn_pig_id req' = sn_pig_id req"
  shows "lr_outcome_snapshot (get_daily_roll_by_date t (sn_user_id req) (sn_date_str req) db') = Some ans \<and>
     (if (sn_resource_version req', sn_payload req') = (sn_resource_version req, sn_payload req)
      then \<exists>db2. complete_daily_roll_snapshot now' identity' req' db' = Inr (db2, ans) \<and> daily_rolls db2 = daily_rolls db'
      else complete_daily_roll_snapshot now' identity' req' db' = Inl (HTTPException 409))"
proof -
  obtain r where r: "get_daily_roll (sn_date_str req) (sn_user_id req) db' = Some r"
    "dr_pig_id r = sn_pig_id req" "growth_snapshot_available r" "has_existing_snapshot r" "ans = snapshot_answer req r"
    "str_or (dr_resource_version r) [] = sn_resource_version req"
    "dr_appearance_snapshot r = Some (snapshot_of (is_makeup r) req)"
    by (rule snapshot_stored [OF assms(1)])
  have "lr_outcome_snapshot (get_daily_roll_by_date t (sn_user_id req) (sn_date_str req) db') = Some ans"
    using r assms(2)
    by (simp add: get_daily_roll_by_date_def build_lookup_response_def Let_def stored_outcome_snapshot_def
        snapshot_answer_def snapshot_of_def)
  moreover have "snapshot_of (is_makeup r) req = snapshot_of (is_makeup r) req' \<longleftrightarrow> sn_payload req = sn_payload req'"
    by (simp add: snapshot_of_def)
  moreover obtain db2 where out: "record_key_mutation_outcome now' identity' ''PUT /v1/daily-rolls/snapshot''
      (no_mutation\<lparr>mc_idempotent := 1\<rparr>) db' = Inr db2"
    using idempotent_outcome by blast
  moreover note outcome_keeps(1) [OF out]
  ultimately show ?thesis using r assms(3-5)
    by (auto simp: complete_daily_roll_snapshot_def Let_def snapshot_answer_def)
qed

definition sample_snapshot :: snapshot_request where
  "sample_snapshot = \<lparr>sn_user_id = ''u'', sn_date_str = 5, sn_pig_id = ''pig'', sn_resource_version = ''v1'',
     sn_payload = empty_payload\<lparr>resolved_image_name := ''a.png''\<rparr>\<rparr>"

theorem snapshot_stored_once_witness:
  "complete_daily_roll_snapshot 9 None (sample_snapshot\<lparr>sn_resource_version := ''v2''\<rparr>)
     (fst (projr (complete_daily_roll_snapshot 8 None sample_snapshot
       (fst (projr (get_or_create_once ''t'' 7 None (\<lambda>db. db) sample_roll_request empty_db empty_db)))))) =
   Inl (HTTPException 409)"
proof -
  let ?first = "complete_daily_roll_snapshot 8 None sample_snapshot
      (fst (projr (get_or_create_once ''t'' 7 None (\<lambda>db. db) sample_roll_request empty_db empty_db)))"
  have "\<not> isl ?first" by code_simp
  then have "?first = Inr (fst (projr ?first), snd (projr ?first))" by simp
  from snapshot_stored_once [OF this, of "sample_snapshot\<lparr>sn_resource_version := ''v2''\<rparr>" "''t''" 9 None]
  show ?thesis by (simp add: sample_snapshot_def)
qed

end
