(* ===== verification/Reports.thy ===== *)
theory Reports
  imports Contracts Models Transactions Tables
begin

section \<open>Daily reports: leases, retries and the point of no return\<close>

text \<open>
  The delivery part of \<open>routers/daily_reports.py\<close>: several bots offer to send the report
  of a group, one of them gets a lease, and the delivery ends as sent, uncertain, skipped or
  failed. A row is read first and changed later by an \<open>UPDATE\<close> whose condition repeats what was
  read, because SQLite ignores \<open>SELECT FOR UPDATE\<close>; therefore the operations here take the
  row as it was read (\<open>row\<close>) and the state the update finds (\<open>db\<close>), which may
  differ. Rows are never deleted, so a row's identity is its unique key.
\<close>

subsection \<open>Constants and times\<close>

definition DAILY_REPORT_CLAIM_TIMEOUT :: int where
  "DAILY_REPORT_CLAIM_TIMEOUT = minutes 5"

definition DAILY_REPORT_RETRY_DELAYS :: "int list" where
  "DAILY_REPORT_RETRY_DELAYS = [seconds 30, minutes 2, minutes 5]"

definition DAILY_REPORT_MAX_ATTEMPTS :: int where
  "DAILY_REPORT_MAX_ATTEMPTS = 1 + int (length DAILY_REPORT_RETRY_DELAYS)"

definition DAILY_REPORT_RETRY_CUTOFF :: int where
  "DAILY_REPORT_RETRY_CUTOFF = minutes 10"

text \<open>00:10 of the next day in Shanghai.\<close>

definition retry_deadline :: "date \<Rightarrow> datetime" where
  "retry_deadline d = utc_of (Aware (midnight (d + 1) + DAILY_REPORT_RETRY_CUTOFF) ROLLPIG_TIMEZONE)"

subsection \<open>Rows and conditional updates\<close>

definition get_delivery :: "date \<times> group_id \<Rightarrow> db \<Rightarrow> daily_report_delivery option" where
  "get_delivery k db = one_or_none (\<lambda>r. delivery_key r = k) (daily_report_deliveries db)"

definition new_delivery :: "date \<Rightarrow> datetime \<Rightarrow> group_id \<Rightarrow> daily_report_delivery" where
  "new_delivery d cutoff g =
     \<lparr>rd_date_str = d, rd_group_id = g, rd_status = DPending, rd_instance_id = '''', rd_delivery_bot_id = '''',
      rd_claim_token = None, rd_cutoff_at = cutoff, rd_claimed_at = None, rd_attempt_count = 0,
      rd_next_attempt_at = None, rd_sent_at = None, rd_message_id = '''', rd_last_error = ''''\<rparr>"

text \<open>\<open>session.execute(update(...).where(...).values(...))\<close> with its \<open>rowcount\<close>.\<close>

definition update_deliveries ::
  "(daily_report_delivery \<Rightarrow> bool) \<Rightarrow> (daily_report_delivery \<Rightarrow> daily_report_delivery) \<Rightarrow> db \<Rightarrow> db \<times> nat" where
  "update_deliveries P f db =
     (db\<lparr>daily_report_deliveries := upd_rows P f (daily_report_deliveries db)\<rparr>,
      length (filter P (daily_report_deliveries db)))"

definition refreshed :: "daily_report_delivery \<Rightarrow> db \<Rightarrow> daily_report_delivery" where
  "refreshed row db = (case get_delivery (delivery_key row) db of None \<Rightarrow> row | Some r \<Rightarrow> r)"

definition failed_row :: "string \<Rightarrow> daily_report_delivery \<Rightarrow> daily_report_delivery \<Rightarrow> daily_report_delivery" where
  "failed_row reason row r =
     r\<lparr>rd_status := DFailed, rd_next_attempt_at := None,
       rd_last_error := (if rd_last_error row = '''' then reason else rd_last_error row),
       rd_claim_token := None, rd_claimed_at := None, rd_instance_id := '''', rd_delivery_bot_id := ''''\<rparr>"

text \<open>The answer of the source (whether a row was changed) is used by no caller.\<close>

definition fail_delivery_if_unchanged :: "daily_report_delivery \<Rightarrow> string \<Rightarrow> db \<Rightarrow> db \<times> daily_report_delivery" where
  "fail_delivery_if_unchanged row reason db =
     (if rd_status row \<notin> {DPending, DClaimed} then (db, row)
      else
        let (db', _) = update_deliveries
          (\<lambda>r. delivery_key r = delivery_key row \<and> rd_status r = rd_status row \<and>
               rd_claim_token r = rd_claim_token row \<and> rd_attempt_count r = rd_attempt_count row)
          (failed_row reason row) db
        in (db', refreshed row db'))"

subsection \<open>Claiming\<close>

record report_claim_request =
  dq_date_str :: date
  dq_cutoff_at :: py_datetime
  dq_instance_id :: string
  dq_candidates :: "(group_id \<times> string) list"

record report_claim_item =
  rc_date_str :: date
  rc_group_id :: group_id
  rc_delivery_bot_id :: string
  rc_cutoff_at :: datetime
  rc_claim_token :: token
  rc_status :: delivery_status
  rc_attempt_count :: int

record report_claim_response =
  rc_items :: "report_claim_item list"
  rc_next_claim_at :: "datetime option"

definition report_item :: "daily_report_delivery \<Rightarrow> report_claim_item" where
  "report_item row =
     \<lparr>rc_date_str = rd_date_str row, rc_group_id = rd_group_id row, rc_delivery_bot_id = rd_delivery_bot_id row,
      rc_cutoff_at = rd_cutoff_at row, rc_claim_token = str_or (rd_claim_token row) '''',
      rc_status = rd_status row, rc_attempt_count = rd_attempt_count row\<rparr>"

definition same_owner_claim :: "datetime \<Rightarrow> report_claim_request \<Rightarrow> string \<Rightarrow> daily_report_delivery \<Rightarrow> bool" where
  "same_owner_claim now req sender row \<longleftrightarrow>
     rd_status row = DClaimed \<and> rd_claim_token row \<noteq> None \<and>
     (case rd_claimed_at row of None \<Rightarrow> False | Some t \<Rightarrow> now - DAILY_REPORT_CLAIM_TIMEOUT \<le> t) \<and>
     rd_instance_id row = take 64 (dq_instance_id req) \<and> rd_delivery_bot_id row = take 64 sender"

definition not_before :: "datetime option \<Rightarrow> datetime \<Rightarrow> bool" where
  "not_before next now \<longleftrightarrow> (case next of None \<Rightarrow> True | Some t \<Rightarrow> t \<le> now)"

definition pending_due :: "datetime \<Rightarrow> daily_report_delivery \<Rightarrow> bool" where
  "pending_due now r \<longleftrightarrow>
     rd_status r = DPending \<and> rd_cutoff_at r \<le> now \<and> not_before (rd_next_attempt_at r) now"

definition stale_claim :: "datetime \<Rightarrow> daily_report_delivery \<Rightarrow> bool" where
  "stale_claim now r \<longleftrightarrow>
     rd_status r = DClaimed \<and>
     (case rd_claimed_at r of None \<Rightarrow> True | Some t \<Rightarrow> t < now - DAILY_REPORT_CLAIM_TIMEOUT)"

definition leased_row ::
  "datetime \<Rightarrow> report_claim_request \<Rightarrow> string \<Rightarrow> token \<Rightarrow> daily_report_delivery \<Rightarrow> daily_report_delivery \<Rightarrow>
   daily_report_delivery" where
  "leased_row now req sender claim_token row r =
     r\<lparr>rd_status := DClaimed, rd_instance_id := take 64 (dq_instance_id req), rd_delivery_bot_id := take 64 sender,
       rd_claim_token := Some claim_token, rd_claimed_at := Some now,
       rd_attempt_count := rd_attempt_count row + 1, rd_next_attempt_at := None\<rparr>"

text \<open>One turn of the loop: the state, the row as the session then sees it, the item handed out.\<close>

definition claim_row ::
  "datetime \<Rightarrow> report_claim_request \<Rightarrow> string \<Rightarrow> token \<Rightarrow> daily_report_delivery \<Rightarrow> db \<Rightarrow>
   db \<times> daily_report_delivery \<times> report_claim_item option" where
  "claim_row now req sender claim_token row db =
     (if retry_deadline (rd_date_str row) \<le> now \<and> rd_status row \<in> {DPending, DClaimed} then
        let (db', row') = fail_delivery_if_unchanged row ''retry_deadline_exceeded'' db in (db', row', None)
      else if same_owner_claim now req sender row then (db, row, Some (report_item row))
      else if \<not> pending_due now row \<and> \<not> stale_claim now row then (db, row, None)
      else if DAILY_REPORT_MAX_ATTEMPTS \<le> rd_attempt_count row then
        let (db', row') = fail_delivery_if_unchanged row ''retry_attempts_exhausted'' db in (db', row', None)
      else
        let (db', rowcount) = update_deliveries
              (\<lambda>r. delivery_key r = delivery_key row \<and> rd_attempt_count r = rd_attempt_count row \<and>
                   (pending_due now r \<or> stale_claim now r))
              (leased_row now req sender claim_token row) db;
            row' = refreshed row db'
        in (db', row', if rowcount \<noteq> 1 then None else Some (report_item row')))"

fun claim_all ::
  "datetime \<Rightarrow> report_claim_request \<Rightarrow> string dict \<Rightarrow> (group_id \<Rightarrow> token) \<Rightarrow> daily_report_delivery list \<Rightarrow> db \<Rightarrow>
   db \<times> daily_report_delivery list \<times> report_claim_item list" where
  "claim_all now req candidates fresh [] db = (db, [], [])"
| "claim_all now req candidates fresh (row # rows) db =
     (let g = rd_group_id row;
          (db1, row', item) = claim_row now req (dict_get candidates g '''') (fresh g) row db;
          (db2, rows', items) = claim_all now req candidates fresh rows db1
      in (db2, row' # rows', (case item of None \<Rightarrow> items | Some i \<Rightarrow> i # items)))"

text \<open>When the client should ask again.\<close>

definition claim_candidate :: "token set \<Rightarrow> datetime \<Rightarrow> daily_report_delivery \<Rightarrow> datetime option" where
  "claim_candidate claimed_tokens now row =
     (let candidate =
        (if rd_status row = DPending then
           Some (max (rd_cutoff_at row) (case rd_next_attempt_at row of None \<Rightarrow> rd_cutoff_at row | Some t \<Rightarrow> t))
         else if rd_status row = DClaimed \<and> rd_claim_token row \<notin> Some ` claimed_tokens then
           Some ((case rd_claimed_at row of None \<Rightarrow> now | Some t \<Rightarrow> t) + DAILY_REPORT_CLAIM_TIMEOUT)
         else None)
      in case candidate of None \<Rightarrow> None
         | Some t \<Rightarrow> if t < retry_deadline (rd_date_str row) then Some t else None)"

definition next_claim_at :: "daily_report_delivery list \<Rightarrow> token set \<Rightarrow> datetime \<Rightarrow> datetime option" where
  "next_claim_at rows claimed_tokens now =
     (case List.map_filter (claim_candidate claimed_tokens now) rows of
        [] \<Rightarrow> None | t # ts \<Rightarrow> Some (fold min ts t))"

definition report_candidates :: "report_claim_request \<Rightarrow> string dict" where
  "report_candidates req =
     fold (\<lambda>(g, b). dict_put g b) (filter (\<lambda>(g, b). g \<noteq> [] \<and> b \<noteq> []) (dq_candidates req)) []"

text \<open>
  A claim meets three states: \<open>seen\<close> is what the query for the known groups saw, \<open>read\<close> what the
  query for the rows saw, and \<open>db\<close> what the inserts and updates meet. The inserts of new groups are
  flushed before the rows are queried and open the transaction, so then the rows are current; with
  no insert the rows can be stale when the backend ignores \<open>FOR UPDATE\<close>, until the first
  conditional update.
\<close>

definition claim_reports_at ::
  "datetime \<Rightarrow> (group_id \<Rightarrow> token) \<Rightarrow> report_claim_request \<Rightarrow> db \<Rightarrow> db \<Rightarrow> db \<Rightarrow> error + db \<times> report_claim_response" where
  "claim_reports_at now fresh req seen read db =
     (let candidates = report_candidates req in
      if candidates = [] then Inr (db, \<lparr>rc_items = [], rc_next_claim_at = None\<rparr>)
      else
        let d = dq_date_str req;
            missing = sort (filter (\<lambda>g. get_delivery (d, g) seen = None) (map fst candidates))
        in if \<exists>g\<in>set missing. get_delivery (d, g) db \<noteq> None then Inl IntegrityError
           else
             let db1 = db\<lparr>daily_report_deliveries := daily_report_deliveries db @
                   map (new_delivery d (utc_of (dq_cutoff_at req))) missing\<rparr>;
                 rows = sort_key rd_group_id (filter (\<lambda>r. rd_date_str r = d \<and> rd_group_id r \<in> fst ` set candidates)
                   (daily_report_deliveries (if missing = [] then read else db1)));
                 (db2, rows', items) = claim_all now req candidates fresh rows db1
             in Inr (db2, \<lparr>rc_items = items, rc_next_claim_at = next_claim_at rows' (rc_claim_token ` set items) now\<rparr>))"

text \<open>With row locks (MySQL), or when no other writer comes between, the rows are current.\<close>

definition claim_reports_once ::
  "datetime \<Rightarrow> (group_id \<Rightarrow> token) \<Rightarrow> report_claim_request \<Rightarrow> db \<Rightarrow> db \<Rightarrow> error + db \<times> report_claim_response" where
  "claim_reports_once now fresh req seen db = claim_reports_at now fresh req seen db db"

definition claim_daily_reports ::
  "(nat \<Rightarrow> datetime) \<Rightarrow> (nat \<Rightarrow> group_id \<Rightarrow> token) \<Rightarrow> report_claim_request \<Rightarrow> (nat \<Rightarrow> db) \<Rightarrow> (nat \<Rightarrow> db) \<Rightarrow> (nat \<Rightarrow> db) \<Rightarrow>
   error + db \<times> report_claim_response" where
  "claim_daily_reports now fresh req seen reads dbs =
     retry_integrity ''claim daily reports retry exhausted'' 3
       (\<lambda>k. claim_reports_at (now k) (fresh k) req (seen k) (reads k) (dbs k))"

subsection \<open>Transitions\<close>

datatype report_action = ASending | ASent | ARelease | ARetry | AUncertain | ASkip

record report_transition_request =
  tq_date_str :: date
  tq_group_id :: group_id
  tq_claim_token :: token
  tq_action :: report_action
  tq_message_id :: string
  tq_error :: string

text \<open>The status of a refused request without a row is the empty string (\<open>None\<close> here).\<close>

record report_transition_response =
  ts_ok :: bool
  ts_status :: "delivery_status option"
  ts_attempt_count :: int
  ts_next_attempt_at :: "datetime option"

fun allowed_statuses :: "report_action \<Rightarrow> delivery_status set" where
  "allowed_statuses ASending = {DClaimed, DSending}"
| "allowed_statuses ASent = {DSending, DSent}"
| "allowed_statuses ARelease = {DClaimed}"
| "allowed_statuses ARetry = {DSending}"
| "allowed_statuses AUncertain = {DSending, DUncertain}"
| "allowed_statuses ASkip = {DClaimed, DSkipped}"

definition retry_outcome :: "datetime \<Rightarrow> daily_report_delivery \<Rightarrow> delivery_status \<times> datetime option" where
  "retry_outcome now row =
     (let retry_index = nat (max 0 (rd_attempt_count row - 1)) in
      if length DAILY_REPORT_RETRY_DELAYS \<le> retry_index then (DFailed, None)
      else let t = now + DAILY_REPORT_RETRY_DELAYS ! retry_index
           in if retry_deadline (rd_date_str row) \<le> t then (DFailed, None) else (DPending, Some t))"

fun transition_outcome :: "datetime \<Rightarrow> report_action \<Rightarrow> daily_report_delivery \<Rightarrow> delivery_status \<times> datetime option" where
  "transition_outcome now ASending row = (DSending, None)"
| "transition_outcome now ASent row = (DSent, None)"
| "transition_outcome now ARelease row = retry_outcome now row"
| "transition_outcome now ARetry row = retry_outcome now row"
| "transition_outcome now AUncertain row = (DUncertain, None)"
| "transition_outcome now ASkip row = (DSkipped, None)"

definition transition_values ::
  "datetime \<Rightarrow> report_transition_request \<Rightarrow> daily_report_delivery \<Rightarrow> daily_report_delivery \<Rightarrow> daily_report_delivery" where
  "transition_values now req row r =
     (let (status, next_attempt_at) = transition_outcome now (tq_action req) row;
          r1 = r\<lparr>rd_last_error := take 512 (tq_error req), rd_status := status, rd_next_attempt_at := next_attempt_at\<rparr>
      in case tq_action req of
           ASent \<Rightarrow>
             (let r2 = r1\<lparr>rd_sent_at := (case rd_sent_at r of None \<Rightarrow> Some now | Some t \<Rightarrow> Some t)\<rparr>
              in if tq_message_id req \<noteq> [] then r2\<lparr>rd_message_id := take 128 (tq_message_id req)\<rparr> else r2)
         | ARelease \<Rightarrow> r1\<lparr>rd_claim_token := None, rd_claimed_at := None, rd_instance_id := '''', rd_delivery_bot_id := ''''\<rparr>
         | ARetry \<Rightarrow> r1\<lparr>rd_claim_token := None, rd_claimed_at := None, rd_instance_id := '''', rd_delivery_bot_id := ''''\<rparr>
         | _ \<Rightarrow> r1)"

definition answer_with :: "bool \<Rightarrow> daily_report_delivery \<Rightarrow> report_transition_response" where
  "answer_with ok r =
     \<lparr>ts_ok = ok, ts_status = Some (rd_status r), ts_attempt_count = rd_attempt_count r,
      ts_next_attempt_at = rd_next_attempt_at r\<rparr>"

definition no_report :: report_transition_response where
  "no_report = \<lparr>ts_ok = False, ts_status = None, ts_attempt_count = 0, ts_next_attempt_at = None\<rparr>"

definition transition_row ::
  "datetime \<Rightarrow> report_transition_request \<Rightarrow> daily_report_delivery \<Rightarrow> db \<Rightarrow> db \<times> report_transition_response" where
  "transition_row now req row db =
     (if tq_action req = ASending \<and> rd_status row = DClaimed \<and> retry_deadline (rd_date_str row) \<le> now then
        let (db', row') = fail_delivery_if_unchanged row ''retry_deadline_exceeded'' db
        in (db', answer_with False row')
      else if rd_status row \<notin> allowed_statuses (tq_action req) then (db, answer_with False row)
      else
        let (db', rowcount) = update_deliveries
              (\<lambda>r. delivery_key r = delivery_key row \<and> rd_claim_token r = Some (tq_claim_token req) \<and>
                   rd_status r \<in> allowed_statuses (tq_action req) \<and> rd_attempt_count r = rd_attempt_count row)
              (transition_values now req row) db;
            (status, next_attempt_at) = transition_outcome now (tq_action req) row
        in if rowcount \<noteq> 1 then
             (db, case get_delivery (delivery_key row) db of
                    None \<Rightarrow> no_report | Some current \<Rightarrow> answer_with False current)
           else (db', \<lparr>ts_ok = True, ts_status = Some status, ts_attempt_count = rd_attempt_count row,
                       ts_next_attempt_at = next_attempt_at\<rparr>))"

definition transition_daily_report ::
  "datetime \<Rightarrow> report_transition_request \<Rightarrow> db \<Rightarrow> db \<Rightarrow> db \<times> report_transition_response" where
  "transition_daily_report now req seen db =
     (case get_delivery (tq_date_str req, tq_group_id req) seen of
        None \<Rightarrow> (db, no_report)
      | Some row \<Rightarrow>
          if rd_claim_token row \<noteq> Some (tq_claim_token req) then (db, no_report)
          else transition_row now req row db)"

subsection \<open>How lookups see the updates\<close>

lemma key_of_updates [simp]:
  "delivery_key (failed_row reason row r) = delivery_key r"
  "delivery_key (leased_row now req sender t row r) = delivery_key r"
  "delivery_key (transition_values now tr row r) = delivery_key r"
  "delivery_key (new_delivery d c g) = (d, g)"
  by (simp_all add: delivery_key_def failed_row_def leased_row_def transition_values_def new_delivery_def Let_def
      split: prod.split report_action.split)

lemma get_delivery_key: "get_delivery k db = Some r \<Longrightarrow> delivery_key r = k"
  by (auto simp: get_delivery_def dest: one_or_none_SomeD)

lemma get_update_deliveries:
  "(\<And>r. delivery_key (f r) = delivery_key r) \<Longrightarrow>
   get_delivery k (fst (update_deliveries P f db)) = map_option (\<lambda>r. if P r then f r else r) (get_delivery k db)"
proof -
  assume f: "\<And>r. delivery_key (f r) = delivery_key r"
  have "one_or_none (\<lambda>r. delivery_key r = k) (upd_rows P f rs) =
      map_option (\<lambda>r. if P r then f r else r) (one_or_none (\<lambda>r. delivery_key r = k) rs)" for rs
    using f by (induction rs) auto
  then show ?thesis by (simp add: get_delivery_def update_deliveries_def)
qed

lemma rowcount_unique:
  assumes "unique_on delivery_key (daily_report_deliveries db)" and "\<And>r. P r \<Longrightarrow> delivery_key r = k"
  shows "snd (update_deliveries P f db) = (case get_delivery k db of None \<Rightarrow> 0 | Some r \<Rightarrow> if P r then 1 else 0)"
proof -
  have "length (filter P rs) =
      (case one_or_none (\<lambda>r. delivery_key r = k) rs of None \<Rightarrow> 0 | Some r \<Rightarrow> if P r then 1 else 0)"
    if "unique_on delivery_key rs" for rs
    using that
  proof (induction rs)
    case (Cons x rs)
    from Cons.prems have "unique_on delivery_key rs" "delivery_key x \<notin> delivery_key ` set rs"
      by (auto simp: unique_on_def)
    moreover have "filter P rs = []" if "delivery_key x = k"
      using that \<open>delivery_key x \<notin> _\<close> assms(2) by (intro filter_False ballI notI) (metis imageI)
    ultimately show ?case using Cons.IH assms(2) [of x] by auto
  qed simp
  with assms(1) show ?thesis by (simp add: update_deliveries_def get_delivery_def)
qed

lemma unique_update_deliveries:
  "(\<And>r. delivery_key (f r) = delivery_key r) \<Longrightarrow> unique_on delivery_key (daily_report_deliveries db) \<Longrightarrow>
   unique_on delivery_key (daily_report_deliveries (fst (update_deliveries P f db)))"
  by (simp add: update_deliveries_def unique_on_upd)

lemma get_fail [table_simps]:
  "get_delivery k (fst (fail_delivery_if_unchanged row reason db)) =
     map_option (\<lambda>r. if rd_status row \<in> {DPending, DClaimed} \<and> delivery_key r = delivery_key row \<and>
         rd_status r = rd_status row \<and> rd_claim_token r = rd_claim_token row \<and>
         rd_attempt_count r = rd_attempt_count row then failed_row reason row r else r) (get_delivery k db)"
  by (simp add: fail_delivery_if_unchanged_def Let_def case_prod_unfold get_update_deliveries option.map_ident)

lemma unique_fail:
  "unique_on delivery_key (daily_report_deliveries db) \<Longrightarrow>
   unique_on delivery_key (daily_report_deliveries (fst (fail_delivery_if_unchanged row reason db)))"
  by (simp add: fail_delivery_if_unchanged_def Let_def case_prod_unfold unique_update_deliveries)

lemma get_new_delivery:
  "get_delivery k (db\<lparr>daily_report_deliveries := daily_report_deliveries db @ [new_delivery d c g]\<rparr>) =
     (case get_delivery k db of None \<Rightarrow> if k = (d, g) then Some (new_delivery d c g) else None | Some r \<Rightarrow> Some r)"
  by (simp add: get_delivery_def one_or_none_append split: option.split)

subsection \<open>The job behind a delivery\<close>

text \<open>
  The specification: a job's status, the number of leases handed out and the current lease's
  token. It is handed out at most four times, only its holder can start, finish, return or skip
  it, and only what has not been started or was refused can be handed out again.
\<close>

type_synonym job = "delivery_status \<times> int \<times> token option"

definition job :: "daily_report_delivery \<Rightarrow> job" where
  "job r = (rd_status r, rd_attempt_count r, rd_claim_token r)"

inductive job_move :: "job \<Rightarrow> job \<Rightarrow> bool" where
  hand_out: "s \<in> {DPending, DClaimed} \<Longrightarrow> n < 4 \<Longrightarrow> job_move (s, n, t) (DClaimed, n + 1, Some t')"
| give_up: "s \<in> {DPending, DClaimed} \<Longrightarrow> job_move (s, n, t) (DFailed, n, None)"
| start: "job_move (DClaimed, n, Some t) (DSending, n, Some t)"
| deliver: "job_move (DSending, n, Some t) (DSent, n, Some t)"
| lose: "job_move (DSending, n, Some t) (DUncertain, n, Some t)"
| skip: "job_move (DClaimed, n, Some t) (DSkipped, n, Some t)"
| give_back: "s \<in> {DClaimed, DSending} \<Longrightarrow> n < 4 \<Longrightarrow> job_move (s, n, Some t) (DPending, n, None)"
| exhaust: "s \<in> {DClaimed, DSending} \<Longrightarrow> job_move (s, n, Some t) (DFailed, n, None)"

inductive_cases job_moveE: "job_move j j'"
inductive_simps job_move_simps: "job_move (s, n, t) (s', n', t')"

definition finished :: "job \<Rightarrow> bool" where
  "finished j \<longleftrightarrow> fst j \<in> {DSent, DUncertain, DSkipped, DFailed}"

definition available :: "job \<Rightarrow> bool" where
  "available j \<longleftrightarrow> fst j \<in> {DPending, DClaimed}"

interpretation report_job: send_once "job_move\<^sup>=\<^sup>=" finished available
  by unfold_locales (auto simp: finished_def available_def elim: job_moveE)

text \<open>The steps: any update on any row as it was read at any earlier time, and new rows.\<close>

inductive report_step :: "db \<Rightarrow> db \<Rightarrow> bool" where
  claim: "report_step db (fst (claim_row now req sender t row db))"
| insert_row: "get_delivery (d, g) db = None \<Longrightarrow>
    report_step db (db\<lparr>daily_report_deliveries := daily_report_deliveries db @ [new_delivery d c g]\<rparr>)"
| transition: "report_step db (fst (transition_row now tr row db))"
| other: "daily_report_deliveries db' = daily_report_deliveries db \<Longrightarrow> report_step db db'"

lemma job_failed_row: "rd_status r \<in> {DPending, DClaimed} \<Longrightarrow> job_move (job r) (job (failed_row reason row r))"
  by (auto simp: job_def failed_row_def job_move_simps)

lemma job_leased_row:
  "pending_due now r \<or> stale_claim now r \<Longrightarrow> rd_attempt_count row < 4 \<Longrightarrow> rd_attempt_count r = rd_attempt_count row \<Longrightarrow>
   job_move (job r) (job (leased_row now req sender t row r))"
  by (auto simp: job_def leased_row_def job_move_simps pending_due_def stale_claim_def)

lemma retry_outcome_cases:
  "retry_outcome now row = (DFailed, None) \<or> rd_attempt_count row < 4 \<and> (\<exists>t. retry_outcome now row = (DPending, Some t))"
  by (auto simp: retry_outcome_def DAILY_REPORT_RETRY_DELAYS_def Let_def nat_le_iff)

lemma job_transition_values:
  assumes "rd_claim_token r = Some t" "rd_status r \<in> allowed_statuses (tq_action tr)"
    "rd_attempt_count r = rd_attempt_count row"
  shows "job_move\<^sup>=\<^sup>= (job r) (job (transition_values now tr row r))"
  using assms retry_outcome_cases [of now row]
  by (cases "tq_action tr") (auto simp: job_def transition_values_def Let_def job_move_simps split: prod.splits)

lemma claim_row_move:
  assumes "get_delivery k db = Some r"
  obtains r' where "get_delivery k (fst (claim_row now req sender t row db)) = Some r'" "job_move\<^sup>=\<^sup>= (job r) (job r')"
proof -
  have "\<exists>r'. get_delivery k (fst (claim_row now req sender t row db)) = Some r' \<and> job_move\<^sup>=\<^sup>= (job r) (job r')"
    using assms job_failed_row [of r] job_leased_row [of now r row req sender t]
    unfolding claim_row_def Let_def case_prod_unfold
    by (simp add: table_simps get_update_deliveries DAILY_REPORT_MAX_ATTEMPTS_def DAILY_REPORT_RETRY_DELAYS_def)
  with that show thesis by blast
qed

lemma transition_row_move:
  assumes "get_delivery k db = Some r"
  obtains r' where "get_delivery k (fst (transition_row now tr row db)) = Some r'" "job_move\<^sup>=\<^sup>= (job r) (job r')"
proof -
  have "\<exists>r'. get_delivery k (fst (transition_row now tr row db)) = Some r' \<and> job_move\<^sup>=\<^sup>= (job r) (job r')"
    using assms job_failed_row [of r] job_transition_values [of r "tq_claim_token tr" tr row now]
    unfolding transition_row_def Let_def case_prod_unfold
    by (simp add: table_simps get_update_deliveries)
  with that show thesis by blast
qed

lemma report_step_Some:
  "report_step db db' \<Longrightarrow> get_delivery k db = Some r \<Longrightarrow>
   \<exists>r'. get_delivery k db' = Some r' \<and> job_move\<^sup>=\<^sup>= (job r) (job r')"
proof (induction rule: report_step.induct)
  case (claim db now req sender t row)
  then show ?case by (rule claim_row_move) blast
next
  case (transition db now tr row)
  then show ?case by (rule transition_row_move) blast
qed (auto simp: get_new_delivery, auto simp: get_delivery_def)

lemma get_transition_None: "get_delivery k db = None \<Longrightarrow> get_delivery k (fst (transition_row now tr row db)) = None"
  unfolding transition_row_def Let_def case_prod_unfold by (simp add: table_simps get_update_deliveries)

lemma get_claim_None: "get_delivery k db = None \<Longrightarrow> get_delivery k (fst (claim_row now req sender t row db)) = None"
  unfolding claim_row_def Let_def case_prod_unfold by (simp add: table_simps get_update_deliveries)

lemma job_new_delivery [simp]: "job (new_delivery d c g) = (DPending, 0, None)"
  by (simp add: job_def new_delivery_def)

lemma report_step_None:
  "report_step db db' \<Longrightarrow> get_delivery k db = None \<Longrightarrow>
   get_delivery k db' = None \<or> (\<exists>r'. get_delivery k db' = Some r' \<and> job r' = (DPending, 0, None))"
proof (induction rule: report_step.induct)
  case (other db' db)
  then show ?case by (simp add: get_delivery_def)
qed (auto simp: get_claim_None get_transition_None get_new_delivery)

lemma report_steps_Some:
  assumes "report_step\<^sup>*\<^sup>* db db'" and "get_delivery k db = Some r"
  shows "\<exists>r'. get_delivery k db' = Some r' \<and> job_move\<^sup>*\<^sup>* (job r) (job r')"
  using assms(1)
proof (induction rule: rtranclp_induct)
  case (step db1 db2)
  then obtain r1 where "get_delivery k db1 = Some r1" "job_move\<^sup>*\<^sup>* (job r) (job r1)" by blast
  moreover obtain r2 where "get_delivery k db2 = Some r2" "job_move\<^sup>=\<^sup>= (job r1) (job r2)"
    using report_step_Some [OF step(2) \<open>get_delivery k db1 = Some r1\<close>] by blast
  ultimately show ?case by (auto intro: rtranclp.rtrancl_into_rtrancl)
qed (use assms(2) in auto)

lemma report_steps_None:
  assumes "report_step\<^sup>*\<^sup>* db db'" and "get_delivery k db = None" and "get_delivery k db' = Some r'"
  shows "job_move\<^sup>*\<^sup>* (DPending, 0, None) (job r')"
  using assms(1,3)
proof (induction arbitrary: r' rule: rtranclp_induct)
  case base
  with assms(2) show ?case by simp
next
  case (step db1 db2)
  show ?case
  proof (cases "get_delivery k db1")
    case None
    with report_step_None [OF step(2), of k] step.prems show ?thesis by auto
  next
    case (Some r1)
    with step report_step_Some [OF step(2) Some] show ?thesis by (auto intro: rtranclp.rtrancl_into_rtrancl)
  qed
qed

lemma unique_claim_row:
  "unique_on delivery_key (daily_report_deliveries db) \<Longrightarrow>
   unique_on delivery_key (daily_report_deliveries (fst (claim_row now req sender t row db)))"
  unfolding claim_row_def Let_def case_prod_unfold by (simp add: unique_fail unique_update_deliveries)

subsection \<open>The handlers are such steps\<close>

lemma claim_all_steps: "report_step\<^sup>*\<^sup>* db (fst (claim_all now req candidates fresh rows db))"
proof (induction rows arbitrary: db)
  case (Cons row rows)
  from Cons.IH show ?case
    by (auto simp: case_prod_unfold Let_def intro: converse_rtranclp_into_rtranclp report_step.claim)
qed simp

lemma insert_rows_steps:
  "distinct gs \<Longrightarrow> (\<And>g. g \<in> set gs \<Longrightarrow> get_delivery (d, g) db = None) \<Longrightarrow>
   report_step\<^sup>*\<^sup>* db (db\<lparr>daily_report_deliveries := daily_report_deliveries db @ map (new_delivery d c) gs\<rparr>)"
proof (induction gs arbitrary: db)
  case (Cons g gs)
  let ?db = "db\<lparr>daily_report_deliveries := daily_report_deliveries db @ [new_delivery d c g]\<rparr>"
  have "report_step\<^sup>*\<^sup>* ?db (?db\<lparr>daily_report_deliveries := daily_report_deliveries ?db @ map (new_delivery d c) gs\<rparr>)"
    using Cons.prems by (intro Cons.IH) (auto simp: get_new_delivery split: option.split)
  moreover have "report_step db ?db" using Cons.prems by (intro insert_row) simp
  ultimately show ?case by (simp add: converse_rtranclp_into_rtranclp)
qed simp

lemma candidates_wf: "dict_wf (report_candidates req)"
proof -
  have "dict_wf d \<Longrightarrow> dict_wf (fold (\<lambda>(g, b). dict_put g b) xs d)" for xs and d :: "string dict"
    by (induction xs arbitrary: d) (auto simp: dict_wf_put)
  then show ?thesis by (simp add: report_candidates_def dict_wf_def)
qed

text \<open>The part of a claim after the request was read: the new groups, then the loop over the rows.\<close>

lemma claim_reports_atE:
  assumes "claim_reports_at now fresh req seen read db = Inr (db', resp)"
  obtains (nothing) "report_candidates req = []" "db' = db" "rc_items resp = []"
  | (run) missing db1 rows rows' where
      "distinct missing" "set missing \<subseteq> fst ` set (report_candidates req)"
      "\<And>g. g \<in> set missing \<Longrightarrow> get_delivery (dq_date_str req, g) db = None"
      "db1 = db\<lparr>daily_report_deliveries := daily_report_deliveries db @
         map (new_delivery (dq_date_str req) (utc_of (dq_cutoff_at req))) missing\<rparr>"
      "rows = sort_key rd_group_id (filter (\<lambda>r. rd_date_str r = dq_date_str req \<and>
         rd_group_id r \<in> fst ` set (report_candidates req)) (daily_report_deliveries (if missing = [] then read else db1)))"
      "claim_all now req (report_candidates req) fresh rows db1 = (db', rows', rc_items resp)"
proof (cases "report_candidates req = []")
  case True
  with assms show thesis by - (rule nothing, auto simp: claim_reports_at_def)
next
  case False
  define missing where
    "missing = sort (filter (\<lambda>g. get_delivery (dq_date_str req, g) seen = None) (map fst (report_candidates req)))"
  have "distinct missing" using candidates_wf [of req] by (simp add: missing_def dict_wf_def)
  moreover have "set missing \<subseteq> fst ` set (report_candidates req)" by (auto simp: missing_def)
  moreover have "\<exists>g\<in>set missing. get_delivery (dq_date_str req, g) db \<noteq> None \<Longrightarrow> False"
    using assms False unfolding claim_reports_at_def Let_def missing_def [symmetric] by simp
  then have "\<And>g. g \<in> set missing \<Longrightarrow> get_delivery (dq_date_str req, g) db = None" by blast
  moreover define db1 where "db1 = db\<lparr>daily_report_deliveries := daily_report_deliveries db @
         map (new_delivery (dq_date_str req) (utc_of (dq_cutoff_at req))) missing\<rparr>"
  moreover define rows where "rows = sort_key rd_group_id (filter (\<lambda>r. rd_date_str r = dq_date_str req \<and>
         rd_group_id r \<in> fst ` set (report_candidates req)) (daily_report_deliveries (if missing = [] then read else db1)))"
  moreover obtain db2 rows' items where all: "claim_all now req (report_candidates req) fresh rows db1 = (db2, rows', items)"
    by (metis surj_pair)
  moreover have "db2 = db' \<and> items = rc_items resp"
    using assms False all unfolding claim_reports_at_def Let_def missing_def [symmetric] db1_def [symmetric] rows_def [symmetric]
    by (auto split: if_splits)
  ultimately show thesis by (intro run) auto
qed

lemma claim_reports_runE:
  assumes "claim_reports_once now fresh req seen db = Inr (db', resp)"
  obtains (nothing) "report_candidates req = []" "db' = db" "rc_items resp = []"
  | (run) missing db1 rows rows' where
      "distinct missing" "set missing \<subseteq> fst ` set (report_candidates req)"
      "\<And>g. g \<in> set missing \<Longrightarrow> get_delivery (dq_date_str req, g) db = None"
      "db1 = db\<lparr>daily_report_deliveries := daily_report_deliveries db @
         map (new_delivery (dq_date_str req) (utc_of (dq_cutoff_at req))) missing\<rparr>"
      "rows = sort_key rd_group_id (filter (\<lambda>r. rd_date_str r = dq_date_str req \<and>
         rd_group_id r \<in> fst ` set (report_candidates req)) (daily_report_deliveries db1))"
      "claim_all now req (report_candidates req) fresh rows db1 = (db', rows', rc_items resp)"
  using assms unfolding claim_reports_once_def
proof (cases rule: claim_reports_atE)
  case (run missing db1 rows rows')
  then have "daily_report_deliveries (if missing = [] then db else db1) = daily_report_deliveries db1" by simp
  with run show thesis by (intro that(2)) auto
qed (rule that(1))

lemma claim_reports_at_steps:
  assumes "claim_reports_at now fresh req seen read db = Inr (db', resp)"
  shows "report_step\<^sup>*\<^sup>* db db'"
  using assms
proof (cases rule: claim_reports_atE)
  case (run missing db1 rows rows')
  from run(1,3,4) have "report_step\<^sup>*\<^sup>* db db1" by (simp add: insert_rows_steps)
  also have "report_step\<^sup>*\<^sup>* db1 db'"
    using claim_all_steps [of db1 now req "report_candidates req" fresh rows] run(6) by simp
  finally show ?thesis .
qed simp

lemma claim_reports_steps:
  "claim_reports_once now fresh req seen db = Inr (db', resp) \<Longrightarrow> report_step\<^sup>*\<^sup>* db db'"
  unfolding claim_reports_once_def by (rule claim_reports_at_steps)

text \<open>A row that is no longer available keeps its values, whatever row the claim read.\<close>

lemma get_claim_unavailable:
  "get_delivery k db = Some r \<Longrightarrow> rd_status r \<notin> {DPending, DClaimed} \<Longrightarrow>
   get_delivery k (fst (claim_row now req sender t row db)) = Some r"
  unfolding claim_row_def Let_def case_prod_unfold
  by (auto simp: table_simps get_update_deliveries pending_due_def stale_claim_def)

lemma get_claim_all_unavailable:
  "get_delivery k db = Some r \<Longrightarrow> rd_status r \<notin> {DPending, DClaimed} \<Longrightarrow>
   get_delivery k (fst (claim_all now req candidates fresh rows db)) = Some r"
proof (induction rows arbitrary: db)
  case (Cons row rows)
  then show ?case by (simp add: Let_def case_prod_unfold get_claim_unavailable)
qed simp

lemma claim_reports_unavailable:
  assumes "claim_reports_at now fresh req seen read db = Inr (db', resp)"
    and "get_delivery k db = Some r" and "rd_status r \<notin> {DPending, DClaimed}"
  shows "get_delivery k db' = Some r"
  using assms(1)
proof (cases rule: claim_reports_atE)
  case (run missing db1 rows rows')
  have "get_delivery k db1 = Some r" using assms(2) by (simp add: run(4) get_delivery_def one_or_none_append)
  from get_claim_all_unavailable [OF this assms(3), of now req "report_candidates req" fresh rows] run(6)
  show ?thesis by simp
qed (use assms in simp)

lemma transition_report_step: "report_step db (fst (transition_daily_report now tr seen db))"
  by (auto simp: transition_daily_report_def intro: report_step.transition other split: option.split)

subsection \<open>What one claim does to each row\<close>

lemma get_claim_other:
  "k \<noteq> delivery_key row \<Longrightarrow> get_delivery k (fst (claim_row now req sender t row db)) = get_delivery k db"
  unfolding claim_row_def Let_def case_prod_unfold
  by (cases "get_delivery k db") (auto simp: table_simps get_update_deliveries dest: get_delivery_key)

lemma refreshed_cong:
  "get_delivery (delivery_key row) db1 = get_delivery (delivery_key row) db2 \<Longrightarrow> (\<And>r. delivery_key (f r) = delivery_key r) \<Longrightarrow>
   refreshed row (fst (update_deliveries P f db1)) = refreshed row (fst (update_deliveries P f db2))"
  by (simp add: refreshed_def get_update_deliveries)

lemma fail_cong:
  assumes "get_delivery (delivery_key row) db1 = get_delivery (delivery_key row) db2"
  shows "snd (fail_delivery_if_unchanged row reason db1) = snd (fail_delivery_if_unchanged row reason db2)"
  using refreshed_cong [OF assms] by (auto simp: fail_delivery_if_unchanged_def Let_def case_prod_unfold)

lemma claim_row_cong:
  assumes "get_delivery (delivery_key row) db1 = get_delivery (delivery_key row) db2"
    and "unique_on delivery_key (daily_report_deliveries db1)" "unique_on delivery_key (daily_report_deliveries db2)"
  shows "get_delivery (delivery_key row) (fst (claim_row now req sender t row db1)) =
      get_delivery (delivery_key row) (fst (claim_row now req sender t row db2)) \<and>
     snd (claim_row now req sender t row db1) = snd (claim_row now req sender t row db2)"
proof -
  let ?P = "\<lambda>r. delivery_key r = delivery_key row \<and> rd_attempt_count r = rd_attempt_count row \<and>
      (pending_due now r \<or> stale_claim now r)"
  let ?f = "leased_row now req sender t row"
  have "snd (update_deliveries ?P ?f db1) = snd (update_deliveries ?P ?f db2)"
    using assms(1)
    by (simp add: rowcount_unique [OF assms(2), of ?P "delivery_key row"] rowcount_unique [OF assms(3), of ?P "delivery_key row"])
  moreover have "refreshed row (fst (update_deliveries ?P ?f db1)) = refreshed row (fst (update_deliveries ?P ?f db2))"
    by (rule refreshed_cong [OF assms(1)]) simp
  moreover have "get_delivery (delivery_key row) (fst (update_deliveries ?P ?f db1)) =
      get_delivery (delivery_key row) (fst (update_deliveries ?P ?f db2))"
    using assms(1) by (simp add: get_update_deliveries)
  moreover have "get_delivery (delivery_key row) (fst (fail_delivery_if_unchanged row reason db1)) =
      get_delivery (delivery_key row) (fst (fail_delivery_if_unchanged row reason db2))" for reason
    using assms(1) by (simp add: get_fail)
  ultimately show ?thesis
    using assms(1) fail_cong [OF assms(1)] unfolding claim_row_def Let_def case_prod_unfold by auto
qed

lemma claim_all_spec:
  assumes "distinct (map delivery_key rows)" and "unique_on delivery_key (daily_report_deliveries db)"
    and "claim_all now req cs fresh rows db = (db', rows', items)"
  shows "(\<forall>k. k \<notin> delivery_key ` set rows \<longrightarrow> get_delivery k db' = get_delivery k db) \<and>
    (\<forall>row\<in>set rows. get_delivery (delivery_key row) db' = get_delivery (delivery_key row)
        (fst (claim_row now req (dict_get cs (rd_group_id row) '''') (fresh (rd_group_id row)) row db))) \<and>
    set items = {i. \<exists>row\<in>set rows.
        snd (snd (claim_row now req (dict_get cs (rd_group_id row) '''') (fresh (rd_group_id row)) row db)) = Some i}"
  using assms
proof (induction rows arbitrary: db db' rows' items)
  case (Cons row rows)
  let ?step = "\<lambda>row. claim_row now req (dict_get cs (rd_group_id row) '''') (fresh (rd_group_id row)) row"
  obtain db1 row' item where 1: "?step row db = (db1, row', item)" by (metis surj_pair)
  obtain rows1 items1 where 2: "claim_all now req cs fresh rows db1 = (db', rows1, items1)"
    "items = (case item of None \<Rightarrow> items1 | Some i \<Rightarrow> i # items1)"
    using Cons.prems(3) 1 by (auto simp: Let_def split: prod.splits)
  have uniq: "unique_on delivery_key (daily_report_deliveries db1)"
    using unique_claim_row [OF Cons.prems(2)] 1 by (metis fst_conv)
  have fresh_key: "delivery_key row \<notin> delivery_key ` set rows" using Cons.prems(1) by simp
  have other: "get_delivery k db1 = get_delivery k db" if "k \<noteq> delivery_key row" for k
    using get_claim_other [OF that] 1 by (metis fst_conv)
  have same: "get_delivery (delivery_key x) (fst (?step x db1)) = get_delivery (delivery_key x) (fst (?step x db)) \<and>
      snd (?step x db1) = snd (?step x db)" if "x \<in> set rows" for x
    using that fresh_key by (intro claim_row_cong other uniq Cons.prems(2)) (metis imageI)
  note IH = Cons.IH [OF _ uniq 2(1)]
  have dist: "distinct (map delivery_key rows)" using Cons.prems(1) by simp
  have "get_delivery k db' = get_delivery k db" if "k \<notin> delivery_key ` set (row # rows)" for k
    using IH [OF dist] other [of k] that by (simp del: split_paired_All)
  moreover have "get_delivery (delivery_key x) db' = get_delivery (delivery_key x) (fst (?step x db))"
    if "x \<in> set (row # rows)" for x
    using IH [OF dist] same [of x] that fresh_key 1 by (auto simp del: split_paired_All)
  moreover have "set items = {i. \<exists>x\<in>set (row # rows). snd (snd (?step x db)) = Some i}"
    using IH [OF dist] same 1 2(2) by (auto split: option.splits)
  ultimately show ?case by blast
qed simp

definition item_key :: "report_claim_item \<Rightarrow> date \<times> group_id" where
  "item_key i = (rc_date_str i, rc_group_id i)"

lemma item_key_report_item [simp]: "item_key (report_item r) = delivery_key r"
  by (simp add: item_key_def report_item_def delivery_key_def)

lemma claim_row_item_key: "snd (snd (claim_row now req sender t row db)) = Some i \<Longrightarrow> item_key i = delivery_key row"
  by (auto simp: claim_row_def Let_def case_prod_unfold refreshed_def split: if_splits option.splits
      dest: get_delivery_key)

lemma get_delivery_unique:
  "unique_on delivery_key (daily_report_deliveries db) \<Longrightarrow> r \<in> set (daily_report_deliveries db) \<Longrightarrow>
   get_delivery (delivery_key r) db = Some r"
  by (simp add: get_delivery_def one_or_none_key)

lemma get_delivery_set: "get_delivery k db = Some r \<Longrightarrow> r \<in> set (daily_report_deliveries db)"
  by (auto simp: get_delivery_def dest: one_or_none_SomeD)

lemma inserted_rows:
  fixes db :: db
  assumes "unique_on delivery_key (daily_report_deliveries db)" "distinct gs"
    "\<And>g. g \<in> set gs \<Longrightarrow> get_delivery (d, g) db = None"
    and db1: "db1 = db\<lparr>daily_report_deliveries := daily_report_deliveries db @ map (new_delivery d c) gs\<rparr>"
  shows "unique_on delivery_key (daily_report_deliveries db1) \<and>
    get_delivery k db1 = (case get_delivery k db of Some r \<Rightarrow> Some r
      | None \<Rightarrow> if fst k = d \<and> snd k \<in> set gs then Some (new_delivery d c (snd k)) else None)"
proof -
  have "delivery_key ` set (daily_report_deliveries db) \<inter> Pair d ` set gs = {}"
    using assms(3) by (auto simp: get_delivery_def one_or_none_None_iff dest: sym)
  moreover have "distinct (map (Pair d) gs)" using assms(2) by (simp add: distinct_map inj_on_def)
  moreover have "one_or_none (\<lambda>r. delivery_key r = k) (map (new_delivery d c) gs) =
      (if fst k = d \<and> snd k \<in> set gs then Some (new_delivery d c (snd k)) else None)"
    by (induction gs; cases k) auto
  ultimately show ?thesis
    using assms(1) by (auto simp: unique_on_def db1 comp_def get_delivery_def one_or_none_append image_iff split: option.split)
qed

lemma claim_all_row:
  assumes "distinct (map delivery_key rows)" and "unique_on delivery_key (daily_report_deliveries db)"
    and "claim_all now req cs fresh rows db = (db', rows', items)"
    and "row \<in> set rows" and "k = delivery_key row"
  shows "get_delivery k db' = get_delivery k (fst (claim_row now req (dict_get cs (snd k) '''') (fresh (snd k)) row db))"
    and "{i \<in> set items. item_key i = k} =
      {i. snd (snd (claim_row now req (dict_get cs (snd k) '''') (fresh (snd k)) row db)) = Some i}"
proof -
  note spec = claim_all_spec [OF assms(1-3)]
  have g: "rd_group_id row = snd k" by (simp add: assms(5) delivery_key_def)
  show "get_delivery k db' = get_delivery k (fst (claim_row now req (dict_get cs (snd k) '''') (fresh (snd k)) row db))"
    unfolding g [symmetric] using spec assms(4) unfolding assms(5) by blast
  define hands where "hands = (\<lambda>row i.
      snd (snd (claim_row now req (dict_get cs (rd_group_id row) '''') (fresh (rd_group_id row)) row db)) = Some i)"
  have keys: "hands row i \<Longrightarrow> item_key i = delivery_key row" for row i
    unfolding hands_def by (rule claim_row_item_key)
  have only: "row' = row" if "row' \<in> set rows" "delivery_key row' = delivery_key row" for row'
    using assms(1,4) that by (auto simp: distinct_map dest: inj_onD)
  have "set items = {i. \<exists>row\<in>set rows. hands row i}" using spec unfolding hands_def by blast
  then have mem: "i \<in> set items \<longleftrightarrow> (\<exists>row\<in>set rows. hands row i)" for i by simp
  have "i \<in> set items \<and> item_key i = k \<longleftrightarrow> hands row i" for i
  proof
    assume "i \<in> set items \<and> item_key i = k"
    then obtain row' where row': "row' \<in> set rows" "hands row' i" "item_key i = k" by (auto simp: mem)
    from keys [OF row'(2)] row'(3) assms(5) have "delivery_key row' = delivery_key row" by metis
    from only [OF row'(1) this] row'(2) show "hands row i" by metis
  next
    assume "hands row i"
    with keys [OF this] assms(4,5) mem show "i \<in> set items \<and> item_key i = k" by metis
  qed
  then show "{i \<in> set items. item_key i = k} =
      {i. snd (snd (claim_row now req (dict_get cs (snd k) '''') (fresh (snd k)) row db)) = Some i}"
    by (simp add: hands_def g)
qed

lemma claim_all_no_row:
  assumes "distinct (map delivery_key rows)" and "unique_on delivery_key (daily_report_deliveries db)"
    and "claim_all now req cs fresh rows db = (db', rows', items)" and "k \<notin> delivery_key ` set rows"
  shows "get_delivery k db' = get_delivery k db" and "\<forall>i\<in>set items. item_key i \<noteq> k"
proof -
  note spec = claim_all_spec [OF assms(1-3)]
  show "get_delivery k db' = get_delivery k db" using spec assms(4) by blast
  have "i \<in> set items \<Longrightarrow> \<exists>row\<in>set rows. item_key i = delivery_key row" for i
    using spec claim_row_item_key by fast
  with assms(4) show "\<forall>i\<in>set items. item_key i \<noteq> k" by blast
qed

text \<open>What a claim does to the delivery \<open>k\<close>: nothing, or one turn of the loop on its current row.\<close>

lemma claim_reports_rowE:
  assumes "unique_on delivery_key (daily_report_deliveries db)"
    and "claim_reports_once now fresh req seen db = Inr (db', resp)"
  obtains (untouched) "fst k \<noteq> dq_date_str req \<or> snd k \<notin> fst ` set (report_candidates req) \<or> get_delivery k db = None"
      "get_delivery k db' = get_delivery k db" "\<forall>i\<in>set (rc_items resp). item_key i \<noteq> k"
  | (turn) row db1 where
      "fst k = dq_date_str req" "snd k \<in> fst ` set (report_candidates req)"
      "unique_on delivery_key (daily_report_deliveries db1)" "get_delivery k db1 = Some row"
      "get_delivery k db = Some row \<or>
       get_delivery k db = None \<and> row = new_delivery (dq_date_str req) (utc_of (dq_cutoff_at req)) (snd k)"
      "get_delivery k db' = get_delivery k (fst (claim_row now req (dict_get (report_candidates req) (snd k) '''')
         (fresh (snd k)) row db1))"
      "{i \<in> set (rc_items resp). item_key i = k} = {i. snd (snd (claim_row now req
         (dict_get (report_candidates req) (snd k) '''') (fresh (snd k)) row db1)) = Some i}"
  using assms(2)
proof (cases rule: claim_reports_runE)
  case nothing
  with untouched show thesis by simp
next
  case (run missing db1 rows rows')
  note ins = inserted_rows [OF assms(1) run(1,3,4)]
  then have uniq: "unique_on delivery_key (daily_report_deliveries db1)" by blast
  then have dist: "distinct (map delivery_key rows)"
    unfolding run(5) by (simp add: unique_on_def distinct_map_filter distinct_map inj_on_def)
  have selected: "row \<in> set rows \<longleftrightarrow> get_delivery (delivery_key row) db1 = Some row \<and>
      rd_date_str row = dq_date_str req \<and> rd_group_id row \<in> fst ` set (report_candidates req)" for row
    unfolding run(5) using get_delivery_unique [OF uniq, of row] get_delivery_set [of "delivery_key row" db1 row] by auto
  show thesis
  proof (cases "\<exists>row. row \<in> set rows \<and> k = delivery_key row")
    case True
    then obtain row where row: "row \<in> set rows" "k = delivery_key row" by blast
    with selected have now: "get_delivery k db1 = Some row" by simp
    have asked: "fst k = dq_date_str req" "snd k \<in> fst ` set (report_candidates req)"
      using selected [of row] row by (simp_all add: delivery_key_def)
    from now ins [of k, THEN conjunct2] have "get_delivery k db = Some row \<or>
        get_delivery k db = None \<and> row = new_delivery (dq_date_str req) (utc_of (dq_cutoff_at req)) (snd k)"
      by (cases "get_delivery k db") (simp_all split: if_splits)
    from turn [OF asked uniq now this claim_all_row [OF dist uniq run(6) row]] show thesis .
  next
    case False
    have gone: "get_delivery k db1 = None \<or> fst k \<noteq> dq_date_str req \<or> snd k \<notin> fst ` set (report_candidates req)"
    proof (cases "get_delivery k db1")
      case (Some row)
      then have "k = delivery_key row" by (simp add: get_delivery_key)
      moreover from this False have "row \<notin> set rows" by blast
      ultimately show ?thesis using selected [of row] Some by (auto simp: delivery_key_def)
    qed simp
    then have "get_delivery k db1 = get_delivery k db"
      using ins [of k, THEN conjunct2] run(2) by (cases "get_delivery k db") auto
    with gone claim_all_no_row [OF dist uniq run(6), of k] False show thesis by (intro untouched) auto
  qed
qed

end
