(* ===== verification/ReportDelivery.thy ===== *)
theory ReportDelivery
  imports Reports
begin

section \<open>Daily reports: what the deliveries promise\<close>

text \<open>
  The properties of the report deliveries of theory Reports: the handlers implement the job of
  that theory, every job ends, a report that is being sent or is finished is never handed out
  again, a lease is exclusive and survives a lost response, and nothing starts after the deadline.
\<close>

subsection \<open>Every job ends\<close>

fun job_rank :: "delivery_status \<Rightarrow> nat" where
  "job_rank DPending = 1"
| "job_rank DClaimed = 3"
| "job_rank DSending = 2"
| "job_rank _ = 0"

definition job_fuel :: "job \<Rightarrow> nat" where
  "job_fuel j = (case j of (s, n, t) \<Rightarrow> 3 * nat (4 - n) + job_rank s)"

lemma job_move_fuel: "job_move j j' \<Longrightarrow> job_fuel j' < job_fuel j"
  by (erule job_moveE) (auto simp: job_fuel_def)

lemma changes_bounded:
  fixes x :: "nat \<Rightarrow> 'a" and m :: "'a \<Rightarrow> nat"
  assumes "\<And>i. x (Suc i) = x i \<or> m (x (Suc i)) < m (x i)"
  shows "finite {i. x (Suc i) \<noteq> x i} \<and> card {i. x (Suc i) \<noteq> x i} \<le> m (x 0)"
proof -
  have bound: "card {i. i < n \<and> x (Suc i) \<noteq> x i} + m (x n) \<le> m (x 0)" for n
  proof (induction n)
    case (Suc n)
    have "{i. i < Suc n \<and> x (Suc i) \<noteq> x i} =
        (if x (Suc n) \<noteq> x n then insert n {i. i < n \<and> x (Suc i) \<noteq> x i} else {i. i < n \<and> x (Suc i) \<noteq> x i})"
      by (auto simp: less_Suc_eq)
    with Suc assms [of n] show ?case by (auto split: if_splits)
  qed simp
  have small: "card A \<le> m (x 0)" if "finite A" "A \<subseteq> {i. x (Suc i) \<noteq> x i}" for A
  proof -
    have "A \<subseteq> {i. i < Suc (Max (insert 0 A)) \<and> x (Suc i) \<noteq> x i}"
      using that by (auto simp: less_Suc_eq_le)
    then have "card A \<le> card {i. i < Suc (Max (insert 0 A)) \<and> x (Suc i) \<noteq> x i}"
      by (intro card_mono) auto
    with bound [of "Suc (Max (insert 0 A))"] show ?thesis by linarith
  qed
  have "finite {i. x (Suc i) \<noteq> x i}"
  proof (rule ccontr)
    assume "infinite {i. x (Suc i) \<noteq> x i}"
    then obtain A where "A \<subseteq> {i. x (Suc i) \<noteq> x i}" "finite A" "card A = Suc (m (x 0))"
      by (metis infinite_arbitrarily_large)
    with small [of A] show False by simp
  qed
  with small show ?thesis by blast
qed

text \<open>The job of a delivery; \<open>None\<close> while there is no row.\<close>

definition job_of :: "date \<times> group_id \<Rightarrow> db \<Rightarrow> job option" where
  "job_of k db = map_option job (get_delivery k db)"

lemma report_step_job:
  assumes "report_step db db'" and "job_of k db = Some j"
  obtains j' where "job_of k db' = Some j'" "j' = j \<or> job_move j j'"
proof -
  obtain r where r: "get_delivery k db = Some r" "j = job r" using assms(2) by (auto simp: job_of_def)
  obtain r' where "get_delivery k db' = Some r'" "job_move\<^sup>=\<^sup>= (job r) (job r')"
    using report_step_Some [OF assms(1) r(1)] by blast
  with r(2) show thesis by (intro that [of "job r'"]) (auto simp: job_of_def)
qed

text \<open>
  C12: Every delivery ends. In any infinite sequence of updates by the handlers, with whatever
  stale rows they were computed from, the status, attempt count and lease of a delivery change
  only finitely often: at most 13 times for a delivery that was just created, and at most 15 times
  for any other.
\<close>

theorem report_delivery_terminates:
  assumes "\<And>i. report_step (run i) (run (Suc i))" and "job_of k (run 0) = Some (s, n, t)" and "0 \<le> n"
  shows "finite {i. job_of k (run (Suc i)) \<noteq> job_of k (run i)} \<and>
     card {i. job_of k (run (Suc i)) \<noteq> job_of k (run i)} \<le> (if (s, n) = (DPending, 0) then 13 else 15)"
proof -
  have present: "\<exists>j. job_of k (run i) = Some j" for i
  proof (induction i)
    case (Suc i)
    then obtain j where "job_of k (run i) = Some j" by blast
    from report_step_job [OF assms(1) this] show ?case by blast
  qed (use assms(2) in blast)
  have "job_of k (run (Suc i)) = job_of k (run i) \<or>
      job_fuel (the (job_of k (run (Suc i)))) < job_fuel (the (job_of k (run i)))" for i
  proof -
    obtain j where j: "job_of k (run i) = Some j" using present by blast
    obtain j' where "job_of k (run (Suc i)) = Some j'" "j' = j \<or> job_move j j'"
      by (rule report_step_job [OF assms(1) j])
    with j show ?thesis by (auto dest: job_move_fuel)
  qed
  note few = changes_bounded [where m = "\<lambda>j. job_fuel (the j)", of "\<lambda>i. job_of k (run i)", OF this]
  have "job_fuel (s, n, t) \<le> (if (s, n) = (DPending, 0) then 13 else 15)"
    using assms(3) by (cases s) (auto simp: job_fuel_def)
  with few assms(2) show ?thesis by auto
qed

definition report_db :: db where
  "report_db = empty_db\<lparr>daily_report_deliveries := [new_delivery 5 0 ''g'']\<rparr>"

theorem report_delivery_terminates_witness:
  "finite {i::nat. job_of (5, ''g'') ((\<lambda>_. report_db) (Suc i)) \<noteq> job_of (5, ''g'') ((\<lambda>_. report_db) i)} \<and>
   job_of (5, ''g'') report_db = Some (DPending, 0, None)"
proof -
  have job: "job_of (5, ''g'') report_db = Some (DPending, 0, None)"
    by (simp add: job_of_def get_delivery_def report_db_def)
  have "report_step report_db report_db" by (rule other) simp
  from report_delivery_terminates [of "\<lambda>_. report_db", OF this job] job show ?thesis by simp
qed

subsection \<open>The handlers implement the job\<close>

text \<open>What the job allows between two states: from its state, or from a new pending one, some moves.\<close>

definition job_allows :: "date \<times> group_id \<Rightarrow> db \<Rightarrow> db \<Rightarrow> bool" where
  "job_allows k db db' \<longleftrightarrow> (case job_of k db' of
       None \<Rightarrow> job_of k db = None
     | Some j' \<Rightarrow> job_move\<^sup>*\<^sup>* (case job_of k db of None \<Rightarrow> (DPending, 0, None) | Some j \<Rightarrow> j) j')"

lemma report_steps_allowed:
  assumes "report_step\<^sup>*\<^sup>* db db'"
  shows "job_allows k db db'"
proof (cases "get_delivery k db")
  case None
  with report_steps_None [OF assms None] show ?thesis by (auto simp: job_allows_def job_of_def split: option.split)
next
  case (Some r)
  with report_steps_Some [OF assms Some] show ?thesis by (auto simp: job_allows_def job_of_def)
qed

text \<open>
  C3: A claim and a transition do to each delivery exactly what the job allows, whatever states their
  queries read: \<open>seen\<close> for the known groups, \<open>read\<close> for the rows of the claim's loop and \<open>seen'\<close> for
  the row of the transition are any states, unrelated to the state \<open>db\<close> that is updated. From the
  delivery's state in \<open>db\<close>, or from a new pending one, a sequence of moves of the specification leads
  to the state they leave, so it is never forgotten and handed out at most four times; and a claim
  leaves a delivery that is being sent or has ended in \<open>db\<close> as it is, field by field, even if the
  row it read was still waiting or leased.
\<close>

theorem report_handlers_refine_job:
  assumes "claim_reports_at now fresh req seen read db = Inr (db', resp)"
  shows "job_allows k db db' \<and>
     (\<forall>r. get_delivery k db = Some r \<and> \<not> available (job r) \<longrightarrow> get_delivery k db' = Some r) \<and>
     job_allows k db (fst (transition_daily_report later tr seen' db))"
proof -
  have "job_allows k db db'"
    by (rule report_steps_allowed [OF claim_reports_at_steps [OF assms]])
  moreover have "job_allows k db (fst (transition_daily_report later tr seen' db))"
    by (intro report_steps_allowed r_into_rtranclp transition_report_step)
  ultimately show ?thesis
    using claim_reports_unavailable [OF assms] by (auto simp: available_def job_def)
qed

definition sample_report_claim :: report_claim_request where
  "sample_report_claim = \<lparr>dq_date_str = 5, dq_cutoff_at = Naive 0, dq_instance_id = ''i'', dq_candidates = [(''g'', ''b'')]\<rparr>"

text \<open>Another instance has sent the report whose expired lease this claim still reads.\<close>

definition stale_report_db :: db where
  "stale_report_db = report_db\<lparr>daily_report_deliveries :=
     [(new_delivery 5 0 ''g'')\<lparr>rd_status := DClaimed, rd_claim_token := Some ''tok'', rd_claimed_at := Some 1,
        rd_attempt_count := 1\<rparr>]\<rparr>"

definition sent_report_db :: db where
  "sent_report_db = report_db\<lparr>daily_report_deliveries :=
     [(new_delivery 5 0 ''g'')\<lparr>rd_status := DSent, rd_claim_token := Some ''tok'', rd_claimed_at := Some 1,
        rd_attempt_count := 1\<rparr>]\<rparr>"

theorem report_handlers_refine_job_witness:
  "\<not> isl (claim_reports_at (minutes 7) (\<lambda>_. ''new'') sample_report_claim sent_report_db stale_report_db sent_report_db) \<and>
   job_of (5, ''g'') (fst (projr (claim_reports_at (minutes 7) (\<lambda>_. ''new'') sample_report_claim
     stale_report_db stale_report_db stale_report_db))) = Some (DClaimed, 2, Some ''new'') \<and>
   get_delivery (5, ''g'') (fst (projr (claim_reports_at (minutes 7) (\<lambda>_. ''new'') sample_report_claim
     sent_report_db stale_report_db sent_report_db))) = get_delivery (5, ''g'') sent_report_db"
proof -
  let ?run = "claim_reports_at (minutes 7) (\<lambda>_. ''new'') sample_report_claim sent_report_db stale_report_db sent_report_db"
  have sent: "\<not> isl ?run" by code_simp
  then have run: "?run = Inr (fst (projr ?run), snd (projr ?run))" by simp
  have "job_of (5, ''g'') (fst (projr (claim_reports_at (minutes 7) (\<lambda>_. ''new'') sample_report_claim
     stale_report_db stale_report_db stale_report_db))) = Some (DClaimed, 2, Some ''new'')" by code_simp
  moreover have "map_option (available \<circ> job) (get_delivery (5, ''g'') sent_report_db) = Some False" by code_simp
  then have "get_delivery (5, ''g'') (fst (projr ?run)) = get_delivery (5, ''g'') sent_report_db"
    using report_handlers_refine_job [OF run] by fastforce
  ultimately show ?thesis using sent by blast
qed

subsection \<open>Turns of the claim\<close>

lemma turn_started: "rd_status row \<notin> {DPending, DClaimed} \<Longrightarrow> claim_row now req sender t row db = (db, row, None)"
  by (auto simp: claim_row_def pending_due_def stale_claim_def same_owner_claim_def)

lemma turn_leased:
  "rd_status row = DClaimed \<Longrightarrow> rd_claimed_at row = Some t \<Longrightarrow> rd_claim_token row = Some tok \<Longrightarrow>
   now \<le> t + DAILY_REPORT_CLAIM_TIMEOUT \<Longrightarrow> now < retry_deadline (rd_date_str row) \<Longrightarrow>
   claim_row now req sender fresh row db =
     (db, row, if rd_instance_id row = take 64 (dq_instance_id req) \<and> rd_delivery_bot_id row = take 64 sender
               then Some (report_item row) else None)"
  by (auto simp: claim_row_def pending_due_def stale_claim_def same_owner_claim_def)

lemma turn_late:
  assumes "retry_deadline (rd_date_str row) \<le> now" and "get_delivery (delivery_key row) db = Some row"
  obtains row' where "get_delivery (delivery_key row) (fst (claim_row now req sender t row db)) = Some row'"
    "snd (snd (claim_row now req sender t row db)) = None" "rd_status row' \<notin> {DPending, DClaimed}"
proof (cases "rd_status row \<in> {DPending, DClaimed}")
  case True
  show thesis
  proof (rule that)
    show "get_delivery (delivery_key row) (fst (claim_row now req sender t row db)) =
        Some (failed_row ''retry_deadline_exceeded'' row row)"
      using True assms by (simp add: claim_row_def Let_def case_prod_unfold get_fail)
    show "snd (snd (claim_row now req sender t row db)) = None"
      using True assms by (simp add: claim_row_def Let_def case_prod_unfold)
  qed (simp add: failed_row_def)
qed (use assms that turn_started in auto)

subsection \<open>A report is sent at most once\<close>

lemma finished_stays: "job_move\<^sup>*\<^sup>* j j' \<Longrightarrow> finished j \<Longrightarrow> j' = j"
  by (induction rule: rtranclp_induct) (auto simp: finished_def elim: job_moveE)

text \<open>
  C13: Once a delivery is sent, uncertain, skipped or failed it stays so through any updates of the
  handlers and no claim hands it out again; and while it is being sent no claim touches it,
  however long ago the lease was taken.
\<close>

theorem report_never_sent_twice:
  assumes "unique_on delivery_key (daily_report_deliveries db)"
    and "claim_reports_once now fresh req seen db = Inr (db', resp)"
    and "report_step\<^sup>*\<^sup>* db0 db" and "job_of k db0 = Some j"
    and "finished j \<or> get_delivery k db = Some r \<and> rd_status r = DSending"
  shows "{i \<in> set (rc_items resp). item_key i = k} = {} \<and>
     (finished j \<longrightarrow> job_of k db' = Some j) \<and> (\<not> finished j \<longrightarrow> get_delivery k db' = get_delivery k db)"
proof -
  obtain r1 where r1: "get_delivery k db = Some r1" "finished j \<longrightarrow> job r1 = j" "rd_status r1 \<notin> {DPending, DClaimed}"
  proof -
    obtain r0 where r0: "get_delivery k db0 = Some r0" "job r0 = j" using assms(4) by (auto simp: job_of_def)
    obtain r2 where "get_delivery k db = Some r2" "job_move\<^sup>*\<^sup>* j (job r2)"
      using report_steps_Some [OF assms(3) r0(1)] r0(2) by blast
    with assms(5) finished_stays [of j "job r2"] show thesis
      by (intro that [of r2]) (auto simp: job_def finished_def)
  qed
  show ?thesis
    using assms(1,2)
  proof (cases rule: claim_reports_rowE [of _ _ _ _ _ _ _ k])
    case untouched
    then show ?thesis using r1 by (auto simp: job_of_def)
  next
    case (turn row db1)
    with r1(1) have "row = r1" by simp
    with turn r1 turn_started [of row] show ?thesis by (auto simp: job_of_def)
  qed
qed

definition sending_db :: db where
  "sending_db = report_db\<lparr>daily_report_deliveries :=
     [(new_delivery 5 0 ''g'')\<lparr>rd_status := DSending, rd_claim_token := Some ''tok'', rd_claimed_at := Some 1,
        rd_attempt_count := 1\<rparr>]\<rparr>"

theorem report_never_sent_twice_witness:
  "{i \<in> set (rc_items (snd (projr (claim_reports_once (minutes 7) (\<lambda>_. ''new'') sample_report_claim sending_db sending_db)))).
     item_key i = (5, ''g'')} = {}"
proof -
  let ?run = "claim_reports_once (minutes 7) (\<lambda>_. ''new'') sample_report_claim sending_db sending_db"
  have "\<not> isl ?run" by code_simp
  then have run: "?run = Inr (fst (projr ?run), snd (projr ?run))" by simp
  have "unique_on delivery_key (daily_report_deliveries sending_db)" by (simp add: sending_db_def unique_on_def)
  moreover have "job_of (5, ''g'') sending_db = Some (DSending, 1, Some ''tok'')" by code_simp
  moreover have "map_option rd_status (get_delivery (5, ''g'') sending_db) = Some DSending" by code_simp
  then obtain r where "get_delivery (5, ''g'') sending_db = Some r \<and> rd_status r = DSending" by auto
  ultimately show ?thesis using report_never_sent_twice [OF _ run rtranclp.rtrancl_refl _ disjI2] by blast
qed

subsection \<open>Leases\<close>

lemma transition_other_token:
  assumes "unique_on delivery_key (daily_report_deliveries db)" and "get_delivery k db = Some r"
    and "rd_claim_token r \<noteq> Some (tq_claim_token tr)"
  shows "get_delivery k (fst (transition_daily_report now tr seen db)) = Some r"
    and "k = (tq_date_str tr, tq_group_id tr) \<Longrightarrow> \<not> ts_ok (snd (transition_daily_report now tr seen db))"
proof -
  show "get_delivery k (fst (transition_daily_report now tr seen db)) = Some r"
    using assms(2,3) unfolding transition_daily_report_def transition_row_def Let_def case_prod_unfold
    by (auto simp: get_fail get_update_deliveries split: option.split)
  assume k: "k = (tq_date_str tr, tq_group_id tr)"
  show "\<not> ts_ok (snd (transition_daily_report now tr seen db))"
  proof (cases "get_delivery k seen")
    case (Some row)
    then have "delivery_key row = k" by (rule get_delivery_key)
    with assms(2,3) have "snd (update_deliveries (\<lambda>r. delivery_key r = delivery_key row \<and>
        rd_claim_token r = Some (tq_claim_token tr) \<and> rd_status r \<in> allowed_statuses (tq_action tr) \<and>
        rd_attempt_count r = rd_attempt_count row) (transition_values now tr row) db) = 0"
      by (subst rowcount_unique [OF assms(1), where k = k]) auto
    with Some k show ?thesis
      by (simp add: transition_daily_report_def transition_row_def Let_def case_prod_unfold answer_with_def
          no_report_def split: option.split)
  qed (simp add: transition_daily_report_def k [symmetric] no_report_def)
qed

text \<open>
  C9: A lease is exclusive for exactly five minutes, the last instant included: until then a claim
  leaves the row as it is and hands it out only to the instance and bot that hold it, with the same
  token and without using up an attempt, so that a lost response costs nothing; and a transition
  with any other token is refused and changes nothing.
\<close>

theorem report_lease_exclusive:
  assumes "unique_on delivery_key (daily_report_deliveries db)"
    and "get_delivery k db = Some r" and "rd_status r = DClaimed"
    and "rd_claimed_at r = Some t" and "rd_claim_token r = Some tok"
    and "now \<le> t + DAILY_REPORT_CLAIM_TIMEOUT" and "now < retry_deadline (fst k)"
    and "claim_reports_once now fresh req seen db = Inr (db', resp)"
    and "tq_claim_token tr \<noteq> tok"
  shows "get_delivery k db' = Some r \<and>
     {i \<in> set (rc_items resp). item_key i = k} =
       (if fst k = dq_date_str req \<and> snd k \<in> fst ` set (report_candidates req) \<and>
           rd_instance_id r = take 64 (dq_instance_id req) \<and>
           rd_delivery_bot_id r = take 64 (dict_get (report_candidates req) (snd k) '''')
        then {report_item r} else {}) \<and>
     rc_claim_token (report_item r) = tok \<and>
     get_delivery k (fst (transition_daily_report later tr seen' db)) = Some r \<and>
     (ts_ok (snd (transition_daily_report later tr seen' db)) \<longrightarrow> k \<noteq> (tq_date_str tr, tq_group_id tr))"
proof -
  have date: "rd_date_str r = fst k" using get_delivery_key [OF assms(2)] by (auto simp: delivery_key_def)
  have "get_delivery k db' = Some r \<and> {i \<in> set (rc_items resp). item_key i = k} =
       (if fst k = dq_date_str req \<and> snd k \<in> fst ` set (report_candidates req) \<and>
           rd_instance_id r = take 64 (dq_instance_id req) \<and>
           rd_delivery_bot_id r = take 64 (dict_get (report_candidates req) (snd k) '''')
        then {report_item r} else {})"
    using assms(1,8)
  proof (cases rule: claim_reports_rowE [of _ _ _ _ _ _ _ k])
    case untouched
    with assms(2) show ?thesis by auto
  next
    case (turn row db1)
    from turn(5) assms(2) have "row = r" by simp
    note leased = turn_leased [OF assms(3-6) assms(7) [folded date],
        of req "dict_get (report_candidates req) (snd k) ''''" "fresh (snd k)" db1]
    from turn(4,6,7) leased show ?thesis unfolding \<open>row = r\<close> by (auto simp: turn(1,2))
  qed
  moreover have "rc_claim_token (report_item r) = tok" by (simp add: report_item_def assms(5) str_or_def)
  ultimately show ?thesis
    using transition_other_token [OF assms(1,2), of tr later seen'] assms(5,9) by auto
qed

definition leased_db :: db where
  "leased_db = report_db\<lparr>daily_report_deliveries :=
     [(new_delivery 5 0 ''g'')\<lparr>rd_status := DClaimed, rd_instance_id := ''i'', rd_delivery_bot_id := ''b'',
        rd_claim_token := Some ''tok'', rd_claimed_at := Some 7, rd_attempt_count := 1\<rparr>]\<rparr>"

definition stale_answer :: report_transition_request where
  "stale_answer = \<lparr>tq_date_str = 5, tq_group_id = ''g'', tq_claim_token = ''old'', tq_action = ASending,
     tq_message_id = '''', tq_error = ''''\<rparr>"

theorem report_lease_exclusive_witness:
  "rc_claim_token ` {i \<in> set (rc_items (snd (projr (claim_reports_once 8 (\<lambda>_. ''new'') sample_report_claim leased_db leased_db)))).
     item_key i = (5, ''g'')} = {''tok''} \<and>
   \<not> ts_ok (snd (transition_daily_report 8 stale_answer leased_db leased_db))"
proof -
  let ?run = "claim_reports_once 8 (\<lambda>_. ''new'') sample_report_claim leased_db leased_db"
  have "\<not> isl ?run" by code_simp
  then have run: "?run = Inr (fst (projr ?run), snd (projr ?run))" by simp
  define r where "r = hd (daily_report_deliveries leased_db)"
  have "unique_on delivery_key (daily_report_deliveries leased_db)" by (simp add: leased_db_def unique_on_def)
  moreover have "get_delivery (5, ''g'') leased_db = Some r"
    by (simp add: r_def leased_db_def get_delivery_def delivery_key_def new_delivery_def)
  moreover have r: "rd_status r = DClaimed" "rd_claimed_at r = Some 7" "rd_claim_token r = Some ''tok''"
    "rd_instance_id r = take 64 ''i''" "rd_delivery_bot_id r = take 64 ''b''"
    by (simp_all add: r_def leased_db_def)
  moreover have "8 \<le> 7 + DAILY_REPORT_CLAIM_TIMEOUT" "8 < retry_deadline (fst (5, ''g''))"
    "dq_instance_id sample_report_claim = ''i''" "dq_date_str sample_report_claim = 5"
    "report_candidates sample_report_claim = [(''g'', ''b'')]"
    "tq_claim_token stale_answer \<noteq> ''tok''" "tq_date_str stale_answer = 5" "tq_group_id stale_answer = ''g''"
    by code_simp+
  moreover have "dict_get [(''g'', ''b'')] ''g'' '''' = ''b''" by (simp add: dict_get_def)
  ultimately show ?thesis
    using report_lease_exclusive [OF _ _ _ _ _ _ _ run, of "(5, ''g'')" r 7 "''tok''" stale_answer 8 leased_db] by auto
qed

subsection \<open>Nothing starts after the deadline\<close>

text \<open>
  C28: From 00:10 of the next day in Shanghai on, a claim hands out nothing for that date and
  leaves no delivery of its groups waiting or leased; and a holder that asks to start then is
  refused and the delivery fails.
\<close>

theorem report_nothing_after_deadline:
  assumes "unique_on delivery_key (daily_report_deliveries db)"
    and "retry_deadline (dq_date_str req) \<le> now"
    and "claim_reports_once now fresh req seen db = Inr (db', resp)"
    and "tq_action tr = ASending" and "get_delivery (tq_date_str tr, tq_group_id tr) db = Some r"
    and "rd_status r \<noteq> DSending" and "retry_deadline (tq_date_str tr) \<le> later"
  shows "rc_items resp = [] \<and>
     (\<forall>g\<in>fst ` set (report_candidates req). \<forall>r'. get_delivery (dq_date_str req, g) db' = Some r' \<longrightarrow>
        rd_status r' \<notin> {DPending, DClaimed}) \<and>
     \<not> ts_ok (snd (transition_daily_report later tr db db)) \<and>
     map_option rd_status (get_delivery (tq_date_str tr, tq_group_id tr) (fst (transition_daily_report later tr db db)))
       \<notin> {None, Some DSending}"
proof -
  have late: "{i \<in> set (rc_items resp). item_key i = k} = {} \<and> (\<forall>r'. get_delivery k db' = Some r' \<longrightarrow>
      fst k = dq_date_str req \<longrightarrow> snd k \<in> fst ` set (report_candidates req) \<longrightarrow> rd_status r' \<notin> {DPending, DClaimed})" for k
    using assms(1,3)
  proof (cases rule: claim_reports_rowE [of _ _ _ _ _ _ _ k])
    case untouched
    then show ?thesis by auto
  next
    case (turn row db1)
    note k = get_delivery_key [OF turn(4)]
    with turn(1) have "rd_date_str row = dq_date_str req" by (auto simp: delivery_key_def)
    with assms(2) have "retry_deadline (rd_date_str row) \<le> now" by simp
    from this turn(4) obtain row' where row':
      "get_delivery k (fst (claim_row now req (dict_get (report_candidates req) (snd k) []) (fresh (snd k)) row db1)) = Some row'"
      "snd (snd (claim_row now req (dict_get (report_candidates req) (snd k) []) (fresh (snd k)) row db1)) = None"
      "rd_status row' \<notin> {DPending, DClaimed}"
      by (rule turn_late [where row = row and db = db1, unfolded k])
    have "{i \<in> set (rc_items resp). item_key i = k} = {}" unfolding turn(7) row'(2) by simp
    moreover have "get_delivery k db' = Some row'" unfolding turn(6) by (rule row'(1))
    ultimately show ?thesis using row'(3) by simp
  qed
  have "i \<notin> set (rc_items resp)" for i using late [of "item_key i"] by blast
  then have "rc_items resp = []" by (cases "rc_items resp") auto
  moreover have "\<forall>g\<in>fst ` set (report_candidates req). \<forall>r'. get_delivery (dq_date_str req, g) db' = Some r' \<longrightarrow>
        rd_status r' \<notin> {DPending, DClaimed}"
  proof (intro ballI allI impI)
    fix g r' assume "g \<in> fst ` set (report_candidates req)" "get_delivery (dq_date_str req, g) db' = Some r'"
    with late [of "(dq_date_str req, g)"] show "rd_status r' \<notin> {DPending, DClaimed}" by simp
  qed
  moreover have date: "rd_date_str r = tq_date_str tr" using get_delivery_key [OF assms(5)] by (simp add: delivery_key_def)
  have "\<not> ts_ok (snd (transition_daily_report later tr db db)) \<and>
     map_option rd_status (get_delivery (tq_date_str tr, tq_group_id tr) (fst (transition_daily_report later tr db db)))
       \<notin> {None, Some DSending}"
    using assms(4-7) date get_delivery_key [OF assms(5)]
    by (simp add: transition_daily_report_def transition_row_def case_prod_unfold Let_def get_fail answer_with_def
        no_report_def failed_row_def)
  ultimately show ?thesis by blast
qed

definition late_start :: report_transition_request where
  "late_start = stale_answer\<lparr>tq_claim_token := ''tok''\<rparr>"

theorem report_nothing_after_deadline_witness:
  "rc_items (snd (projr (claim_reports_once (midnight 7) (\<lambda>_. ''new'') sample_report_claim leased_db leased_db))) = [] \<and>
   \<not> ts_ok (snd (transition_daily_report (midnight 7) late_start leased_db leased_db))"
proof -
  let ?run = "claim_reports_once (midnight 7) (\<lambda>_. ''new'') sample_report_claim leased_db leased_db"
  have "\<not> isl ?run" by code_simp
  then have run: "?run = Inr (fst (projr ?run), snd (projr ?run))" by simp
  have "unique_on delivery_key (daily_report_deliveries leased_db)" by (simp add: leased_db_def unique_on_def)
  moreover have "map_option rd_status (get_delivery (5, ''g'') leased_db) = Some DClaimed" by code_simp
  then obtain r where "get_delivery (tq_date_str late_start, tq_group_id late_start) leased_db = Some r" "rd_status r \<noteq> DSending"
    by (auto simp: late_start_def stale_answer_def)
  moreover have "retry_deadline (dq_date_str sample_report_claim) \<le> midnight 7" "tq_action late_start = ASending"
    "retry_deadline (tq_date_str late_start) \<le> midnight 7" by code_simp+
  ultimately show ?thesis using report_nothing_after_deadline [OF _ _ run] by blast
qed

subsection \<open>What is stored of a delivery\<close>

text \<open>
  The type invariant of a row: a lease (token and time) exactly while it is held or was held to the
  end, an attempt count between 0 and 4, a time for the next attempt only while one is waited
  for, a sending time exactly when it was sent, and identifiers that fit their columns.
\<close>

definition delivery_wf :: "daily_report_delivery \<Rightarrow> bool" where
  "delivery_wf r \<longleftrightarrow>
     (rd_claim_token r = None \<longleftrightarrow> rd_status r \<in> {DPending, DFailed}) \<and>
     (rd_claimed_at r = None \<longleftrightarrow> rd_status r \<in> {DPending, DFailed}) \<and>
     0 \<le> rd_attempt_count r \<and> rd_attempt_count r \<le> DAILY_REPORT_MAX_ATTEMPTS \<and>
     (rd_attempt_count r = 0 \<longrightarrow> rd_status r \<in> {DPending, DFailed}) \<and>
     (\<forall>t. rd_next_attempt_at r = Some t \<longrightarrow>
        rd_status r = DPending \<and> 0 < rd_attempt_count r \<and> t < retry_deadline (rd_date_str r)) \<and>
     (rd_sent_at r \<noteq> None \<longleftrightarrow> rd_status r = DSent) \<and>
     length (rd_instance_id r) \<le> 64 \<and> length (rd_delivery_bot_id r) \<le> 64 \<and> length (rd_message_id r) \<le> 128"

lemma new_delivery_wf: "delivery_wf (new_delivery d c g)"
  by (simp add: delivery_wf_def new_delivery_def DAILY_REPORT_MAX_ATTEMPTS_def DAILY_REPORT_RETRY_DELAYS_def)

lemma failed_row_wf: "delivery_wf r \<Longrightarrow> rd_status r \<in> {DPending, DClaimed} \<Longrightarrow> delivery_wf (failed_row reason row r)"
  by (auto simp: delivery_wf_def failed_row_def)

lemma leased_row_wf:
  "delivery_wf r \<Longrightarrow> pending_due now r \<or> stale_claim now r \<Longrightarrow> rd_attempt_count r = rd_attempt_count row \<Longrightarrow>
   rd_attempt_count row < DAILY_REPORT_MAX_ATTEMPTS \<Longrightarrow> delivery_wf (leased_row now req sender t row r)"
  by (auto simp: delivery_wf_def leased_row_def pending_due_def stale_claim_def)

lemma retry_outcome_time:
  obtains (stop) "retry_outcome now row = (DFailed, None)"
  | (wait) t where "retry_outcome now row = (DPending, Some t)" "t < retry_deadline (rd_date_str row)"
  by (cases "retry_outcome now row") (auto simp: retry_outcome_def Let_def not_le split: if_splits)

lemma transition_values_wf:
  assumes "delivery_wf r" and "rd_status r \<in> allowed_statuses (tq_action tr)"
    and "rd_attempt_count r = rd_attempt_count row" and "delivery_key r = delivery_key row"
  shows "delivery_wf (transition_values now tr row r)"
proof (cases "tq_action tr \<in> {ARelease, ARetry}")
  case True
  have date: "rd_date_str r = rd_date_str row" using assms(4) by (simp add: delivery_key_def)
  have count: "0 < rd_attempt_count row" "rd_attempt_count row \<le> DAILY_REPORT_MAX_ATTEMPTS" "rd_sent_at r = None"
    "length (rd_message_id r) \<le> 128"
    using assms(1-3) True by (auto simp: delivery_wf_def order_less_le)
  show ?thesis
  proof (cases rule: retry_outcome_time [of now row])
    case stop
    with True count assms(3) show ?thesis by (auto simp: delivery_wf_def transition_values_def)
  next
    case (wait t)
    with True count date assms(3) show ?thesis by (auto simp: delivery_wf_def transition_values_def)
  qed
next
  case False
  with assms(1,2) show ?thesis
    by (cases "tq_action tr"; cases "rd_status r")
      (simp_all add: delivery_wf_def transition_values_def Let_def split: option.splits)
qed

definition deliveries_wf :: "db \<Rightarrow> bool" where
  "deliveries_wf db \<longleftrightarrow> (\<forall>r\<in>set (daily_report_deliveries db). delivery_wf r)"

lemma update_deliveries_wf:
  "deliveries_wf db \<Longrightarrow> (\<And>r. delivery_wf r \<Longrightarrow> P r \<Longrightarrow> delivery_wf (f r)) \<Longrightarrow>
   deliveries_wf (fst (update_deliveries P f db))"
  by (auto simp: deliveries_wf_def update_deliveries_def set_upd_rows)

lemma fail_wf: "deliveries_wf db \<Longrightarrow> deliveries_wf (fst (fail_delivery_if_unchanged row reason db))"
  unfolding fail_delivery_if_unchanged_def Let_def case_prod_unfold
  by (auto intro!: update_deliveries_wf failed_row_wf)

lemma claim_row_wf: "deliveries_wf db \<Longrightarrow> deliveries_wf (fst (claim_row now req sender t row db))"
  unfolding claim_row_def Let_def case_prod_unfold
  by (auto intro!: fail_wf update_deliveries_wf leased_row_wf)

lemma transition_row_wf: "deliveries_wf db \<Longrightarrow> deliveries_wf (fst (transition_row now tr row db))"
proof -
  assume wf: "deliveries_wf db"
  have "deliveries_wf (fst (update_deliveries
      (\<lambda>r. delivery_key r = delivery_key row \<and> rd_claim_token r = Some (tq_claim_token tr) \<and>
           rd_status r \<in> allowed_statuses (tq_action tr) \<and> rd_attempt_count r = rd_attempt_count row)
      (transition_values now tr row) db))"
    by (intro update_deliveries_wf [OF wf] transition_values_wf) simp_all
  with wf fail_wf [OF wf] show ?thesis
    unfolding transition_row_def Let_def case_prod_unfold by (simp split: if_split)
qed

lemma report_step_wf: "report_step db db' \<Longrightarrow> deliveries_wf db \<Longrightarrow> deliveries_wf db'"
  by (erule report_step.cases) (auto simp: claim_row_wf transition_row_wf, auto simp: deliveries_wf_def new_delivery_wf)

text \<open>
  C29: Every delivery row the handlers leave, from an empty table on and with whatever stale rows they
  computed from, is well formed: no lease without its time and none on a waiting or failed row, at
  most four attempts, a next attempt only for a waiting row that was tried before and before
  the deadline, a sending time exactly for the sent rows.
\<close>

theorem delivery_rows_well_formed:
  assumes "report_step\<^sup>*\<^sup>* db db'" and "daily_report_deliveries db = []" and "r \<in> set (daily_report_deliveries db')"
  shows "delivery_wf r"
proof -
  have "deliveries_wf db'"
    using assms(1)
  proof (induction rule: rtranclp_induct)
    case (step db1 db2)
    from report_step_wf [OF step(2,3)] show ?case .
  qed (simp add: deliveries_wf_def assms(2))
  with assms(3) show ?thesis by (simp add: deliveries_wf_def)
qed

theorem delivery_rows_well_formed_witness:
  "delivery_wf (hd (daily_report_deliveries (fst (projr (claim_reports_once 7 (\<lambda>_. ''tok'') sample_report_claim empty_db empty_db))))) \<and>
   rd_status (hd (daily_report_deliveries (fst (projr (claim_reports_once 7 (\<lambda>_. ''tok'') sample_report_claim empty_db empty_db))))) = DClaimed"
proof -
  let ?run = "claim_reports_once 7 (\<lambda>_. ''tok'') sample_report_claim empty_db empty_db"
  let ?row = "hd (daily_report_deliveries (fst (projr ?run)))"
  have "\<not> isl ?run \<and> daily_report_deliveries (fst (projr ?run)) \<noteq> [] \<and> rd_status ?row = DClaimed" by code_simp
  moreover from this have "report_step\<^sup>*\<^sup>* empty_db (fst (projr ?run))"
    by (intro claim_reports_steps [of 7 "\<lambda>_. ''tok''" sample_report_claim empty_db empty_db _ "snd (projr ?run)"]) simp
  ultimately show ?thesis
    using delivery_rows_well_formed [of empty_db "fst (projr ?run)" ?row] by (simp add: empty_db_def)
qed

end
