(* ===== verification/ReportProfiles.thy ===== *)
theory ReportProfiles
  imports Models Transactions Tables
begin

section \<open>Daily reports: the profiles of a group\<close>

text \<open>
  The read side of \<open>routers/daily_reports.py\<close>: one request asks for the day's pig, the
  catalogue size and the latest pig of up to 2048 users, as they were at a cutoff. The users are
  queried in batches of 500 and the answers collected in dictionaries (maps here); the property at
  the end says that the batches cannot be seen in the answer and that later rows cannot, either.
\<close>

subsection \<open>The request\<close>

text \<open>
  \<open>str.strip()\<close>: the white space among the characters of the model (code points below 256).
\<close>

definition py_space :: "char \<Rightarrow> bool" where
  "py_space c \<longleftrightarrow> (let n = of_char c :: nat in n \<in> {9, 10, 11, 12, 13, 28, 29, 30, 31, 32, 133, 160})"

definition py_strip :: "string \<Rightarrow> string" where
  "py_strip s = rev (dropWhile py_space (rev (dropWhile py_space s)))"

definition normalize_user_ids :: "string list \<Rightarrow> error + string list" where
  "normalize_user_ids value =
     (let normalized = sort (remdups (map py_strip (filter (\<lambda>u. py_strip u \<noteq> []) value)))
      in if \<exists>u\<in>set normalized. 64 < length u then Inl ValueError else Inr normalized)"

record profile_request =
  fq_date_str :: date
  fq_group_id :: group_id
  fq_cutoff_at :: py_datetime
  fq_user_ids :: "user_id list"

record profile_item =
  pi_user_id :: user_id
  pi_daily_pig_id :: pig_id
  pi_daily_ex_level :: "int option"
  pi_daily_achieved_at :: "datetime option"
  pi_catalog_count :: int
  pi_catalog_achieved_at :: "datetime option"
  pi_recent_pig_id :: pig_id
  pi_recent_ex_level :: "int option"

subsection \<open>Levels and batches\<close>

definition expert_level_from_roll :: "daily_roll option \<Rightarrow> int option \<Rightarrow> int option" where
  "expert_level_from_roll row feed_level =
     (case row of None \<Rightarrow> None
      | Some r \<Rightarrow>
          (case dr_copies_after_roll r of None \<Rightarrow> None
           | Some copies \<Rightarrow>
               let base = (case dr_expert_level_after_roll r of Some l \<Rightarrow> l | None \<Rightarrow> max (copies - 1) 0);
                   base = (case feed_level of None \<Rightarrow> base | Some l \<Rightarrow> max base l)
               in Some (min (max base 0) 5)))"

definition user_id_batches :: "'a list \<Rightarrow> nat \<Rightarrow> 'a list list" where
  "user_id_batches user_ids n =
     map (\<lambda>k. take n (drop (k * n) user_ids)) [0..<(length user_ids + n - 1) div n]"

subsection \<open>The queries of one batch\<close>

text \<open>\<open>d.update({key(row): value(row) for row in rows})\<close>.\<close>

definition dict_update :: "('r \<Rightarrow> 'k) \<Rightarrow> ('r \<Rightarrow> 'v) \<Rightarrow> 'r list \<Rightarrow> ('k \<rightharpoonup> 'v) \<Rightarrow> ('k \<rightharpoonup> 'v)" where
  "dict_update key val rows d = fold (\<lambda>r d. d(key r \<mapsto> val r)) rows d"

definition group_rolls_batch :: "profile_request \<Rightarrow> datetime \<Rightarrow> user_id list \<Rightarrow> db \<Rightarrow> group_roll list" where
  "group_rolls_batch req cutoff batch db =
     filter (\<lambda>r. gr_user_id r \<in> set batch \<and>
       (gr_group_id r = fq_group_id req \<and> gr_date_str r = fq_date_str req \<and> gr_seen_at r \<le> cutoff)) (group_rolls db)"

definition daily_rolls_batch :: "profile_request \<Rightarrow> datetime \<Rightarrow> user_id list \<Rightarrow> db \<Rightarrow> daily_roll list" where
  "daily_rolls_batch req cutoff batch db =
     filter (\<lambda>r. dr_user_id r \<in> set batch \<and> (dr_date_str r = fq_date_str req \<and> dr_created_at r \<le> cutoff)) (daily_rolls db)"

text \<open>\<open>GROUP BY user_id\<close> with \<open>count\<close> and \<open>max\<close>.\<close>

definition seen_by :: "datetime \<Rightarrow> user_id \<Rightarrow> db \<Rightarrow> collection list" where
  "seen_by cutoff u db = filter (\<lambda>c. co_user_id c = u \<and> co_first_seen_at c \<le> cutoff) (collections db)"

definition collection_stats_batch :: "datetime \<Rightarrow> user_id list \<Rightarrow> db \<Rightarrow> (user_id \<times> int \<times> datetime) list" where
  "collection_stats_batch cutoff batch db =
     map (\<lambda>u. (u, int (length (seen_by cutoff u db)), max_default (map co_first_seen_at (seen_by cutoff u db))))
       (filter (\<lambda>u. seen_by cutoff u db \<noteq> []) (remdups batch))"

text \<open>The subquery \<open>latest_dates\<close> and the join with it.\<close>

definition latest_dates ::
  "('r \<Rightarrow> user_id) \<Rightarrow> ('r \<Rightarrow> date) \<Rightarrow> ('r \<Rightarrow> bool) \<Rightarrow> user_id list \<Rightarrow> 'r list \<Rightarrow> (user_id \<times> date) list" where
  "latest_dates user_of date_of P batch rows =
     map (\<lambda>u. (u, max_default (map date_of (filter (\<lambda>r. user_of r = u \<and> P r) rows))))
       (filter (\<lambda>u. \<exists>r\<in>set rows. user_of r = u \<and> P r) (remdups batch))"

definition join_latest ::
  "('r \<Rightarrow> user_id) \<Rightarrow> ('r \<Rightarrow> date) \<Rightarrow> ('r \<Rightarrow> bool) \<Rightarrow> user_id list \<Rightarrow> 'r list \<Rightarrow> 'r list" where
  "join_latest user_of date_of P batch rows =
     (let latest = latest_dates user_of date_of P batch rows
      in filter (\<lambda>r. (user_of r, date_of r) \<in> set latest) rows)"

definition recent_rolls_batch :: "profile_request \<Rightarrow> datetime \<Rightarrow> user_id list \<Rightarrow> db \<Rightarrow> daily_roll list" where
  "recent_rolls_batch req cutoff batch db =
     join_latest dr_user_id dr_date_str (\<lambda>r. dr_date_str r \<le> fq_date_str req \<and> dr_created_at r \<le> cutoff) batch (daily_rolls db)"

definition latest_feeds_batch :: "profile_request \<Rightarrow> datetime \<Rightarrow> user_id list \<Rightarrow> db \<Rightarrow> user_daily_feed list" where
  "latest_feeds_batch req cutoff batch db =
     join_latest df_user_id df_date_str (\<lambda>r. df_date_str r \<le> fq_date_str req \<and> df_created_at r \<le> cutoff) batch (user_daily_feeds db)"

subsection \<open>The answer\<close>

record profile_data =
  pd_group_rolls :: "user_id \<rightharpoonup> pig_id"
  pd_daily_rolls :: "user_id \<rightharpoonup> daily_roll"
  pd_collection_stats :: "user_id \<rightharpoonup> int \<times> datetime"
  pd_recent_rolls :: "user_id \<rightharpoonup> daily_roll"
  pd_latest_feeds :: "user_id \<rightharpoonup> user_daily_feed"

definition no_profile_data :: profile_data where
  "no_profile_data = \<lparr>pd_group_rolls = (\<lambda>_. None), pd_daily_rolls = (\<lambda>_. None), pd_collection_stats = (\<lambda>_. None),
     pd_recent_rolls = (\<lambda>_. None), pd_latest_feeds = (\<lambda>_. None)\<rparr>"

definition query_batch :: "profile_request \<Rightarrow> datetime \<Rightarrow> db \<Rightarrow> user_id list \<Rightarrow> profile_data \<Rightarrow> profile_data" where
  "query_batch req cutoff db batch d =
     \<lparr>pd_group_rolls = dict_update gr_user_id gr_pig_id (group_rolls_batch req cutoff batch db) (pd_group_rolls d),
      pd_daily_rolls = dict_update dr_user_id (\<lambda>r. r) (daily_rolls_batch req cutoff batch db) (pd_daily_rolls d),
      pd_collection_stats = dict_update fst snd (collection_stats_batch cutoff batch db) (pd_collection_stats d),
      pd_recent_rolls = dict_update dr_user_id (\<lambda>r. r) (recent_rolls_batch req cutoff batch db) (pd_recent_rolls d),
      pd_latest_feeds = dict_update df_user_id (\<lambda>r. r) (latest_feeds_batch req cutoff batch db) (pd_latest_feeds d)\<rparr>"

definition matching_feed :: "pig_id \<Rightarrow> user_daily_feed \<Rightarrow> bool" where
  "matching_feed pig f \<longleftrightarrow>
     df_pig_id f = pig \<and> 0 \<le> df_previous_level f \<and> df_previous_level f < df_new_level f \<and> df_new_level f \<le> 5"

definition profile_item_of :: "profile_request \<Rightarrow> profile_data \<Rightarrow> user_id \<Rightarrow> profile_item" where
  "profile_item_of req d u =
     (let daily_pig_id = str_or (pd_group_rolls d u) '''';
          daily_roll = (case pd_daily_rolls d u of None \<Rightarrow> None
                        | Some r \<Rightarrow> if dr_pig_id r = daily_pig_id then Some r else None);
          latest_feed = pd_latest_feeds d u;
          feed_level = map_option df_new_level latest_feed;
          daily_base_level = expert_level_from_roll daily_roll None;
          matching = (case latest_feed of None \<Rightarrow> False | Some f \<Rightarrow> matching_feed daily_pig_id f);
          daily_ex_level = expert_level_from_roll daily_roll (if matching then feed_level else None);
          daily_achieved_at = map_option dr_created_at daily_roll;
          daily_achieved_at = (case (latest_feed, daily_base_level) of
              (Some f, Some base) \<Rightarrow>
                if df_date_str f = fq_date_str req \<and> matching \<and> base < df_new_level f
                then Some (df_created_at f) else daily_achieved_at
            | _ \<Rightarrow> daily_achieved_at);
          recent_roll = pd_recent_rolls d u
      in \<lparr>pi_user_id = u, pi_daily_pig_id = daily_pig_id, pi_daily_ex_level = daily_ex_level,
          pi_daily_achieved_at = daily_achieved_at,
          pi_catalog_count = (case pd_collection_stats d u of None \<Rightarrow> 0 | Some (n, _) \<Rightarrow> n),
          pi_catalog_achieved_at = map_option snd (pd_collection_stats d u),
          pi_recent_pig_id = (case recent_roll of None \<Rightarrow> '''' | Some r \<Rightarrow> dr_pig_id r),
          pi_recent_ex_level = (case recent_roll of None \<Rightarrow> None
            | Some r \<Rightarrow> expert_level_from_roll recent_roll
                (case latest_feed of None \<Rightarrow> None | Some f \<Rightarrow> if df_pig_id f = dr_pig_id r then feed_level else None))\<rparr>)"

definition get_daily_report_profiles :: "dialect \<Rightarrow> int \<Rightarrow> profile_request \<Rightarrow> db \<Rightarrow> profile_item list" where
  "get_daily_report_profiles dialect tz req db =
     (let user_ids = fq_user_ids req in
      if user_ids = [] then []
      else
        let cutoff_at = database_cutoff_value dialect tz (fq_cutoff_at req);
            d = fold (query_batch req cutoff_at db) (user_id_batches user_ids 500) no_profile_data
        in map (profile_item_of req d) user_ids)"

subsection \<open>Batches cannot be seen\<close>

lemma concat_slices: "concat (map (\<lambda>k. take n (drop (k * n) xs)) [0..<m]) = take (m * n) xs"
proof (induction m)
  case (Suc m)
  have "take (Suc m * n) xs = take (m * n) xs @ take n (drop (m * n) xs)"
    by (metis add.commute mult_Suc take_add)
  with Suc show ?case by simp
qed simp

lemma concat_user_id_batches [simp]: "0 < n \<Longrightarrow> concat (user_id_batches xs n) = xs"
proof -
  assume "0 < n"
  then have "length xs + n - 1 < n + (length xs + n - 1) div n * n" by (rule dividend_less_div_times)
  with \<open>0 < n\<close> have "length xs \<le> (length xs + n - 1) div n * n" by linarith
  then show ?thesis by (simp add: user_id_batches_def concat_slices)
qed

lemma dict_update_lookup:
  assumes "\<And>r. r \<in> set rows \<Longrightarrow> key r = u \<Longrightarrow> val r = v"
  shows "dict_update key val rows d u = (if \<exists>r\<in>set rows. key r = u then Some v else d u)"
  using assms
proof (induction rows arbitrary: d)
  case (Cons r rows)
  then have "dict_update key val rows (d(key r \<mapsto> val r)) u =
      (if \<exists>r\<in>set rows. key r = u then Some v else (d(key r \<mapsto> val r)) u)" by simp
  with Cons.prems [of r] show ?case by (auto simp: dict_update_def)
qed (simp add: dict_update_def)

lemma dict_update_batches:
  assumes "\<And>b r. b \<in> set bs \<Longrightarrow> r \<in> set (sel b) \<Longrightarrow> key r = u \<Longrightarrow> val r = v"
  shows "fold (\<lambda>b. dict_update key val (sel b)) bs d u =
    (if \<exists>b\<in>set bs. \<exists>r\<in>set (sel b). key r = u then Some v else d u)"
  using assms
proof (induction bs arbitrary: d)
  case (Cons b bs)
  then have "fold (\<lambda>b. dict_update key val (sel b)) bs (dict_update key val (sel b) d) u =
      (if \<exists>b\<in>set bs. \<exists>r\<in>set (sel b). key r = u then Some v else dict_update key val (sel b) d u)"
    by (intro Cons.IH) auto
  moreover have "dict_update key val (sel b) d u = (if \<exists>r\<in>set (sel b). key r = u then Some v else d u)"
    using Cons.prems [of b] by (intro dict_update_lookup) simp
  ultimately show ?case by auto
qed simp

lemma query_batches:
  "fold (query_batch req cutoff db) bs d =
     \<lparr>pd_group_rolls = fold (\<lambda>b. dict_update gr_user_id gr_pig_id (group_rolls_batch req cutoff b db)) bs (pd_group_rolls d),
      pd_daily_rolls = fold (\<lambda>b. dict_update dr_user_id (\<lambda>r. r) (daily_rolls_batch req cutoff b db)) bs (pd_daily_rolls d),
      pd_collection_stats = fold (\<lambda>b. dict_update fst snd (collection_stats_batch cutoff b db)) bs (pd_collection_stats d),
      pd_recent_rolls = fold (\<lambda>b. dict_update dr_user_id (\<lambda>r. r) (recent_rolls_batch req cutoff b db)) bs (pd_recent_rolls d),
      pd_latest_feeds = fold (\<lambda>b. dict_update df_user_id (\<lambda>r. r) (latest_feeds_batch req cutoff b db)) bs (pd_latest_feeds d)\<rparr>"
  by (induction bs arbitrary: d) (simp_all add: query_batch_def)

text \<open>What the user's own rows say, without batches.\<close>

definition latest_row ::
  "('r \<Rightarrow> user_id) \<Rightarrow> ('r \<Rightarrow> date) \<Rightarrow> ('r \<Rightarrow> bool) \<Rightarrow> user_id \<Rightarrow> 'r list \<Rightarrow> 'r option" where
  "latest_row user_of date_of P u rows =
     one_or_none (\<lambda>r. user_of r = u \<and> P r \<and> (\<forall>x\<in>set rows. user_of x = u \<and> P x \<longrightarrow> date_of x \<le> date_of r)) rows"

definition profile_data_of :: "profile_request \<Rightarrow> datetime \<Rightarrow> db \<Rightarrow> profile_data" where
  "profile_data_of req cutoff db =
     \<lparr>pd_group_rolls = (\<lambda>u. map_option gr_pig_id (one_or_none (\<lambda>r. gr_user_id r = u \<and>
        (gr_group_id r = fq_group_id req \<and> gr_date_str r = fq_date_str req \<and> gr_seen_at r \<le> cutoff)) (group_rolls db))),
      pd_daily_rolls = (\<lambda>u. one_or_none (\<lambda>r. dr_user_id r = u \<and>
        (dr_date_str r = fq_date_str req \<and> dr_created_at r \<le> cutoff)) (daily_rolls db)),
      pd_collection_stats = (\<lambda>u. let seen = seen_by cutoff u db in
        if seen = [] then None else Some (int (length seen), Max (co_first_seen_at ` set seen))),
      pd_recent_rolls = (\<lambda>u. latest_row dr_user_id dr_date_str
        (\<lambda>r. dr_date_str r \<le> fq_date_str req \<and> dr_created_at r \<le> cutoff) u (daily_rolls db)),
      pd_latest_feeds = (\<lambda>u. latest_row df_user_id df_date_str
        (\<lambda>r. df_date_str r \<le> fq_date_str req \<and> df_created_at r \<le> cutoff) u (user_daily_feeds db))\<rparr>"

lemma lookup_filter_batches:
  assumes "u \<in> set (concat bs)"
    and "\<And>r r'. r \<in> set rows \<Longrightarrow> r' \<in> set rows \<Longrightarrow> key r = u \<Longrightarrow> P r \<Longrightarrow> key r' = u \<Longrightarrow> P r' \<Longrightarrow> r = r'"
  shows "fold (\<lambda>b. dict_update key val (filter (\<lambda>r. key r \<in> set b \<and> P r) rows)) bs (\<lambda>_. None) u =
    map_option val (one_or_none (\<lambda>r. key r = u \<and> P r) rows)"
proof (cases "one_or_none (\<lambda>r. key r = u \<and> P r) rows")
  case None
  then have none: "\<forall>r\<in>set rows. \<not> (key r = u \<and> P r)" by (simp add: one_or_none_None_iff)
  then show ?thesis by (subst dict_update_batches [where v = undefined]) (auto simp: None)
next
  case (Some x)
  then have x: "x \<in> set rows" "key x = u" "P x" by (auto dest: one_or_none_SomeD)
  have "fold (\<lambda>b. dict_update key val (filter (\<lambda>r. key r \<in> set b \<and> P r) rows)) bs (\<lambda>_. None) u = Some (val x)"
  proof (subst dict_update_batches [where v = "val x"])
    show "val r = val x" if "r \<in> set (filter (\<lambda>r. key r \<in> set b \<and> P r) rows)" "key r = u" for b r
      using assms(2) [of r x] that x by simp
    obtain b where "b \<in> set bs" "u \<in> set b" using assms(1) by auto
    with x show "(if \<exists>b\<in>set bs. \<exists>r\<in>set (filter (\<lambda>r. key r \<in> set b \<and> P r) rows). key r = u then Some (val x) else None) =
        Some (val x)" by auto
  qed
  with Some show ?thesis by simp
qed

lemma lookup_stats_batches:
  assumes "u \<in> set (concat bs)"
  shows "fold (\<lambda>b. dict_update fst snd (collection_stats_batch cutoff b db)) bs (\<lambda>_. None) u =
    (let seen = seen_by cutoff u db in
     if seen = [] then None else Some (int (length seen), Max (co_first_seen_at ` set seen)))"
proof -
  obtain b where "b \<in> set bs" "u \<in> set b" using assms by auto
  then have "(\<exists>b\<in>set bs. \<exists>r\<in>set (collection_stats_batch cutoff b db). fst r = u) \<longleftrightarrow> seen_by cutoff u db \<noteq> []"
    by (auto simp: collection_stats_batch_def)
  then show ?thesis
    by (subst dict_update_batches [where v = "(int (length (seen_by cutoff u db)),
        max_default (map co_first_seen_at (seen_by cutoff u db)))"])
      (auto simp: collection_stats_batch_def Let_def max_default_eq_Max)
qed

lemma is_max_default: "ds \<noteq> [] \<and> d = max_default ds \<longleftrightarrow> d \<in> set ds \<and> (\<forall>x\<in>set ds. x \<le> d)"
proof
  assume "d \<in> set ds \<and> (\<forall>x\<in>set ds. x \<le> d)"
  moreover from this have "ds \<noteq> []" by auto
  ultimately show "ds \<noteq> [] \<and> d = max_default ds"
    using max_default_in [of ds] max_default_ge [of d ds] by force
qed (auto simp: max_default_in max_default_ge)

lemma latest_dates_mem:
  assumes "u \<in> set b"
  shows "(u, d) \<in> set (latest_dates user_of date_of P b rows) \<longleftrightarrow>
    (\<exists>r\<in>set rows. user_of r = u \<and> P r \<and> date_of r = d) \<and>
    (\<forall>x\<in>set rows. user_of x = u \<and> P x \<longrightarrow> date_of x \<le> d)"
proof -
  let ?ds = "map date_of (filter (\<lambda>r. user_of r = u \<and> P r) rows)"
  have "(u, d) \<in> set (latest_dates user_of date_of P b rows) \<longleftrightarrow> ?ds \<noteq> [] \<and> d = max_default ?ds"
    using assms by (auto simp: latest_dates_def filter_empty_conv)
  also have "\<dots> \<longleftrightarrow> d \<in> set ?ds \<and> (\<forall>x\<in>set ?ds. x \<le> d)"
    by (rule is_max_default)
  finally show ?thesis by auto
qed

lemma lookup_latest_batches:
  assumes "u \<in> set (concat bs)"
    and unique: "\<And>r r'. r \<in> set rows \<Longrightarrow> r' \<in> set rows \<Longrightarrow> user_of r = user_of r' \<Longrightarrow> date_of r = date_of r' \<Longrightarrow> r = r'"
  shows "fold (\<lambda>b. dict_update user_of (\<lambda>r. r) (join_latest user_of date_of P b rows)) bs (\<lambda>_. None) u =
    latest_row user_of date_of P u rows"
proof -
  let ?latest = "\<lambda>r. user_of r = u \<and> P r \<and> (\<forall>x\<in>set rows. user_of x = u \<and> P x \<longrightarrow> date_of x \<le> date_of r)"
  have member: "r \<in> set (join_latest user_of date_of P b rows) \<and> user_of r = u \<longleftrightarrow> r \<in> set rows \<and> u \<in> set b \<and> ?latest r"
    for r b
  proof (cases "u \<in> set b")
    case True
    then show ?thesis by (auto simp: join_latest_def latest_dates_mem) (metis unique)
  next
    case False
    then show ?thesis by (auto simp: join_latest_def latest_dates_def)
  qed
  show ?thesis
  proof (cases "latest_row user_of date_of P u rows")
    case None
    then have "\<forall>r\<in>set rows. \<not> ?latest r" by (simp add: latest_row_def one_or_none_None_iff)
    with member have none: "\<not> (r \<in> set (join_latest user_of date_of P b rows) \<and> user_of r = u)" for r b by blast
    then show ?thesis by (subst dict_update_batches [where v = undefined]) (auto simp: None)
  next
    case (Some x)
    then have x: "x \<in> set rows" "?latest x" by (auto simp: latest_row_def dest!: one_or_none_SomeD)
    have "fold (\<lambda>b. dict_update user_of (\<lambda>r. r) (join_latest user_of date_of P b rows)) bs (\<lambda>_. None) u = Some x"
    proof (subst dict_update_batches [where v = x])
      show "r = x" if "r \<in> set (join_latest user_of date_of P b rows)" "user_of r = u" for b r
      proof -
        from that member have r: "r \<in> set rows" "?latest r" by blast+
        with x have "date_of r = date_of x" by (simp add: order_antisym)
        with unique [OF r(1) x(1)] r x show ?thesis by simp
      qed
      obtain b where "b \<in> set bs" "u \<in> set b" using assms(1) by auto
      with x member show "(if \<exists>b\<in>set bs. \<exists>r\<in>set (join_latest user_of date_of P b rows). user_of r = u then Some x else None) =
        Some x" by metis
    qed
    with Some show ?thesis by simp
  qed
qed

lemma batches_eq_reference:
  assumes "unique_on group_roll_key (group_rolls db)" and "unique_on daily_roll_key (daily_rolls db)"
    and "unique_on daily_feed_key (user_daily_feeds db)" and u: "u \<in> set (concat bs)"
  shows "profile_item_of req (fold (query_batch req cutoff db) bs no_profile_data) u =
    profile_item_of req (profile_data_of req cutoff db) u"
proof -
  let ?d = "fold (query_batch req cutoff db) bs no_profile_data" and ?r = "profile_data_of req cutoff db"
  have "pd_group_rolls ?d u = pd_group_rolls ?r u"
    unfolding query_batches no_profile_data_def profile_data_of_def profile_data.simps group_rolls_batch_def
    by (rule lookup_filter_batches [OF u]) (auto simp: group_roll_key_def dest: unique_onD [OF assms(1)])
  moreover have "pd_daily_rolls ?d u = pd_daily_rolls ?r u"
    unfolding query_batches no_profile_data_def profile_data_of_def profile_data.simps daily_rolls_batch_def
    by (subst lookup_filter_batches [OF u])
      (auto simp: daily_roll_key_def option.map_ident dest: unique_onD [OF assms(2)])
  moreover have "pd_collection_stats ?d u = pd_collection_stats ?r u"
    unfolding query_batches no_profile_data_def profile_data_of_def profile_data.simps
    by (rule lookup_stats_batches [OF u])
  moreover have "pd_recent_rolls ?d u = pd_recent_rolls ?r u"
    unfolding query_batches no_profile_data_def profile_data_of_def profile_data.simps recent_rolls_batch_def
    by (rule lookup_latest_batches [OF u]) (rule unique_onD [OF assms(2)], auto simp: daily_roll_key_def)
  moreover have "pd_latest_feeds ?d u = pd_latest_feeds ?r u"
    unfolding query_batches no_profile_data_def profile_data_of_def profile_data.simps latest_feeds_batch_def
    by (rule lookup_latest_batches [OF u]) (rule unique_onD [OF assms(3)], auto simp: daily_feed_key_def)
  ultimately show ?thesis unfolding profile_item_of_def by metis
qed

subsection \<open>The answer at the cutoff\<close>

text \<open>What the tables of the profiles held at the cutoff.\<close>

definition as_of :: "datetime \<Rightarrow> db \<Rightarrow> db" where
  "as_of cutoff db = db\<lparr>group_rolls := filter (\<lambda>r. gr_seen_at r \<le> cutoff) (group_rolls db),
     daily_rolls := filter (\<lambda>r. dr_created_at r \<le> cutoff) (daily_rolls db),
     collections := filter (\<lambda>c. co_first_seen_at c \<le> cutoff) (collections db),
     user_daily_feeds := filter (\<lambda>f. df_created_at f \<le> cutoff) (user_daily_feeds db)\<rparr>"

lemma one_or_none_filtered: "one_or_none P (filter Q rs) = one_or_none (\<lambda>r. Q r \<and> P r) rs"
  by (induction rs) auto

lemma latest_row_filter:
  "(\<And>r. P r \<Longrightarrow> Q r) \<Longrightarrow> latest_row user_of date_of P u (filter Q rs) = latest_row user_of date_of P u rs"
  unfolding latest_row_def one_or_none_filtered by (intro one_or_none_cong) auto

lemma seen_by_as_of: "seen_by cutoff u (as_of cutoff db) = seen_by cutoff u db"
  by (auto simp: seen_by_def as_of_def intro: filter_cong)

lemma profile_data_as_of: "profile_data_of req cutoff (as_of cutoff db) = profile_data_of req cutoff db"
  unfolding profile_data_of_def seen_by_as_of
  by (auto simp: one_or_none_filtered as_of_def intro!: latest_row_filter ext arg_cong [where f = "map_option _"] one_or_none_cong)

lemma level_range: "expert_level_from_roll row feed = Some l \<Longrightarrow> 0 \<le> l \<and> l \<le> 5"
  by (auto simp: expert_level_from_roll_def Let_def split: option.splits)

text \<open>
  C30: The profiles are, user by user in the order asked for, what the user's own rows up to the
  cutoff say: the batches of 500 cannot be seen, a row that appears after the cutoff changes
  nothing, and every level lies between 0 and 5, as the response schema demands.
\<close>

theorem report_profiles_at_cutoff:
  assumes "unique_on group_roll_key (group_rolls db)" and "unique_on daily_roll_key (daily_rolls db)"
    and "unique_on daily_feed_key (user_daily_feeds db)"
    and "cutoff = database_cutoff_value dialect tz (fq_cutoff_at req)"
  shows "get_daily_report_profiles dialect tz req db =
       map (profile_item_of req (profile_data_of req cutoff (as_of cutoff db))) (fq_user_ids req) \<and>
     get_daily_report_profiles dialect tz req (as_of cutoff db) = get_daily_report_profiles dialect tz req db \<and>
     (\<forall>i\<in>set (get_daily_report_profiles dialect tz req db).
        set_option (pi_daily_ex_level i) \<union> set_option (pi_recent_ex_level i) \<subseteq> {0..5})"
proof -
  have spec: "get_daily_report_profiles dialect tz req db = map (profile_item_of req (profile_data_of req cutoff db)) (fq_user_ids req)"
    if "unique_on group_roll_key (group_rolls db)" "unique_on daily_roll_key (daily_rolls db)"
      "unique_on daily_feed_key (user_daily_feeds db)" for db
    using batches_eq_reference [OF that, of _ "user_id_batches (fq_user_ids req) 500" req cutoff]
    by (simp add: get_daily_report_profiles_def assms(4) [symmetric] Let_def)
  have "set_option (pi_daily_ex_level (profile_item_of req d u)) \<union> set_option (pi_recent_ex_level (profile_item_of req d u)) \<subseteq> {0..5}"
    for d u
    by (auto simp: profile_item_of_def Let_def dest: level_range split: option.splits)
  moreover have "get_daily_report_profiles dialect tz req (as_of cutoff db) =
      map (profile_item_of req (profile_data_of req cutoff (as_of cutoff db))) (fq_user_ids req)"
    using assms(1-3) by (intro spec) (simp_all add: as_of_def unique_on_filter)
  ultimately show ?thesis by (simp add: spec [OF assms(1-3)] profile_data_as_of)
qed

definition profile_db :: db where
  "profile_db = empty_db\<lparr>collections := [\<lparr>co_user_id = ''u'', co_pig_id = ''p'', co_first_seen_at = 3\<rparr>,
     \<lparr>co_user_id = ''u'', co_pig_id = ''q'', co_first_seen_at = 8\<rparr>]\<rparr>"

definition sample_profile :: profile_request where
  "sample_profile = \<lparr>fq_date_str = 0, fq_group_id = ''g'', fq_cutoff_at = Naive 5, fq_user_ids = [''u'']\<rparr>"

theorem report_profiles_at_cutoff_witness:
  "map pi_catalog_count (get_daily_report_profiles SQLite 0 sample_profile profile_db) = [1]"
proof -
  have "unique_on group_roll_key (group_rolls profile_db)" "unique_on daily_roll_key (daily_rolls profile_db)"
    "unique_on daily_feed_key (user_daily_feeds profile_db)"
    by (simp_all add: profile_db_def empty_db_def)
  moreover have "5 = database_cutoff_value SQLite 0 (fq_cutoff_at sample_profile)"
    by (simp add: database_cutoff_value_def sample_profile_def)
  ultimately have "get_daily_report_profiles SQLite 0 sample_profile profile_db =
      map (profile_item_of sample_profile (profile_data_of sample_profile 5 (as_of 5 profile_db))) (fq_user_ids sample_profile)"
    using report_profiles_at_cutoff by blast
  then show ?thesis
    by (simp add: profile_item_of_def profile_data_of_def sample_profile_def as_of_def profile_db_def seen_by_def Let_def)
qed

end
