(* ===== verification/Calendar.thy ===== *)
theory Calendar
  imports Transactions
begin

section \<open>Dates and times as text\<close>

text \<open>
  What the source uses of Python's \<open>datetime\<close>: the calendar of \<open>date.fromordinal\<close> and
  \<open>date.toordinal\<close>, \<open>isoformat\<close> of dates and date-times, and on top of them the text in
  which \<^verbatim>\<open>schemas.py\<close> sends the times two bots coordinate by. Day 0 of the model is 1970-01-01,
  whose ordinal is 719163; Python's dates end with the year 9999. The reader at the end is the
  specification: what a client that follows ISO 8601 makes of such a text.
\<close>

subsection \<open>The calendar\<close>

definition is_leap :: "int \<Rightarrow> bool" where
  "is_leap y \<longleftrightarrow> y mod 4 = 0 \<and> (y mod 100 \<noteq> 0 \<or> y mod 400 = 0)"

definition days_before_year :: "int \<Rightarrow> int" where
  "days_before_year year = (let y = year - 1 in y * 365 + y div 4 - y div 100 + y div 400)"

definition DAYS_BEFORE_MONTH :: "int list" where
  "DAYS_BEFORE_MONTH = [0, 0, 31, 59, 90, 120, 151, 181, 212, 243, 273, 304, 334]"

definition days_before_month :: "bool \<Rightarrow> nat \<Rightarrow> int" where
  "days_before_month leap m = DAYS_BEFORE_MONTH ! m + of_bool (2 < m \<and> leap)"

definition days_in_month :: "bool \<Rightarrow> nat \<Rightarrow> int" where
  "days_in_month leap m = (if m = 2 then 28 + of_bool leap else if m \<in> {4, 6, 9, 11} then 30 else 31)"

type_synonym civil = "int \<times> nat \<times> int"

definition ymd2ord :: "civil \<Rightarrow> int" where
  "ymd2ord = (\<lambda>(y, m, d). days_before_year y + days_before_month (is_leap y) m + d)"

text \<open>Month and day of the \<open>n\<close>-th day of a year, counted from 0: an estimate, corrected once.\<close>

definition month_day :: "bool \<Rightarrow> nat \<Rightarrow> nat \<times> int" where
  "month_day leap n =
     (let m = (n + 50) div 32; m = (if int n < days_before_month leap m then m - 1 else m)
      in (m, int n - days_before_month leap m + 1))"

definition ord2ymd :: "int \<Rightarrow> civil" where
  "ord2ymd n0 =
     (let n = n0 - 1; n400 = n div 146097; n = n mod 146097;
          n100 = n div 36524; n = n mod 36524;
          n4 = n div 1461; n = n mod 1461;
          n1 = n div 365; n = n mod 365;
          year = n400 * 400 + n100 * 100 + n4 * 4 + n1 + 1
      in if n1 = 4 \<or> n100 = 4 then (year - 1, 12, 31)
         else let leap = (n1 = 3 \<and> (n4 \<noteq> 24 \<or> n100 = 3)) in (year, month_day leap (nat n)))"

definition EPOCH :: int where
  "EPOCH = 719163"

definition civil_date :: "date \<Rightarrow> civil" where
  "civil_date d = ord2ymd (d + EPOCH)"

definition valid_civil :: "civil \<Rightarrow> bool" where
  "valid_civil = (\<lambda>(y, m, d). 1 \<le> m \<and> m \<le> 12 \<and> 1 \<le> d \<and> d \<le> days_in_month (is_leap y) m)"

lemma days_before_month_table [simp]:
  "days_before_month leap 1 = 0" "days_before_month leap (Suc 0) = 0" "days_before_month leap 2 = 31"
  "days_before_month leap 3 = 59 + of_bool leap" "days_before_month leap 4 = 90 + of_bool leap"
  "days_before_month leap 5 = 120 + of_bool leap" "days_before_month leap 6 = 151 + of_bool leap"
  "days_before_month leap 7 = 181 + of_bool leap" "days_before_month leap 8 = 212 + of_bool leap"
  "days_before_month leap 9 = 243 + of_bool leap" "days_before_month leap 10 = 273 + of_bool leap"
  "days_before_month leap 11 = 304 + of_bool leap" "days_before_month leap 12 = 334 + of_bool leap"
  by (simp_all add: days_before_month_def DAYS_BEFORE_MONTH_def)

text \<open>How far off the estimate \<open>(n + 50) >> 5\<close> of the month can be: never by more than one.\<close>

lemma month_estimate:
  assumes "1 \<le> e" "e \<le> 12"
  shows "0 \<le> days_before_month leap e"
    and "1 < e \<Longrightarrow> days_before_month leap (e - 1) \<le> 32 * int e - 50"
    and "1 < e \<Longrightarrow> days_before_month leap e = days_before_month leap (e - 1) + days_in_month leap (e - 1)"
    and "e < 12 \<Longrightarrow> 32 * int e - 19 < days_before_month leap e + days_in_month leap e"
proof -
  have "e \<in> {1, 2, 3, 4, 5, 6, 7, 8, 9, 10, 11, 12}" unfolding insert_iff empty_iff using assms by presburger
  then show "0 \<le> days_before_month leap e"
    and "1 < e \<Longrightarrow> days_before_month leap (e - 1) \<le> 32 * int e - 50"
    and "1 < e \<Longrightarrow> days_before_month leap e = days_before_month leap (e - 1) + days_in_month leap (e - 1)"
    and "e < 12 \<Longrightarrow> 32 * int e - 19 < days_before_month leap e + days_in_month leap e"
    by (elim insertE emptyE; simp add: days_in_month_def)+
qed

lemma month_day:
  assumes "int n < 365 + of_bool leap"
  obtains m d where "month_day leap n = (m, d)" "1 \<le> m" "m \<le> 12" "1 \<le> d" "d \<le> days_in_month leap m"
    "days_before_month leap m + d = int n + 1"
proof -
  define e where "e = (n + 50) div 32"
  have bounds: "32 * e \<le> n + 50" "n + 50 < 32 * e + 32" unfolding e_def by simp_all
  have range: "1 \<le> e" "e \<le> 12" using bounds assms by (cases leap; simp)+
  note estimate = month_estimate [OF range, of leap]
  define m where "m = (if int n < days_before_month leap e then e - 1 else e)"
  have "month_day leap n = (m, int n - days_before_month leap m + 1)"
    by (simp add: month_day_def e_def m_def Let_def)
  moreover have "1 \<le> m \<and> m \<le> 12 \<and> days_before_month leap m \<le> int n \<and> int n < days_before_month leap m + days_in_month leap m"
  proof (cases "int n < days_before_month leap e")
    case True
    then have "1 < e" using range by (cases "e = 1") auto
    with True estimate(2,3) bounds range show ?thesis by (auto simp: m_def)
  next
    case False
    then show ?thesis
      using estimate(4) bounds range assms by (cases "e = 12") (simp_all add: m_def days_in_month_def)
  qed
  ultimately show ?thesis by (intro that) auto
qed

text \<open>The years of a cycle of 400, by centuries, four-year cycles and years.\<close>

lemma mod_zero_up_to: "0 < x \<Longrightarrow> x \<le> m \<Longrightarrow> x mod m = 0 \<longleftrightarrow> x = m" for x m :: int
  by (cases "x = m") (simp_all add: mod_pos_pos_trivial)

lemma cycle_year:
  fixes a b c k :: int
  assumes "y = 400 * a + 100 * b + 4 * c + k" "0 \<le> b" "b \<le> 3" "0 \<le> c" "c \<le> 24" "0 \<le> k" "k \<le> 3"
  shows "days_before_year (y + 1) = 146097 * a + 36524 * b + 1461 * c + 365 * k"
    and "is_leap (y + 1) \<longleftrightarrow> k = 3 \<and> (c \<noteq> 24 \<or> b = 3)"
proof -
  have "y div 4 = 100 * a + 25 * b + c" by (rule int_div_pos_eq [of _ _ _ k]) (use assms in simp_all)
  moreover have "y div 100 = 4 * a + b" by (rule int_div_pos_eq [of _ _ _ "4 * c + k"]) (use assms in simp_all)
  moreover have "y div 400 = a" by (rule int_div_pos_eq [of _ _ _ "100 * b + 4 * c + k"]) (use assms in simp_all)
  ultimately show "days_before_year (y + 1) = 146097 * a + 36524 * b + 1461 * c + 365 * k"
    using assms(1) by (simp add: days_before_year_def Let_def)
  have rests: "y + 1 = (k + 1) + 4 * (100 * a + 25 * b + c)" "y + 1 = (4 * c + k + 1) + 100 * (4 * a + b)"
    "y + 1 = (100 * b + 4 * c + k + 1) + 400 * a" using assms(1) by simp_all
  have "(y + 1) mod 4 = 0 \<longleftrightarrow> k = 3"
    unfolding rests(1) mod_mult_self2 by (subst mod_zero_up_to) (use assms(6,7) in auto)
  moreover have "(y + 1) mod 100 = 0 \<longleftrightarrow> c = 24" if "k = 3"
    unfolding rests(2) mod_mult_self2 by (subst mod_zero_up_to) (use assms(4,5) that in auto)
  moreover have "(y + 1) mod 400 = 0 \<longleftrightarrow> b = 3" if "k = 3" "c = 24"
    unfolding rests(3) mod_mult_self2 by (subst mod_zero_up_to) (use assms(2,3) that in auto)
  ultimately show "is_leap (y + 1) \<longleftrightarrow> k = 3 \<and> (c \<noteq> 24 \<or> b = 3)" unfolding is_leap_def by argo
qed

lemma last_day_of_leap_year:
  "is_leap y \<Longrightarrow> ymd2ord (y, 12, 31) = days_before_year y + 366" "valid_civil (y, 12, 31)"
  by (simp_all add: ymd2ord_def valid_civil_def days_in_month_def)

text \<open>\<open>toordinal\<close> inverts \<open>fromordinal\<close>, which yields real dates.\<close>

lemma ord2ymd: "ymd2ord (ord2ymd n) = n \<and> valid_civil (ord2ymd n)"
proof -
  define a where "a = (n - 1) div 146097"
  define r1 where "r1 = (n - 1) mod 146097"
  define b where "b = r1 div 36524"
  define r2 where "r2 = r1 mod 36524"
  define c where "c = r2 div 1461"
  define r3 where "r3 = r2 mod 1461"
  define k where "k = r3 div 365"
  define r4 where "r4 = r3 mod 365"
  have split: "n - 1 = 146097 * a + r1" "r1 = 36524 * b + r2" "r2 = 1461 * c + r3" "r3 = 365 * k + r4"
    unfolding a_def b_def c_def k_def r4_def r3_def r2_def r1_def by simp_all
  have rest: "0 \<le> r1" "r1 < 146097" "0 \<le> r2" "r2 < 36524" "0 \<le> r3" "r3 < 1461" "0 \<le> r4" "r4 < 365"
    unfolding r1_def r2_def r3_def r4_def by simp_all
  have digits: "0 \<le> b" "b \<le> 4" "0 \<le> c" "c \<le> 24" "0 \<le> k" "k \<le> 4" using split rest by linarith+
  have out: "ord2ymd n = (let year = a * 400 + b * 100 + c * 4 + k + 1 in
      if k = 4 \<or> b = 4 then (year - 1, 12, 31)
      else (year, month_day (k = 3 \<and> (c \<noteq> 24 \<or> b = 3)) (nat r4)))"
    unfolding ord2ymd_def Let_def a_def b_def c_def k_def r1_def r2_def r3_def r4_def by (rule refl)
  consider "b = 4" | "b \<le> 3" "k = 4" | "b \<le> 3" "k \<le> 3" using digits by linarith
  then show ?thesis
  proof cases
    case 1
    then have zero: "r1 = 146096" "c = 0" "k = 0" using split rest digits by linarith+
    with split have n: "n = 146097 * a + 146097" by linarith
    have year: "ord2ymd n = (400 * a + 100 * 3 + 4 * 24 + 3 + 1, 12, 31)" by (simp add: out 1 zero)
    note cycle = cycle_year [OF refl, of 3 24 3 a]
    show ?thesis unfolding year using last_day_of_leap_year [of "400 * a + 100 * 3 + 4 * 24 + 3 + 1"] cycle n by simp
  next
    case 2
    then have c: "c \<le> 23" and n: "n = 146097 * a + 36524 * b + 1461 * c + 1461" using split rest digits by linarith+
    from 2 have year: "ord2ymd n = (400 * a + 100 * b + 4 * c + 3 + 1, 12, 31)" by (simp add: out)
    note cycle = cycle_year [OF refl digits(1) 2(1) digits(3,4), of 3 a]
    show ?thesis unfolding year using last_day_of_leap_year [of "400 * a + 100 * b + 4 * c + 3 + 1"] cycle c n by simp
  next
    case 3
    define leap where "leap \<longleftrightarrow> k = 3 \<and> (c \<noteq> 24 \<or> b = 3)"
    note cycle = cycle_year [OF refl digits(1) 3(1) digits(3-5) 3(2), of a]
    have "int (nat r4) < 365 + of_bool leap" using rest by simp
    then obtain m d where md: "month_day leap (nat r4) = (m, d)" "1 \<le> m" "m \<le> 12" "1 \<le> d" "d \<le> days_in_month leap m"
      "days_before_month leap m + d = int (nat r4) + 1" by (rule month_day)
    from 3 md(1) have year: "ord2ymd n = (400 * a + 100 * b + 4 * c + k + 1, m, d)" by (simp add: out leap_def)
    have same: "is_leap (400 * a + 100 * b + 4 * c + k + 1) = leap" using cycle(2) by (simp add: leap_def)
    have "n = 146097 * a + 36524 * b + 1461 * c + 365 * k + r4 + 1" using split by linarith
    with md cycle(1) rest same show ?thesis unfolding year by (simp add: ymd2ord_def valid_civil_def)
  qed
qed

text \<open>The years of Python's dates.\<close>

definition python_day :: "date \<Rightarrow> bool" where
  "python_day d \<longleftrightarrow> 1 \<le> d + EPOCH \<and> d + EPOCH \<le> 3652059"

lemma day_of_year_bound:
  assumes "1 \<le> m" "m \<le> 12"
  shows "days_before_month leap m + days_in_month leap m \<le> 366"
proof -
  have "m \<in> {1, 2, 3, 4, 5, 6, 7, 8, 9, 10, 11, 12}" unfolding insert_iff empty_iff using assms by presburger
  then show ?thesis by (elim insertE emptyE; cases leap; simp add: days_in_month_def)
qed

lemma days_before_year_bounds:
  "10000 \<le> y \<Longrightarrow> 3652059 \<le> days_before_year y" "y \<le> 0 \<Longrightarrow> days_before_year y \<le> - 366"
proof -
  define z where "z = y - 1"
  have parts: "4 * (z div 4) \<le> z" "z < 4 * (z div 4) + 4" "100 * (z div 100) \<le> z" "z < 100 * (z div 100) + 100"
    "400 * (z div 400) \<le> z" "z < 400 * (z div 400) + 400" by presburger+
  have days: "days_before_year y = z * 365 + z div 4 - z div 100 + z div 400" by (simp add: days_before_year_def z_def Let_def)
  show "3652059 \<le> days_before_year y" if "10000 \<le> y"
  proof (cases "z = 9999")
    case False
    with that have "10000 \<le> z" by (simp add: z_def)
    with parts days show ?thesis by linarith
  qed (simp add: days)
  show "days_before_year y \<le> - 366" if "y \<le> 0"
  proof (cases "z = - 1")
    case False
    with that have "z \<le> - 2" by (simp add: z_def)
    with parts days show ?thesis by linarith
  qed (simp add: days)
qed

lemma civil_dateE:
  assumes "python_day d"
  obtains y m k where "civil_date d = (y, m, k)" "1 \<le> y" "y \<le> 9999" "1 \<le> m" "m \<le> 12" "1 \<le> k" "k \<le> 31"
    "ymd2ord (y, m, k) = d + EPOCH" "valid_civil (y, m, k)"
proof -
  obtain y m k where c: "civil_date d = (y, m, k)" by (metis surj_pair)
  then have day: "ymd2ord (y, m, k) = d + EPOCH" and valid: "valid_civil (y, m, k)"
    using ord2ymd [of "d + EPOCH"] by (simp_all add: civil_date_def)
  then have m: "1 \<le> m" "m \<le> 12" and k: "1 \<le> k" "k \<le> days_in_month (is_leap y) m" by (simp_all add: valid_civil_def)
  have n: "days_before_year y + days_before_month (is_leap y) m + k = d + EPOCH" using day by (simp add: ymd2ord_def)
  have "days_before_month (is_leap y) m + k \<le> 366" using day_of_year_bound [OF m, of "is_leap y"] k(2) by linarith
  moreover have "0 \<le> days_before_month (is_leap y) m" by (rule month_estimate(1) [OF m])
  ultimately have "\<not> y \<le> 0" "\<not> 10000 \<le> y"
    using assms n k(1) days_before_year_bounds [of y] unfolding python_day_def by linarith+
  moreover have "k \<le> 31" using k(2) by (cases "is_leap y") (simp_all add: days_in_month_def split: if_splits)
  ultimately show ?thesis using that [OF c] m k(1) day valid by auto
qed

subsection \<open>Numbers as text\<close>

fun digits :: "nat \<Rightarrow> nat \<Rightarrow> string" where
  "digits 0 n = []"
| "digits (Suc w) n = digits w (n div 10) @ [char_of (48 + n mod 10)]"

fun decimal :: "nat \<Rightarrow> string" where
  "decimal n = (if n < 10 then digits 1 n else decimal (n div 10) @ digits 1 (n mod 10))"

definition is_digit :: "char \<Rightarrow> bool" where
  "is_digit c \<longleftrightarrow> 48 \<le> (of_char c :: nat) \<and> (of_char c :: nat) \<le> 57"

definition digits_value :: "string \<Rightarrow> nat" where
  "digits_value s = foldl (\<lambda>n c. 10 * n + (of_char c - 48)) 0 s"

definition read_digits :: "string \<Rightarrow> nat option" where
  "read_digits s = (if s \<noteq> [] \<and> list_all is_digit s then Some (digits_value s) else None)"

lemma digit_char: "is_digit (char_of (48 + n mod 10 :: nat))" "of_char (char_of (48 + n mod 10 :: nat)) = 48 + n mod 10"
proof -
  have "48 + n mod 10 < 256" by (rule less_trans [of _ 60]) simp_all
  then show c: "of_char (char_of (48 + n mod 10 :: nat)) = 48 + n mod 10" by simp
  have "n mod 10 \<le> 9" by (simp add: less_Suc_eq_le [symmetric])
  then show "is_digit (char_of (48 + n mod 10 :: nat))" by (simp add: is_digit_def c)
qed

lemma digits_facts: "length (digits w n) = w" "list_all is_digit (digits w n)" "digits_value (digits w n) = n mod 10 ^ w"
proof (induction w arbitrary: n)
  case (Suc w)
  case 1 show ?case using Suc by simp
  case 2 show ?case using Suc digit_char by simp
  case 3
  have "n mod (10 * 10 ^ w) = 10 * (n div 10 mod 10 ^ w) + n mod 10" by (simp add: mod_mult2_eq)
  then show ?case using Suc(3) [of "n div 10"] by (simp add: digits_value_def digit_char(2))
qed (simp_all add: digits_value_def)

lemma read_digits: "0 < w \<Longrightarrow> n < 10 ^ w \<Longrightarrow> read_digits (digits w n) = Some n"
  using digits_facts [of w n] by (cases "digits w n") (auto simp: read_digits_def)

subsection \<open>Dates and times as \<open>isoformat\<close> writes them\<close>

definition isoformat :: "date \<Rightarrow> string" where
  "isoformat d = (case civil_date d of (y, m, day) \<Rightarrow>
     digits 4 (nat y) @ ''-'' @ digits 2 m @ ''-'' @ digits 2 (nat day))"

text \<open>The parts of a date-time: day, seconds of the day, microseconds of the second.\<close>

definition day_of :: "datetime \<Rightarrow> date" where
  "day_of t = t div seconds 86400"

definition second_of_day :: "datetime \<Rightarrow> nat" where
  "second_of_day t = nat (t mod seconds 86400 div 1000000)"

definition microsecond :: "datetime \<Rightarrow> nat" where
  "microsecond t = nat (t mod 1000000)"

definition clock_text :: "nat \<Rightarrow> string" where
  "clock_text s = digits 2 (s div 3600) @ '':'' @ digits 2 (s div 60 mod 60) @ '':'' @ digits 2 (s mod 60)"

text \<open>\<open>isoformat\<close> of an aware date-time in UTC; a whole second has no fraction.\<close>

definition utc_isoformat :: "datetime \<Rightarrow> string" where
  "utc_isoformat t = isoformat (day_of t) @ ''T'' @ clock_text (second_of_day t) @
     (if microsecond t = 0 then [] else ''.'' @ digits 6 (microsecond t)) @ ''+00:00''"

fun str_replace :: "string \<Rightarrow> string \<Rightarrow> string \<Rightarrow> string" where
  "str_replace old new [] = []"
| "str_replace old new (c # s) =
     (if old \<noteq> [] \<and> take (length old) (c # s) = old then new @ str_replace old new (drop (length old - 1) s)
      else c # str_replace old new s)"

definition serialize_utc_coordination_time :: "py_datetime option \<Rightarrow> string option" where
  "serialize_utc_coordination_time value =
     (case value of None \<Rightarrow> None | Some v \<Rightarrow> Some (str_replace ''+00:00'' ''Z'' (utc_isoformat (utc_of v))))"

subsection \<open>Reading them back\<close>

definition read_date :: "string \<Rightarrow> date option" where
  "read_date s =
     (if length s = 10 \<and> s ! 4 = CHR ''-'' \<and> s ! 7 = CHR ''-'' then
        (case (read_digits (take 4 s), read_digits (take 2 (drop 5 s)), read_digits (drop 8 s)) of
           (Some y, Some m, Some d) \<Rightarrow>
             if valid_civil (int y, m, int d) then Some (ymd2ord (int y, m, int d) - EPOCH) else None
         | _ \<Rightarrow> None)
      else None)"

definition read_clock :: "string \<Rightarrow> nat option" where
  "read_clock s =
     (if length s = 8 \<and> s ! 2 = CHR '':'' \<and> s ! 5 = CHR '':'' then
        (case (read_digits (take 2 s), read_digits (take 2 (drop 3 s)), read_digits (drop 6 s)) of
           (Some h, Some m, Some sec) \<Rightarrow>
             if h < 24 \<and> m < 60 \<and> sec < 60 then Some (h * 3600 + m * 60 + sec) else None
         | _ \<Rightarrow> None)
      else None)"

definition read_fraction :: "string \<Rightarrow> nat option" where
  "read_fraction s = (case s of [] \<Rightarrow> Some 0 | c # ds \<Rightarrow> if c = CHR ''.'' \<and> length ds = 6 then read_digits ds else None)"

text \<open>An ISO 8601 date-time in UTC, marked by a final Z.\<close>

definition read_utc_time :: "string \<Rightarrow> datetime option" where
  "read_utc_time s =
     (if 20 \<le> length s \<and> last s = CHR ''Z'' \<and> s ! 10 = CHR ''T'' then
        (case (read_date (take 10 s), read_clock (take 8 (drop 11 s)), read_fraction (drop 19 (butlast s))) of
           (Some d, Some sec, Some us) \<Rightarrow> Some (midnight d + seconds (int sec) + int us)
         | _ \<Rightarrow> None)
      else None)"

lemma length_isoformat: "length (isoformat d) = 10"
  by (auto simp: isoformat_def digits_facts split: prod.splits)

lemma read_date_isoformat:
  assumes "python_day d"
  shows "read_date (isoformat d) = Some d"
proof -
  from assms obtain y m k where c: "civil_date d = (y, m, k)" "1 \<le> y" "y \<le> 9999" "1 \<le> m" "m \<le> 12" "1 \<le> k" "k \<le> 31"
    "ymd2ord (y, m, k) = d + EPOCH" "valid_civil (y, m, k)" by (rule civil_dateE)
  have shape: "isoformat d = digits 4 (nat y) @ CHR ''-'' # digits 2 m @ CHR ''-'' # digits 2 (nat k)"
    by (simp add: isoformat_def c)
  have reads: "read_digits (digits 4 (nat y)) = Some (nat y)" "read_digits (digits 2 m) = Some m"
    "read_digits (digits 2 (nat k)) = Some (nat k)"
    by (rule read_digits; use c in simp)+
  have len: "length (digits 4 (nat y)) = 4" "length (digits 2 m) = 2" "length (digits 2 (nat k)) = 2"
    by (rule digits_facts)+
  have parts: "take 4 (isoformat d) = digits 4 (nat y)" "take 2 (drop 5 (isoformat d)) = digits 2 m"
    "drop 8 (isoformat d) = digits 2 (nat k)" "isoformat d ! 4 = CHR ''-''" "isoformat d ! 7 = CHR ''-''"
    unfolding shape by (simp_all add: len nth_append)
  show ?thesis
    unfolding read_date_def parts reads using c by (simp add: length_isoformat)
qed

lemma length_clock_text: "length (clock_text s) = 8"
  by (simp add: clock_text_def digits_facts)

lemma read_clock_text:
  assumes "s < 86400"
  shows "read_clock (clock_text s) = Some s"
proof -
  define h where "h = s div 3600"
  define m where "m = s div 60 mod 60"
  define r where "r = s mod 60"
  have small: "h < 24" "m < 60" "r < 60" using assms by (simp_all add: h_def m_def r_def less_mult_imp_div_less)
  have "s div 60 div 60 = h" by (simp add: h_def div_mult2_eq [symmetric])
  then have sum: "h * 3600 + m * 60 + r = s"
    using div_mult_mod_eq [of s 60] div_mult_mod_eq [of "s div 60" 60] unfolding m_def r_def by linarith
  have shape: "clock_text s = digits 2 h @ CHR '':'' # digits 2 m @ CHR '':'' # digits 2 r"
    by (simp add: clock_text_def h_def m_def r_def)
  have reads: "read_digits (digits 2 h) = Some h" "read_digits (digits 2 m) = Some m" "read_digits (digits 2 r) = Some r"
    by (rule read_digits; use small in simp)+
  have len: "length (digits 2 h) = 2" "length (digits 2 m) = 2" "length (digits 2 r) = 2" by (rule digits_facts)+
  have parts: "take 2 (clock_text s) = digits 2 h" "take 2 (drop 3 (clock_text s)) = digits 2 m"
    "drop 6 (clock_text s) = digits 2 r" "clock_text s ! 2 = CHR '':''" "clock_text s ! 5 = CHR '':''"
    unfolding shape by (simp_all add: len nth_append)
  show ?thesis unfolding read_clock_def parts reads using small sum by (simp add: length_clock_text)
qed

lemma read_fraction_text:
  assumes "u < 1000000"
  shows "read_fraction (if u = 0 then [] else ''.'' @ digits 6 u) = Some u"
  using assms by (simp add: read_fraction_def digits_facts read_digits)

text \<open>No digit, dash, colon, dot or T begins the suffix that is replaced.\<close>

lemma str_replace_suffix:
  assumes "\<forall>c\<in>set s. c \<noteq> hd old" and "old \<noteq> []"
  shows "str_replace old new (s @ old) = s @ new"
  using assms(1)
proof (induction s)
  case Nil
  obtain c cs where "old = c # cs" using assms(2) by (cases old) auto
  then show ?case by simp
next
  case (Cons c s)
  then have "take (length old) (c # s @ old) \<noteq> old" using assms(2) by (cases old) auto
  with Cons show ?case by simp
qed

lemma digits_no_plus: "c \<in> set (digits w n) \<Longrightarrow> c \<noteq> CHR ''+''"
  using digits_facts(2) [of w n] by (auto simp: list_all_iff is_digit_def)

lemma serialized_text:
  "serialize_utc_coordination_time (Some v) =
     Some (isoformat (day_of (utc_of v)) @ ''T'' @ clock_text (second_of_day (utc_of v)) @
       (if microsecond (utc_of v) = 0 then [] else ''.'' @ digits 6 (microsecond (utc_of v))) @ ''Z'')"
proof -
  define s where "s = isoformat (day_of (utc_of v)) @ ''T'' @ clock_text (second_of_day (utc_of v)) @
       (if microsecond (utc_of v) = 0 then [] else ''.'' @ digits 6 (microsecond (utc_of v)))"
  have "\<forall>c\<in>set s. c \<noteq> CHR ''+''"
    by (auto simp: s_def isoformat_def clock_text_def dest: digits_no_plus split: prod.splits if_splits)
  then have "str_replace ''+00:00'' ''Z'' (s @ ''+00:00'') = s @ ''Z''" by (intro str_replace_suffix) simp_all
  then show ?thesis by (simp add: serialize_utc_coordination_time_def utc_isoformat_def s_def)
qed

lemma second_split:
  "0 \<le> t mod 86400000000 div 1000000 \<and>
   86400000000 * (t div 86400000000) + t mod 86400000000 div 1000000 * 1000000 + t mod 1000000 = t" for t :: int
proof -
  define r where "r = t mod 86400000000"
  have "t mod 1000000 = r mod 1000000" unfolding r_def by (rule mod_mod_cancel [symmetric]) simp
  moreover have "0 \<le> r" "86400000000 * (t div 86400000000) + r = t" by (simp_all add: r_def)
  moreover from this(1) have "0 \<le> r div 1000000" by (simp add: pos_imp_zdiv_nonneg_iff)
  moreover have "r div 1000000 * 1000000 + r mod 1000000 = r" by (rule div_mult_mod_eq)
  ultimately show ?thesis unfolding r_def [symmetric] by linarith
qed

text \<open>
  C39: A coordination time is sent unambiguously. For every time of Python's calendar, stored
  without a zone or given with one, the text in a response is ISO 8601 with the mark Z, and reading
  it as such gives exactly the instant, to the microsecond; a missing time stays missing.
\<close>

theorem coordination_time_roundtrip:
  assumes "python_day (day_of (utc_of v))"
  shows "Option.bind (serialize_utc_coordination_time (Some v)) read_utc_time = Some (utc_of v) \<and>
    serialize_utc_coordination_time None = None"
proof -
  define t where "t = utc_of v"
  define d where "d = isoformat (day_of t)"
  define c where "c = clock_text (second_of_day t)"
  define f where "f = (if microsecond t = 0 then [] else ''.'' @ digits 6 (microsecond t))"
  have len: "length d = 10" "length c = 8" by (simp_all add: d_def c_def length_isoformat length_clock_text)
  have "second_of_day t < 86400" "microsecond t < 1000000"
    by (simp_all add: second_of_day_def microsecond_def seconds_def nat_less_iff div_int_pos_iff)
  then have reads: "read_date d = Some (day_of t)" "read_clock c = Some (second_of_day t)" "read_fraction f = Some (microsecond t)"
    using assms unfolding d_def c_def f_def t_def by (simp_all only: read_date_isoformat read_clock_text read_fraction_text)
  have "midnight (day_of t) + seconds (int (second_of_day t)) + int (microsecond t) = t"
    using second_split [of t] by (simp add: midnight_def day_of_def second_of_day_def microsecond_def seconds_def)
  then have "read_utc_time (d @ ''T'' @ c @ f @ ''Z'') = Some t"
    using reads len by (simp add: read_utc_time_def nth_append butlast_append)
  then show ?thesis unfolding serialized_text t_def d_def c_def f_def
    by (simp add: serialize_utc_coordination_time_def)
qed

theorem coordination_time_roundtrip_witness:
  "Option.bind (serialize_utc_coordination_time (Some (Aware (seconds 1728032461 + 250) (seconds 28800)))) read_utc_time =
     Some (seconds 1728003661 + 250)"
  using coordination_time_roundtrip [of "Aware (seconds 1728032461 + 250) (seconds 28800)"]
  by (simp add: python_day_def day_of_def seconds_def EPOCH_def)


text \<open>Dates as dictionary keys and inside keys stay distinct; see \<open>rf_active_key\<close>.\<close>

lemma isoformat_inject: "python_day d \<Longrightarrow> python_day d' \<Longrightarrow> isoformat d = isoformat d' \<longleftrightarrow> d = d'"
  by (metis option.inject read_date_isoformat)

lemma date_key_inject:
  "python_day d \<Longrightarrow> python_day d' \<Longrightarrow> isoformat d @ '':'' @ g = isoformat d' @ '':'' @ g' \<longleftrightarrow> d = d' \<and> g = g'"
  by (simp add: length_isoformat isoformat_inject)


lemma digits_numeral [simp]: "digits (numeral w) n = digits (pred_numeral w) (n div 10) @ [char_of (48 + n mod 10)]"
  by (subst numeral_eq_Suc) (rule digits.simps)

lemma isoformat_epoch: "isoformat 0 = ''1970-01-01''" "isoformat 20000 = ''2024-10-04''"
proof -
  have "civil_date 0 = (1970, 1, 1)" "civil_date 20000 = (2024, 10, 4)"
    by (simp_all add: civil_date_def ord2ymd_def month_day_def Let_def EPOCH_def)
  then show "isoformat 0 = ''1970-01-01''" "isoformat 20000 = ''2024-10-04''"
    by (simp_all add: isoformat_def char_of_def bit_0)
qed

end
