(* ===== verification/Catalog.thy ===== *)
theory Catalog
  imports Refills Events DailyRolls Calendar "HOL-Library.Sublist"
begin

section \<open>The aggregating reads and the refill routes\<close>

text \<open>
  \<^verbatim>\<open>routers/catalog.py\<close>, \<^verbatim>\<open>collections.py\<close>, \<^verbatim>\<open>draw_state.py\<close> and
  \<^verbatim>\<open>groups.py\<close> only read; \<^verbatim>\<open>routers/roast_refills.py\<close> commits what the refill
  service did. Dates are written as \<open>date.isoformat()\<close> writes them.
\<close>

subsection \<open>Collections, draw state, active groups\<close>

definition get_collection_pigs :: "user_id \<Rightarrow> db \<Rightarrow> pig_id list" where
  "get_collection_pigs u db = sort (remdups (map co_pig_id (filter (\<lambda>c. co_user_id c = u) (collections db))))"

definition draw_state_endpoint :: "string \<Rightarrow> user_id \<Rightarrow> db \<Rightarrow> draw_state_response" where
  "draw_state_endpoint tenant u db = build_draw_state_response tenant u db"

definition get_active_groups :: "date \<Rightarrow> db \<Rightarrow> group_id list" where
  "get_active_groups d db =
     sorted_ids (map ev_group_id (filter (\<lambda>e. ev_date_str e = d) (roast_events db)) @
                 map gr_group_id (filter (\<lambda>r. gr_date_str r = d) (group_rolls db)))"

subsection \<open>The catalogue snapshot\<close>

record catalog_snapshot =
  cs_pig_ids :: "pig_id list"
  cs_progress :: "pig_progress_item dict"
  cs_duplicate_streak :: int
  cs_recent_rolls :: "(date \<times> pig_id) list"
  cs_roasted_7d :: int
  cs_roast_events_7d :: int

text \<open>
  \<open>json_contains\<close> is the database's substring test for the quoted user on the serialised list.
\<close>

definition catalog_event :: "(string list \<Rightarrow> user_id \<Rightarrow> bool) \<Rightarrow> date \<Rightarrow> user_id \<Rightarrow> roast_event \<Rightarrow> bool" where
  "catalog_event json_contains today u e \<longleftrightarrow>
     today - 6 \<le> ev_date_str e \<and> ev_date_str e \<le> today \<and>
     (ev_target_id e = u \<or> ev_attacker_id e = u \<or>
      (case ev_participant_snapshot e of None \<Rightarrow> False
       | Some s \<Rightarrow> ps_backfire_victim_id s = Some u \<or>
           (case ps_backfire_victim_ids s of None \<Rightarrow> False | Some us \<Rightarrow> json_contains us u)))"

definition event_mapping_of :: "roast_event \<Rightarrow> event_mapping" where
  "event_mapping_of e =
     (let s = ev_participant_snapshot e in
      \<lparr>em_date_str = Some (isoformat (ev_date_str e)), em_event_id = Some (decimal (ev_id e)),
       em_type = Some (ev_event_type e), em_event_type = None,
       em_attacker = Some (ev_attacker_id e), em_attacker_id = None,
       em_target = Some (ev_target_id e), em_target_id = None, em_group_id = Some (ev_group_id e),
       em_special_reason = Some (str_or (Option.bind s ps_special_reason) []),
       em_backfire_victim_ids = Some (or_else (Option.bind s ps_backfire_victim_ids) []),
       em_backfire_victim_id = Some (str_or (Option.bind s ps_backfire_victim_id) [])\<rparr>)"

definition get_catalog_snapshot ::
  "(string list \<Rightarrow> user_id \<Rightarrow> bool) \<Rightarrow> string \<Rightarrow> datetime \<Rightarrow> user_id \<Rightarrow> int \<Rightarrow> db \<Rightarrow> catalog_snapshot" where
  "get_catalog_snapshot json_contains tenant now u days db =
     (let safe_days = max 1 (min 60 (if days = 0 then 14 else days));
          today = rollpig_today now;
          start_date = today - (safe_days - 1);
          draw_state = build_draw_state_response tenant u db;
          recent_roll_rows = sort_key (\<lambda>r. - dr_date_str r)
            (filter (\<lambda>r. dr_user_id r = u \<and> start_date \<le> dr_date_str r) (daily_rolls db));
          events = sort_key ev_created_at (sort_key ev_id (filter (catalog_event json_contains today u) (roast_events db)));
          roasted_7d = dict_get (count_roasted_users (map event_mapping_of events)) u 0
      in \<lparr>cs_pig_ids = dsr_pig_ids draw_state, cs_progress = dsr_progress draw_state,
          cs_duplicate_streak = dsr_duplicate_streak draw_state,
          cs_recent_rolls = map (\<lambda>r. (dr_date_str r, dr_pig_id r)) recent_roll_rows,
          cs_roasted_7d = roasted_7d, cs_roast_events_7d = roasted_7d\<rparr>)"

subsection \<open>The refill routes\<close>

definition mark_active_users :: "datetime \<Rightarrow> date \<Rightarrow> group_id \<Rightarrow> user_id list \<Rightarrow> db \<Rightarrow> db \<times> bool" where
  "mark_active_users now d g us db = (mark_group_active_users now d g us db, True)"

definition list_active_users :: "dialect \<Rightarrow> int \<Rightarrow> group_id \<Rightarrow> date \<Rightarrow> py_datetime option \<Rightarrow> db \<Rightarrow> user_id list" where
  "list_active_users dialect tz g d cutoff_at db = get_group_active_user_ids dialect tz d g cutoff_at db"

definition bind_refill_endpoint ::
  "string \<Rightarrow> string \<Rightarrow> datetime \<Rightarrow> db \<Rightarrow> db \<times> group_roast_refill_request option" where
  "bind_refill_endpoint request_id message_id clock db =
     (let (db', row) = bind_refill_message request_id message_id None clock db in (db', map_option refill_to_schema row))"

definition active_refill_endpoint ::
  "group_id \<Rightarrow> date \<Rightarrow> rat option \<Rightarrow> datetime \<Rightarrow> db \<Rightarrow> db \<times> group_roast_refill_request option" where
  "active_refill_endpoint g d now_ts clock db =
     (let (db', row) = get_active_refill d g now_ts clock db in (db', map_option refill_to_schema row))"

definition fail_refill_endpoint :: "string \<Rightarrow> string \<Rightarrow> string \<Rightarrow> db \<Rightarrow> db \<times> bool" where
  "fail_refill_endpoint request_id message_id reason db = fail_refill request_id message_id reason db"

definition complete_refill_endpoint ::
  "refill_complete_request \<Rightarrow> datetime \<Rightarrow> db \<Rightarrow> db \<times> refill_complete_response" where
  "complete_refill_endpoint req clock db = complete_refill req clock db"

subsection \<open>What the reads say\<close>

lemma collection_pigs_exact:
  "set (get_collection_pigs u db) = {p. get_collection u p db \<noteq> None} \<and>
   distinct (get_collection_pigs u db) \<and> sorted (get_collection_pigs u db)"
  by (auto simp: get_collection_pigs_def get_collection_def collection_key_def one_or_none_None_iff)

lemma active_groups_exact:
  "g \<in> set (get_active_groups d db) \<longleftrightarrow> g \<noteq> [] \<and>
     ((\<exists>e\<in>set (roast_events db). ev_date_str e = d \<and> ev_group_id e = g) \<or>
      (\<exists>r\<in>set (group_rolls db). gr_date_str r = d \<and> gr_group_id r = g))"
  by (auto simp: get_active_groups_def)

subsection \<open>The substring test\<close>

text \<open>
  \<open>json_quote\<close> is \<open>json.dumps\<close> of a string: everything outside printable ASCII is escaped.
  \<open>json_array\<close> is the text of a list of such strings without spaces, as SQLite extracts it.
\<close>

definition hex_digit :: "nat \<Rightarrow> char" where
  "hex_digit n = char_of (if n < 10 then 48 + n else 87 + n)"

definition escape_char :: "char \<Rightarrow> string" where
  "escape_char c =
     (let n = of_char c :: nat in
      if n = 34 \<or> n = 92 then [CHR 0x5C, c]
      else if 32 \<le> n \<and> n \<le> 126 then [c]
      else if n = 10 then [CHR 0x5C, CHR ''n''] else if n = 13 then [CHR 0x5C, CHR ''r'']
      else if n = 9 then [CHR 0x5C, CHR ''t''] else if n = 8 then [CHR 0x5C, CHR ''b'']
      else if n = 12 then [CHR 0x5C, CHR ''f'']
      else [CHR 0x5C, CHR ''u'', CHR ''0'', CHR ''0'', hex_digit (n div 16), hex_digit (n mod 16)])"

definition json_quote :: "string \<Rightarrow> string" where
  "json_quote s = CHR 0x22 # concat (map escape_char s) @ [CHR 0x22]"

fun json_elements :: "string list \<Rightarrow> string" where
  "json_elements [] = []"
| "json_elements [u] = json_quote u"
| "json_elements (u # us) = json_quote u @ '','' @ json_elements us"

definition json_array :: "string list \<Rightarrow> string" where
  "json_array us = ''['' @ json_elements us @ '']''"

definition text_contains :: "string list \<Rightarrow> user_id \<Rightarrow> bool" where
  "text_contains us u \<longleftrightarrow> sublist (json_quote u) (json_array us)"

lemma text_contains_complete: "u \<in> set us \<Longrightarrow> text_contains us u"
proof -
  have "u \<in> set us \<Longrightarrow> sublist (json_quote u) (json_elements us)"
  proof (induction us rule: json_elements.induct)
    case (3 v w us)
    show ?case
    proof (cases "u = v")
      case False
      with 3 have "sublist (json_quote u) (json_elements (w # us))" by simp
      then show ?thesis by (simp add: sublist_append sublist_Cons_right)
    qed (simp add: sublist_append_rightI)
  qed simp_all
  moreover assume "u \<in> set us"
  ultimately show ?thesis unfolding text_contains_def json_array_def by (meson sublist_order.order_trans sublist_appendI)
qed

subsection \<open>The catalogue counts what the statistics count\<close>

lemma decimal_value: "digits_value (decimal n) = n" and decimal_nonempty: "decimal n \<noteq> []"
proof -
  have step: "digits_value (s @ digits 1 d) = 10 * digits_value s + d mod 10" for s d
    using digit_char(2) [of d] by (simp add: digits_value_def)
  show "digits_value (decimal n) = n"
  proof (induction n rule: decimal.induct)
    case (1 n)
    show ?case
    proof (cases "n < 10")
      case True
      with step [of "[]" n] show ?thesis by (simp add: digits_value_def)
    next
      case False
      with 1 step show ?thesis by (subst decimal.simps) (simp del: digits.simps decimal.simps)
    qed
  qed
  show "decimal n \<noteq> []" by (subst decimal.simps) (simp del: decimal.simps)
qed

lemma identified_once_distinct:
  "distinct (map (\<lambda>e. (str_or (em_date_str e) [], str_or (em_event_id e) [])) es) \<Longrightarrow>
   (\<forall>e\<in>set es. (str_or (em_date_str e) [], str_or (em_event_id e) []) \<notin> seen) \<Longrightarrow> identified_once seen es = es"
proof (induction es arbitrary: seen)
  case (Cons e es)
  let ?k = "\<lambda>e. (str_or (em_date_str e) [], str_or (em_event_id e) [])"
  have "?k e \<notin> ?k ` set es" using Cons.prems(1) by simp
  then have "\<forall>x\<in>set es. ?k x \<noteq> ?k e" by (metis (no_types, lifting) image_eqI)
  then have "\<forall>x\<in>set es. ?k x \<notin> insert (?k e) seen" using Cons.prems(2) by simp
  with Cons.IH [of "insert (?k e) seen"] Cons.IH [of seen] Cons.prems show ?case by (simp add: Let_def)
qed simp

lemma distinct_map_key: "(\<And>x. f x = g (k x)) \<Longrightarrow> distinct (map f xs) \<Longrightarrow> distinct (map k xs)"
  by (induction xs) auto

lemma identified_events: "distinct (map ev_id es) \<Longrightarrow> identified_once {} (map event_mapping_of es) = map event_mapping_of es"
proof (rule identified_once_distinct)
  let ?key = "\<lambda>e. (str_or (em_date_str e) [], str_or (em_event_id e) [])"
  have "ev_id e = (digits_value \<circ> snd) (?key (event_mapping_of e))" for e
    by (simp add: event_mapping_of_def Let_def str_or_def decimal_nonempty decimal_value del: decimal.simps)
  then have "distinct (map ev_id es) \<Longrightarrow> distinct (map (\<lambda>e. ?key (event_mapping_of e)) es)" by (rule distinct_map_key)
  moreover assume "distinct (map ev_id es)"
  ultimately show "distinct (map ?key (map event_mapping_of es))" by (simp only: map_map comp_def)
qed (rule ballI, simp only: empty_iff not_False_eq_True)

lemma hit_in_catalog:
  assumes "hit u kind (event_mapping_of e)" and "today - 6 \<le> ev_date_str e" and "ev_date_str e \<le> today"
    and "\<And>us. u \<in> set us \<Longrightarrow> json_contains us u"
  shows "catalog_event json_contains today u e"
  using assms
  by (cases "ev_participant_snapshot e")
    (auto simp: hit_def em_victims_def em_target_of_def em_attacker_of_def event_mapping_of_def Let_def catalog_event_def
      str_or_def or_else_def simp del: decimal.simps split: if_splits option.splits)

text \<open>
  C38: The catalogue of a user is exact. The number of times he was roasted in the last seven days is
  the number the statistics count over all events of those days, although the query reads only the
  events that pass the database's filter, one part of which is a substring test on stored JSON;
  and the recent rolls are exactly his rolls of the requested days, at most sixty, newest first.
\<close>

theorem catalog_exact:
  assumes "distinct (map ev_id (roast_events db))" and "\<And>us. u \<in> set us \<Longrightarrow> json_contains us u"
  shows "cs_roasted_7d (get_catalog_snapshot json_contains tenant now u days db) =
      dict_get (count_roasted_users (map event_mapping_of
        (filter (\<lambda>e. rollpig_today now - 6 \<le> ev_date_str e \<and> ev_date_str e \<le> rollpig_today now) (roast_events db)))) u 0 \<and>
    set (cs_recent_rolls (get_catalog_snapshot json_contains tenant now u days db)) =
      {(dr_date_str r, dr_pig_id r) |r. r \<in> set (daily_rolls db) \<and> dr_user_id r = u \<and>
         rollpig_today now - dr_date_str r < max 1 (min 60 (if days = 0 then 14 else days))} \<and>
    sorted (rev (map fst (cs_recent_rolls (get_catalog_snapshot json_contains tenant now u days db))))"
proof (intro conjI)
  define today where "today = rollpig_today now"
  let ?window = "\<lambda>e. today - 6 \<le> ev_date_str e \<and> ev_date_str e \<le> today"
  define read where "read = sort_key ev_created_at (sort_key ev_id (filter (catalog_event json_contains today u) (roast_events db)))"
  define all where "all = filter ?window (roast_events db)"
  have ids: "distinct (map ev_id read)" "distinct (map ev_id all)"
    using assms(1) unfolding read_def all_def distinct_map set_sort set_filter distinct_sort by (auto intro: inj_on_subset)
  have catalog: "hit u kind (event_mapping_of e) \<Longrightarrow> catalog_event json_contains today u e \<longleftrightarrow> ?window e" for kind e
    using hit_in_catalog [where json_contains = json_contains and u = u, OF _ _ _ assms(2)] by (auto simp: catalog_event_def)
  have "length (filter (\<lambda>e. hit u [] (event_mapping_of e)) read) = length (filter (\<lambda>e. hit u [] (event_mapping_of e)) all)"
    unfolding read_def all_def filter_sort length_sort filter_filter
    by (rule arg_cong [where f = length], rule filter_cong) (use catalog in auto)
  moreover have "punishments u (map event_mapping_of read) = punishments u (map event_mapping_of all)"
    unfolding punishments_def read_def all_def using catalog by fastforce
  ultimately have "dict_get (count_roasted_users (map event_mapping_of read)) u 0 = dict_get (count_roasted_users (map event_mapping_of all)) u 0"
    unfolding count_by_hits identified_events [OF ids(1)] identified_events [OF ids(2)] by (simp add: filter_map comp_def)
  then show "cs_roasted_7d (get_catalog_snapshot json_contains tenant now u days db) =
      dict_get (count_roasted_users (map event_mapping_of
        (filter (\<lambda>e. rollpig_today now - 6 \<le> ev_date_str e \<and> ev_date_str e \<le> rollpig_today now) (roast_events db)))) u 0"
    by (simp add: get_catalog_snapshot_def Let_def read_def all_def today_def)
  show "set (cs_recent_rolls (get_catalog_snapshot json_contains tenant now u days db)) =
      {(dr_date_str r, dr_pig_id r) |r. r \<in> set (daily_rolls db) \<and> dr_user_id r = u \<and>
         rollpig_today now - dr_date_str r < max 1 (min 60 (if days = 0 then 14 else days))}"
    by (auto simp: get_catalog_snapshot_def Let_def)
  have "sorted (map (\<lambda>r. - dr_date_str r) rs) \<Longrightarrow> sorted (rev (map dr_date_str rs))" for rs
    by (induction rs) (auto simp: sorted_append)
  then have "sorted (rev (map dr_date_str (sort_key (\<lambda>r. - dr_date_str r) rs)))" for rs :: "daily_roll list" using sorted_sort_key by blast
  then show "sorted (rev (map fst (cs_recent_rolls (get_catalog_snapshot json_contains tenant now u days db))))"
    by (simp add: get_catalog_snapshot_def Let_def comp_def)
qed

text \<open>Two victims of a failed roast, neither its target nor its cook, and an event too old to count.\<close>

definition catalog_db :: db where
  "catalog_db =
     (let failed = sample_event\<lparr>er_event_type := ''backfire'', er_backfire_victim_ids := [''v'', ''w'']\<rparr>
      in empty_db\<lparr>roast_events := [event_row 1 2 failed 1, event_row 2 20 failed 2, event_row 3 19 sample_event 3]\<rparr>)"

theorem catalog_exact_witness:
  "cs_roasted_7d (get_catalog_snapshot text_contains ''tenant'' (20 * seconds 86400) ''w'' 14 catalog_db) = 1"
proof -
  have "distinct (map ev_id (roast_events catalog_db))" by code_simp
  moreover have "dict_get (count_roasted_users (map event_mapping_of (filter (\<lambda>e. rollpig_today (20 * seconds 86400) - 6 \<le> ev_date_str e \<and>
      ev_date_str e \<le> rollpig_today (20 * seconds 86400)) (roast_events catalog_db)))) ''w'' 0 = 1" by code_simp
  ultimately show ?thesis
    using catalog_exact [of catalog_db "''w''" text_contains "''tenant''" "20 * seconds 86400" 14] text_contains_complete by simp
qed

end
