(* ===== verification/Migrations.thy ===== *)
theory Migrations
  imports DailyRolls
begin

section \<open>Start-up migrations and the growth backfill\<close>

text \<open>
  The data part of \<^verbatim>\<open>migrations.py\<close> (what \<open>ensure_runtime_migrations\<close> does to
  rows; the columns it adds exist in the model already) and \<^verbatim>\<open>tools/backfill_p1a_progress.py\<close>.
  The columns \<open>created_at\<close> of reservations and \<open>joined_at\<close> of participants, which only
  the activity backfill reads, are arguments here.
\<close>

subsection \<open>Charges of the old usage rows\<close>

definition migrated_usage :: "int \<Rightarrow> user_usage \<Rightarrow> user_usage" where
  "migrated_usage now_ts row =
     (let last_roast_ts = int_or (uu_last_roast_ts row) 0;
          (charges, updated_ts) =
            (if last_roast_ts \<le> 0 then (DEFAULT_ROAST_CHARGE_MAX, now_ts)
             else
               let elapsed = max 0 (now_ts - last_roast_ts);
                   recovered = elapsed div DEFAULT_ROAST_CHARGE_RECOVER_SECONDS;
                   charges = min DEFAULT_ROAST_CHARGE_MAX (1 + recovered)
               in (charges, if DEFAULT_ROAST_CHARGE_MAX \<le> charges then now_ts
                            else last_roast_ts + recovered * DEFAULT_ROAST_CHARGE_RECOVER_SECONDS))
      in row\<lparr>uu_roast_charges := Some charges, uu_roast_charge_updated_ts := Some updated_ts\<rparr>)"

definition migrate_existing_user_usage :: "int \<Rightarrow> db \<Rightarrow> db" where
  "migrate_existing_user_usage now_ts db =
     db\<lparr>user_usage := upd_rows (\<lambda>r. uu_roast_charges r = None \<or> uu_roast_charge_updated_ts r = None)
          (migrated_usage now_ts) (user_usage db)\<rparr>"

subsection \<open>Reservations of older versions\<close>

definition migrate_ambiguous_roast_reservations :: "db \<Rightarrow> db" where
  "migrate_ambiguous_roast_reservations db =
     db\<lparr>roast_reservations := upd_rows (\<lambda>r. rr_status r = Processing \<and> rr_outcome_snapshot r \<noteq> None)
          (\<lambda>r. r\<lparr>rr_status := Sending\<rparr>) (roast_reservations db)\<rparr>"

definition clear_completed_slots :: "db \<Rightarrow> db" where
  "clear_completed_slots db =
     db\<lparr>roast_reservations := upd_rows (\<lambda>r. rr_status r = Completed) (\<lambda>r. r\<lparr>rr_active_slot := None\<rparr>)
          (roast_reservations db)\<rparr>"

subsection \<open>The activity of the last two days\<close>

type_synonym activity = "date \<times> group_id \<times> user_id \<times> datetime"

definition in_range :: "date \<Rightarrow> date \<Rightarrow> activity \<Rightarrow> bool" where
  "in_range start_date end_date a \<longleftrightarrow>
     (case a of (d, g, u, _) \<Rightarrow> g \<noteq> [] \<and> u \<noteq> [] \<and> start_date \<le> d \<and> d \<le> end_date)"

definition group_activity_sources ::
  "(roast_reservation \<Rightarrow> datetime) \<Rightarrow> (roast_reservation_participant \<Rightarrow> datetime) \<Rightarrow> date \<Rightarrow> date \<Rightarrow> db \<Rightarrow> activity list" where
  "group_activity_sources reserved_at joined_at start_date end_date db = filter (in_range start_date end_date)
     (map (\<lambda>r. (gr_date_str r, gr_group_id r, gr_user_id r, gr_seen_at r)) (group_rolls db) @
      map (\<lambda>e. (ev_date_str e, ev_group_id e, ev_attacker_id e, ev_created_at e)) (roast_events db) @
      map (\<lambda>e. (ev_date_str e, ev_group_id e, ev_target_id e, ev_created_at e))
        (filter (\<lambda>e. ev_event_type e \<noteq> ''bot_backfire'') (roast_events db)) @
      map (\<lambda>r. (rr_date_str r, rr_group_id r, rr_owner_id r, reserved_at r)) (roast_reservations db) @
      concat (map (\<lambda>r. map (\<lambda>p. (rr_date_str r, rr_group_id r, rp_user_id p, joined_at p))
        (filter (\<lambda>p. rp_reservation_id p = rr_reservation_id r) (roast_reservation_participants db))) (roast_reservations db)))"

text \<open>\<open>MIN(active_at) ... GROUP BY date_str, group_id, user_id\<close>.\<close>

definition activity_keys :: "activity list \<Rightarrow> (date \<times> group_id \<times> user_id) list" where
  "activity_keys as = remdups (map (\<lambda>(d, g, u, _). (d, g, u)) as)"

fun min_list_from :: "datetime \<Rightarrow> datetime list \<Rightarrow> datetime" where
  "min_list_from m [] = m"
| "min_list_from m (t # ts) = min_list_from (min m t) ts"

definition earliest :: "activity list \<Rightarrow> date \<times> group_id \<times> user_id \<Rightarrow> datetime" where
  "earliest as k =
     (case map (\<lambda>(_, _, _, t). t) (filter (\<lambda>(d, g, u, _). (d, g, u) = k) as) of [] \<Rightarrow> 0 | t # ts \<Rightarrow> min_list_from t ts)"

text \<open>The upserts of SQLite and MySQL keep the earlier time; other databases only insert.\<close>

definition upsert_activity :: "activity list \<Rightarrow> date \<times> group_id \<times> user_id \<Rightarrow> group_daily_active_user list \<Rightarrow> group_daily_active_user list" where
  "upsert_activity as k rows =
     (case k of (d, g, u) \<Rightarrow>
        if one_or_none (\<lambda>r. active_user_key r = k) rows = None then rows @ [active_user_row (earliest as k) d g u]
        else upd_rows (\<lambda>r. active_user_key r = k) (\<lambda>r. r\<lparr>ga_active_at := min (ga_active_at r) (earliest as k)\<rparr>) rows)"

definition backfill_group_activity ::
  "dialect \<Rightarrow> (roast_reservation \<Rightarrow> datetime) \<Rightarrow> (roast_reservation_participant \<Rightarrow> datetime) \<Rightarrow> date \<Rightarrow> date \<Rightarrow>
   db \<Rightarrow> error + db" where
  "backfill_group_activity dialect reserved_at joined_at start_date end_date db =
     (let as = group_activity_sources reserved_at joined_at start_date end_date db;
          rows = group_daily_active_users db
      in if dialect = OtherDialect \<and> (\<exists>k\<in>set (activity_keys as). one_or_none (\<lambda>r. active_user_key r = k) rows \<noteq> None)
         then Inl IntegrityError
         else Inr (db\<lparr>group_daily_active_users := fold (upsert_activity as) (activity_keys as) rows\<rparr>))"

text \<open>The order of \<open>ensure_runtime_migrations\<close>, on a database that has all its tables.\<close>

definition ensure_runtime_migrations ::
  "dialect \<Rightarrow> (roast_reservation \<Rightarrow> datetime) \<Rightarrow> (roast_reservation_participant \<Rightarrow> datetime) \<Rightarrow> datetime \<Rightarrow> bool \<Rightarrow>
   date option \<Rightarrow> date option \<Rightarrow> db \<Rightarrow> error + db" where
  "ensure_runtime_migrations dialect reserved_at joined_at now backfill activity_start activity_end db =
     (let db1 = migrate_existing_user_usage (now div 1000000) db;
          db2 = clear_completed_slots (migrate_ambiguous_roast_reservations db1)
      in if \<not> backfill then Inr db2
         else
           let business_today = rollpig_today now
           in backfill_group_activity dialect reserved_at joined_at
                (case activity_start of None \<Rightarrow> business_today - 1 | Some d \<Rightarrow> d)
                (case activity_end of None \<Rightarrow> business_today | Some d \<Rightarrow> d) db2)"

subsection \<open>The growth backfill\<close>

definition backfill_progress_row :: "string \<Rightarrow> collection \<Rightarrow> db \<times> nat \<Rightarrow> db \<times> nat" where
  "backfill_progress_row tenant row = (\<lambda>(db, n).
     if get_progress tenant (co_user_id row) (co_pig_id row) db \<noteq> None then (db, n)
     else (add_progress \<lparr>up_tenant_id = tenant, up_user_id = co_user_id row, up_pig_id = co_pig_id row, up_copies = 1,
             up_growth_bonus = 0, up_first_obtained_at = co_first_seen_at row\<rparr> db, n + 1))"

definition backfill_draw_state :: "string \<Rightarrow> user_id \<Rightarrow> db \<times> nat \<Rightarrow> db \<times> nat" where
  "backfill_draw_state tenant u = (\<lambda>(db, n).
     if get_draw_state tenant u db \<noteq> None then (db, n)
     else (db\<lparr>user_draw_state := user_draw_state db @ [\<lparr>ds_tenant_id = tenant, ds_user_id = u, ds_duplicate_streak = 0\<rparr>]\<rparr>,
           n + 1))"

definition backfill_p1a_progress :: "string \<Rightarrow> db \<Rightarrow> db \<times> nat \<times> nat" where
  "backfill_p1a_progress tenant db =
     (let touched_users = sort (remdups (map co_user_id (collections db)));
          (db1, created_progress) = fold (backfill_progress_row tenant) (collections db) (db, 0);
          (db2, created_draw_state) = fold (backfill_draw_state tenant) touched_users (db1, 0)
      in (db2, created_progress, created_draw_state))"

subsection \<open>Restarts cannot be seen\<close>












definition usage_row :: "user_id \<Rightarrow> db \<Rightarrow> user_usage option" where
  "usage_row u db = one_or_none (\<lambda>r. uu_user_id r = u) (user_usage db)"

text \<open>A user's charges at \<open>t\<close> for a client that sends these settings with its requests.\<close>

definition charges_of :: "user_id \<Rightarrow> int \<Rightarrow> int option \<Rightarrow> int option \<Rightarrow> db \<Rightarrow> (int \<times> int) option" where
  "charges_of u t max_charges cooldown_seconds db =
     (let (mx, rs) = clamp_charge_settings max_charges cooldown_seconds
      in map_option (\<lambda>r. bucket_of_row r t mx rs) (usage_row u db))"







text \<open>
  The exception: a client grants three charges, the user's row was created by a rush, and after a
  restart only two are left.
\<close>

lemma restart_costs_a_charge:
  "let db = fst (consume_force_usage ''u'' 5 empty_db);
       db' = projr (ensure_runtime_migrations SQLite (\<lambda>_. 0) (\<lambda>_. 0) (seconds 200) False None None db)
   in charges_of ''u'' 200 (Some 3) None db = Some (3, 200) \<and> charges_of ''u'' 200 (Some 3) None db' = Some (2, 200)"
  by code_simp

end
