(* ===== verification/SchemaUpgrade.thy ===== *)
theory SchemaUpgrade
  imports Models
begin

section \<open>Upgrading the schema while other instances do the same (\<^verbatim>\<open>migrations.py\<close>)\<close>

text \<open>
  At start-up every instance adds the columns and swaps the unique constraint that older databases
  lack. DDL is not undone by a rollback and other instances may run between any two statements, so
  a world is passed through: the schema, the number of statements sent so far, and whether
  this instance holds the MySQL lock. The environment says what the other instances do
  before each statement, which statements fail, and what \<open>GET_LOCK\<close> answers. While the
  lock is held nobody else changes the constraints, which only this routine does.
\<close>

subsection \<open>Schema, errors and statements\<close>

record schema =
  sc_tables :: "(string \<times> string list) list"
  sc_uniques :: "string list"

text \<open>
  The driver's code and whether the message says ``duplicate column name''; the inspector's error
  for an unknown table; the two RuntimeErrors of the source.
\<close>

datatype schema_error = DBAPIError "int option" bool | NoSuchTableError | MigrationLockTimeout | UnsupportedDialect

record world =
  w_schema :: schema
  w_statements :: nat
  w_locked :: bool

record environment =
  en_others :: "nat \<Rightarrow> schema \<Rightarrow> schema"
  en_failure :: "nat \<Rightarrow> schema_error option"
  en_lock :: "int option"

type_synonym 'a action = "environment \<Rightarrow> world \<Rightarrow> (schema_error + 'a) \<times> world"

definition others_act :: "environment \<Rightarrow> world \<Rightarrow> schema" where
  "others_act e w =
     (let s = en_others e (w_statements w) (w_schema w)
      in if w_locked w then s\<lparr>sc_uniques := sc_uniques (w_schema w)\<rparr> else s)"

definition statement :: "(schema \<Rightarrow> (schema_error + 'a) \<times> schema) \<Rightarrow> 'a action" where
  "statement f e w =
     (let s = others_act e w;
          (r, s') = (case en_failure e (w_statements w) of Some x \<Rightarrow> (Inl x, s) | None \<Rightarrow> f s)
      in (r, w\<lparr>w_schema := s', w_statements := Suc (w_statements w)\<rparr>))"

definition andthen :: "'a action \<Rightarrow> ('a \<Rightarrow> 'b action) \<Rightarrow> 'b action" where
  "andthen a f e w = (case a e w of (Inl x, w') \<Rightarrow> (Inl x, w') | (Inr v, w') \<Rightarrow> f v e w')"

definition return_unit :: "unit action" where
  "return_unit e w = (Inr (), w)"

text \<open>\<open>try\<close> with an \<open>except\<close>: the error becomes the value of the action.\<close>

definition attempt :: "'a action \<Rightarrow> (schema_error + 'a) action" where
  "attempt a e w = (case a e w of (r, w') \<Rightarrow> (Inr r, w'))"

definition fail_with :: "schema_error \<Rightarrow> 'a action" where
  "fail_with x e w = (Inl x, w)"

subsection \<open>Adding a column\<close>

definition has_table :: "string \<Rightarrow> schema \<Rightarrow> bool" where
  "has_table t s \<longleftrightarrow> map_of (sc_tables s) t \<noteq> None"

definition has_column :: "string \<Rightarrow> string \<Rightarrow> schema \<Rightarrow> bool" where
  "has_column t c s \<longleftrightarrow> (case map_of (sc_tables s) t of None \<Rightarrow> False | Some cs \<Rightarrow> c \<in> set cs)"

definition column_exists :: "string \<Rightarrow> string \<Rightarrow> bool action" where
  "column_exists t c = statement (\<lambda>s. (if has_table t s then Inr (has_column t c s) else Inl NoSuchTableError, s))"

fun duplicate_column :: "dialect \<Rightarrow> schema_error" where
  "duplicate_column MySQL = DBAPIError (Some 1060) False"
| "duplicate_column SQLite = DBAPIError None True"
| "duplicate_column OtherDialect = DBAPIError None False"

definition alter_table_add :: "dialect \<Rightarrow> string \<Rightarrow> string \<Rightarrow> unit action" where
  "alter_table_add dialect t c = statement (\<lambda>s.
     if \<not> has_table t s then (Inl (DBAPIError None False), s)
     else if has_column t c s then (Inl (duplicate_column dialect), s)
     else (Inr (), s\<lparr>sc_tables := map (\<lambda>(t', cs). (t', if t' = t then cs @ [c] else cs)) (sc_tables s)\<rparr>))"

fun is_duplicate_column_error :: "schema_error \<Rightarrow> dialect \<Rightarrow> bool" where
  "is_duplicate_column_error (DBAPIError code duplicate) MySQL = (code = Some 1060)"
| "is_duplicate_column_error (DBAPIError code duplicate) SQLite = duplicate"
| "is_duplicate_column_error _ _ = False"

definition add_column_if_missing :: "dialect \<Rightarrow> string \<Rightarrow> string \<Rightarrow> unit action" where
  "add_column_if_missing dialect t c = andthen (column_exists t c) (\<lambda>present.
     if present then return_unit
     else andthen (attempt (alter_table_add dialect t c)) (\<lambda>result.
       case result of
         Inr _ \<Rightarrow> return_unit
       | Inl error \<Rightarrow>
           if \<not> is_duplicate_column_error error dialect then fail_with error
           else andthen (column_exists t c) (\<lambda>added. if added then return_unit else fail_with error)))"

text \<open>
  The upgrade is a sequence of such columns and of transactions that change the rows of one table
  (theory Migrations), of which only their success matters here.
\<close>

datatype step = AddColumn string string | UpdateRows string

definition update_rows :: "string \<Rightarrow> unit action" where
  "update_rows t = statement (\<lambda>s. (if has_table t s then Inr () else Inl (DBAPIError None False), s))"

fun run_steps :: "dialect \<Rightarrow> step list \<Rightarrow> unit action" where
  "run_steps dialect [] = return_unit"
| "run_steps dialect (AddColumn t c # cs) = andthen (add_column_if_missing dialect t c) (\<lambda>_. run_steps dialect cs)"
| "run_steps dialect (UpdateRows t # cs) = andthen (update_rows t) (\<lambda>_. run_steps dialect cs)"

subsection \<open>From one reservation per day to one open reservation\<close>

definition RESERVATION_COLUMNS :: "string list" where
  "RESERVATION_COLUMNS =
     [''id'', ''reservation_id'', ''date_str'', ''group_id'', ''target_id'', ''target_name'', ''target_pig_id'',
      ''owner_id'', ''owner_name'', ''owner_pig_id'', ''delivery_bot_id'', ''force_mode'', ''status'',
      ''active_slot'', ''protection_required'', ''protection_source'', ''waiting_notice'',
      ''delivery_gathering_version'', ''force_operator_id'', ''force_operator_name'', ''force_feed_user_ids'',
      ''outcome_snapshot'', ''daily_feed_results'', ''claim_token'', ''created_at'', ''ready_at'', ''claimed_at'',
      ''completed_at'']"

definition old_unique :: string where
  "old_unique = ''uq_roast_reservation_date_group_target''"

definition new_unique :: string where
  "new_unique = ''uq_roast_reservation_active_target''"

definition table_names :: "string list action" where
  "table_names = statement (\<lambda>s. (Inr (map fst (sc_tables s)), s))"

definition unique_constraints :: "string list action" where
  "unique_constraints = statement (\<lambda>s.
     (if has_table ''roast_reservations'' s then Inr (sc_uniques s) else Inl NoSuchTableError, s))"

text \<open>SQLite: one transaction under \<open>BEGIN IMMEDIATE\<close>; copying fails if a column is missing.\<close>

definition rebuild_reservations :: "unit action" where
  "rebuild_reservations = statement (\<lambda>s.
     if old_unique \<notin> set (sc_uniques s) then (Inr (), s)
     else if \<exists>c\<in>set RESERVATION_COLUMNS. \<not> has_column ''roast_reservations'' c s then (Inl (DBAPIError None False), s)
     else (Inr (), \<lparr>sc_tables = map (\<lambda>(t, cs). (t, if t = ''roast_reservations'' then RESERVATION_COLUMNS else cs)) (sc_tables s),
                    sc_uniques = [new_unique]\<rparr>))"

text \<open>MySQL: three statements under a named lock, which is released in any case.\<close>

definition get_lock :: "unit action" where
  "get_lock e w =
     (case statement (\<lambda>s. (Inr (), s)) e w of
        (Inl x, w') \<Rightarrow> (Inl x, w')
      | (Inr _, w') \<Rightarrow> if en_lock e = Some 1 then (Inr (), w'\<lparr>w_locked := True\<rparr>) else (Inl MigrationLockTimeout, w'))"

definition release_lock :: "unit action" where
  "release_lock e w = (case statement (\<lambda>s. (Inr (), s)) e w of (r, w') \<Rightarrow> (r, w'\<lparr>w_locked := False\<rparr>))"

definition add_unique :: "string \<Rightarrow> unit action" where
  "add_unique n = statement (\<lambda>s.
     if \<not> has_table ''roast_reservations'' s \<or> n \<in> set (sc_uniques s) then (Inl (DBAPIError (Some 1061) False), s)
     else (Inr (), s\<lparr>sc_uniques := sc_uniques s @ [n]\<rparr>))"

definition drop_unique :: "string \<Rightarrow> unit action" where
  "drop_unique n = statement (\<lambda>s.
     if \<not> has_table ''roast_reservations'' s \<or> n \<notin> set (sc_uniques s) then (Inl (DBAPIError (Some 1091) False), s)
     else (Inr (), s\<lparr>sc_uniques := filter (\<lambda>m. m \<noteq> n) (sc_uniques s)\<rparr>))"

definition swap_uniques :: "unit action" where
  "swap_uniques = andthen unique_constraints (\<lambda>locked_constraints.
     if old_unique \<notin> set locked_constraints then return_unit
     else andthen (if new_unique \<notin> set locked_constraints then add_unique new_unique else return_unit)
            (\<lambda>_. drop_unique old_unique))"

definition and_finally :: "unit action \<Rightarrow> unit action \<Rightarrow> unit action" where
  "and_finally a b e w = (case a e w of (r, w1) \<Rightarrow> case b e w1 of (Inl x, w2) \<Rightarrow> (Inl x, w2) | (Inr _, w2) \<Rightarrow> (r, w2))"

definition gathering_columns :: "string list \<Rightarrow> step list" where
  "gathering_columns tables =
     (if ''group_protections'' \<in> set tables
      then map (AddColumn ''group_protections'')
        [''source_levels'', ''source_baselines'', ''roast_success_count'', ''base_level'', ''consecutive_days'']
      else []) @
     (if ''roast_reservation_participants'' \<in> set tables
      then [AddColumn ''roast_reservation_participants'' ''contribution''] else []) @
     map (AddColumn ''roast_reservations'')
       [''protection_required'', ''protection_source'', ''waiting_notice'', ''delivery_gathering_version'',
        ''force_operator_id'', ''force_operator_name'', ''force_feed_user_ids'', ''active_slot''] @
     [UpdateRows ''roast_reservations'']"

definition migrate_unique :: "dialect \<Rightarrow> unit action" where
  "migrate_unique dialect = andthen unique_constraints (\<lambda>constraints.
     if old_unique \<notin> set constraints then return_unit
     else case dialect of
            SQLite \<Rightarrow> rebuild_reservations
          | MySQL \<Rightarrow> andthen get_lock (\<lambda>_. and_finally swap_uniques release_lock)
          | OtherDialect \<Rightarrow> fail_with UnsupportedDialect)"

definition migrate_protection_gatherings :: "dialect \<Rightarrow> unit action" where
  "migrate_protection_gatherings dialect = andthen table_names (\<lambda>tables.
     andthen (run_steps dialect (gathering_columns tables)) (\<lambda>_. migrate_unique dialect))"

text \<open>The schema part of \<open>ensure_runtime_migrations\<close>; the rows are in theory Migrations.\<close>

definition upgrade_columns :: "string list \<Rightarrow> step list" where
  "upgrade_columns tables =
     (if ''daily_rolls'' \<in> set tables
      then map (AddColumn ''daily_rolls'')
        [''is_new_pig'', ''previous_copies'', ''copies_after_roll'', ''previous_expert_level'', ''expert_level_after_roll'',
         ''collection_size_after_roll'', ''previous_duplicate_streak'', ''duplicate_streak_after_roll'',
         ''resource_version'', ''appearance_snapshot''] else []) @
     (if ''user_usage'' \<in> set tables
      then map (AddColumn ''user_usage'') [''roast_charges'', ''roast_charge_updated_ts''] @ [UpdateRows ''user_usage''] else []) @
     (if ''user_pig_progress'' \<in> set tables then [AddColumn ''user_pig_progress'' ''growth_bonus''] else []) @
     (if ''roast_events'' \<in> set tables
      then map (AddColumn ''roast_events'') [''reservation_id'', ''participant_snapshot''] else [])"

definition feed_columns :: "step list" where
  "feed_columns = [UpdateRows ''roast_reservations'', AddColumn ''roast_reservations'' ''daily_feed_results'']"

definition reservation_upgrade :: "dialect \<Rightarrow> string list \<Rightarrow> unit action" where
  "reservation_upgrade dialect tables =
     (if ''roast_reservations'' \<notin> set tables then return_unit
      else andthen (run_steps dialect feed_columns) (\<lambda>_. migrate_protection_gatherings dialect))"

definition report_columns :: "string list \<Rightarrow> step list" where
  "report_columns tables =
     (if ''daily_report_deliveries'' \<in> set tables
      then map (AddColumn ''daily_report_deliveries'') [''attempt_count'', ''next_attempt_at''] else [])"

definition backfill_activity :: "bool \<Rightarrow> unit action" where
  "backfill_activity backfill = andthen table_names (\<lambda>tables.
     if backfill \<and> ''group_daily_active_users'' \<in> set tables then update_rows ''group_daily_active_users'' else return_unit)"

definition upgrade_schema :: "dialect \<Rightarrow> bool \<Rightarrow> unit action" where
  "upgrade_schema dialect backfill = andthen table_names (\<lambda>tables.
     andthen (run_steps dialect (upgrade_columns tables)) (\<lambda>_.
     andthen (reservation_upgrade dialect tables) (\<lambda>_.
     andthen (run_steps dialect (report_columns tables)) (\<lambda>_.
     backfill_activity backfill))))"

subsection \<open>What every instance preserves\<close>

text \<open>
  A reservation table is whole when it has the columns of the first version. One of the two
  constraints is always there, and the new one stays. The table's columns outside the model are
  the only thing an upgrade may lose.
\<close>

definition upgrade_targets :: "string list \<Rightarrow> step list" where
  "upgrade_targets tables = upgrade_columns tables @
     (if ''roast_reservations'' \<in> set tables then feed_columns @ gathering_columns tables else []) @ report_columns tables"

definition whole :: "schema \<Rightarrow> bool" where
  "whole s \<longleftrightarrow> (has_table ''roast_reservations'' s \<longrightarrow>
     (\<forall>c\<in>set RESERVATION_COLUMNS. AddColumn ''roast_reservations'' c \<notin> set (upgrade_targets [''roast_reservations'']) \<longrightarrow>
        has_column ''roast_reservations'' c s))"

definition constrained :: "schema \<Rightarrow> bool" where
  "constrained s \<longleftrightarrow> old_unique \<in> set (sc_uniques s) \<or> new_unique \<in> set (sc_uniques s)"

definition needed :: "string \<Rightarrow> string \<Rightarrow> bool" where
  "needed t c \<longleftrightarrow> (t = ''roast_reservations'' \<longrightarrow> c \<in> set RESERVATION_COLUMNS)"

definition preserves :: "schema \<Rightarrow> schema \<Rightarrow> bool" where
  "preserves s s' \<longleftrightarrow>
     (\<forall>t. has_table t s \<longrightarrow> has_table t s') \<and> (\<forall>t c. needed t c \<and> has_column t c s \<longrightarrow> has_column t c s') \<and>
     (old_unique \<notin> set (sc_uniques s) \<longrightarrow> old_unique \<notin> set (sc_uniques s')) \<and>
     (new_unique \<in> set (sc_uniques s) \<longrightarrow> new_unique \<in> set (sc_uniques s')) \<and>
     (whole s \<longrightarrow> whole s') \<and> (constrained s \<longrightarrow> constrained s')"

definition friendly :: "environment \<Rightarrow> bool" where
  "friendly e \<longleftrightarrow> (\<forall>n s. preserves s (en_others e n s))"

text \<open>No statement fails of itself, the lock is granted, and the database is a supported one.\<close>

definition calm :: "dialect \<Rightarrow> environment \<Rightarrow> bool" where
  "calm dialect e \<longleftrightarrow> (\<forall>n. en_failure e n = None) \<and> en_lock e = Some 1 \<and> dialect \<noteq> OtherDialect"

lemma preserves_refl [simp]: "preserves s s"
  by (simp add: preserves_def)

lemma preserves_trans [trans]: "preserves s s1 \<Longrightarrow> preserves s1 s2 \<Longrightarrow> preserves s s2"
  unfolding preserves_def by blast

lemma preserves_table: "preserves s s' \<Longrightarrow> has_table t s \<Longrightarrow> has_table t s'"
  by (simp add: preserves_def)

lemma has_column_table: "has_column t c s \<Longrightarrow> has_table t s"
  by (auto simp: has_column_def has_table_def split: option.splits)

lemma column_cong [simp]:
  "has_table t (s\<lparr>sc_uniques := us\<rparr>) = has_table t s" "has_column t c (s\<lparr>sc_uniques := us\<rparr>) = has_column t c s"
  by (simp_all add: has_table_def has_column_def)

lemma others_act_preserves:
  assumes "friendly e"
  shows "preserves (w_schema w) (others_act e w)"
    and "w_locked w \<Longrightarrow> sc_uniques (others_act e w) = sc_uniques (w_schema w)"
proof -
  have others: "preserves (w_schema w) (en_others e (w_statements w) (w_schema w))"
    using assms by (simp add: friendly_def)
  then show "preserves (w_schema w) (others_act e w)"
    by (simp add: others_act_def Let_def preserves_def whole_def constrained_def)
qed (simp add: others_act_def Let_def)

subsection \<open>A logic for runs among friendly instances\<close>

text \<open>
  From a world with \<open>P\<close> the action preserves the schema and the lock, whatever fails; it ends with
  \<open>Q\<close> if it returns, and it does return if \<open>sure\<close>.
\<close>

fun outcome :: "bool \<Rightarrow> world \<Rightarrow> ('a \<Rightarrow> world \<Rightarrow> bool) \<Rightarrow> (schema_error + 'a) \<times> world \<Rightarrow> bool" where
  "outcome sure w Q (Inl x, w') \<longleftrightarrow> preserves (w_schema w) (w_schema w') \<and> w_locked w' = w_locked w \<and> \<not> sure"
| "outcome sure w Q (Inr v, w') \<longleftrightarrow> preserves (w_schema w) (w_schema w') \<and> w_locked w' = w_locked w \<and> Q v w'"

definition works :: "environment \<Rightarrow> bool \<Rightarrow> (world \<Rightarrow> bool) \<Rightarrow> 'a action \<Rightarrow> ('a \<Rightarrow> world \<Rightarrow> bool) \<Rightarrow> bool" where
  "works e sure P a Q \<longleftrightarrow> (\<forall>w. P w \<longrightarrow> outcome sure w Q (a e w))"

lemma worksI: "(\<And>w. P w \<Longrightarrow> outcome sure w Q (a e w)) \<Longrightarrow> works e sure P a Q"
  by (simp add: works_def)

lemma worksD: "works e sure P a Q \<Longrightarrow> P w \<Longrightarrow> outcome sure w Q (a e w)"
  by (simp add: works_def)

lemma outcome_conseq:
  "outcome sure w Q o1 \<Longrightarrow>
   (\<And>v w'. preserves (w_schema w) (w_schema w') \<Longrightarrow> w_locked w' = w_locked w \<Longrightarrow> Q v w' \<Longrightarrow> Q' v w') \<Longrightarrow> outcome sure w Q' o1"
  by (cases "(sure, w, Q, o1)" rule: outcome.cases) auto

lemma outcome_trans:
  "outcome sure w1 Q o1 \<Longrightarrow> preserves (w_schema w) (w_schema w1) \<Longrightarrow> w_locked w1 = w_locked w \<Longrightarrow> outcome sure w Q o1"
  by (cases "(sure, w1, Q, o1)" rule: outcome.cases) (auto intro: preserves_trans)

lemma works_andthen:
  assumes "works e sure P a Q" and "\<And>v. works e sure (Q v) (f v) R"
  shows "works e sure P (andthen a f) R"
proof (rule worksI)
  fix w :: world assume "P w"
  with assms(1) have a: "outcome sure w Q (a e w)" by (rule worksD)
  obtain r w1 where run: "a e w = (r, w1)" by (metis surj_pair)
  show "outcome sure w R (andthen a f e w)"
  proof (cases r)
    case (Inl x)
    with a run show ?thesis by (simp add: andthen_def)
  next
    case (Inr v)
    with a run have "Q v w1" "preserves (w_schema w) (w_schema w1)" "w_locked w1 = w_locked w" by simp_all
    with worksD [OF assms(2)] have "outcome sure w R (f v e w1)" by (blast intro: outcome_trans)
    with Inr run show ?thesis by (simp add: andthen_def)
  qed
qed

lemma works_statement:
  assumes "friendly e" and "sure \<Longrightarrow> \<forall>n. en_failure e n = None"
    and "\<And>w s r s'. P w \<Longrightarrow> preserves (w_schema w) s \<Longrightarrow> (w_locked w \<Longrightarrow> sc_uniques s = sc_uniques (w_schema w)) \<Longrightarrow>
      f s = (r, s') \<Longrightarrow> preserves s s' \<and>
      (case r of Inl x \<Rightarrow> \<not> sure | Inr v \<Rightarrow> Q v (w\<lparr>w_schema := s', w_statements := Suc (w_statements w)\<rparr>))"
  shows "works e sure P (statement f) Q"
proof (rule worksI)
  fix w :: world assume P: "P w"
  note others = others_act_preserves [OF assms(1), of w]
  obtain r s' where f: "f (others_act e w) = (r, s')" by (metis surj_pair)
  note step = assms(3) [OF P others f]
  show "outcome sure w Q (statement f e w)"
  proof (cases "en_failure e (w_statements w)")
    case None
    have "preserves (w_schema w) s'" using preserves_trans [OF others(1)] step by blast
    with None f step show ?thesis by (cases r) (simp_all add: statement_def Let_def)
  next
    case (Some x)
    with assms(2) others(1) show ?thesis by (auto simp: statement_def Let_def)
  qed
qed

lemma works_attempt:
  assumes "friendly e" and "sure \<Longrightarrow> \<forall>n. en_failure e n = None"
    and "\<And>w s r s'. P w \<Longrightarrow> preserves (w_schema w) s \<Longrightarrow> f s = (r, s') \<Longrightarrow>
      preserves s s' \<and> Q r (w\<lparr>w_schema := s', w_statements := Suc (w_statements w)\<rparr>)"
    and "\<And>w s x. \<not> sure \<Longrightarrow> P w \<Longrightarrow> preserves (w_schema w) s \<Longrightarrow>
      Q (Inl x) (w\<lparr>w_schema := s, w_statements := Suc (w_statements w)\<rparr>)"
  shows "works e sure P (attempt (statement f)) Q"
proof (rule worksI)
  fix w :: world assume P: "P w"
  note others = others_act_preserves(1) [OF assms(1), of w]
  obtain r s' where f: "f (others_act e w) = (r, s')" by (metis surj_pair)
  note step = assms(3) [OF P others f]
  show "outcome sure w Q (attempt (statement f) e w)"
  proof (cases "en_failure e (w_statements w)")
    case None
    have "preserves (w_schema w) s'" using preserves_trans [OF others] step by blast
    with None f step show ?thesis by (simp add: attempt_def statement_def Let_def)
  next
    case (Some x)
    with assms(2) have "\<not> sure" by auto
    with Some assms(4) [OF _ P others] others show ?thesis by (simp add: attempt_def statement_def Let_def)
  qed
qed

lemma works_conseq:
  assumes "works e sure P a Q" and "\<And>w. P' w \<Longrightarrow> P w" and "\<And>v w. Q v w \<Longrightarrow> Q' v w"
  shows "works e sure P' a Q'"
  by (rule worksI, rule outcome_conseq, rule worksD [OF assms(1)]) (use assms(2,3) in auto)

text \<open>Frame: what the preserved schema implies stays true, and so does who holds the lock.\<close>

definition stable :: "(schema \<Rightarrow> bool) \<Rightarrow> bool" where
  "stable F \<longleftrightarrow> (\<forall>s s'. preserves s s' \<longrightarrow> F s \<longrightarrow> F s')"

lemma stableI: "(\<And>s s'. preserves s s' \<Longrightarrow> F s \<Longrightarrow> F s') \<Longrightarrow> stable F"
  by (simp add: stable_def)

lemma stableD: "stable F \<Longrightarrow> preserves s s' \<Longrightarrow> F s \<Longrightarrow> F s'"
  by (auto simp: stable_def)

lemma stable_combine [intro]:
  "stable (\<lambda>s. b)" "stable F \<Longrightarrow> stable (\<lambda>s. b \<longrightarrow> F s)" "stable F \<Longrightarrow> stable G \<Longrightarrow> stable (\<lambda>s. F s \<and> G s)"
  by (auto simp: stable_def)

lemma stable_schema [intro]:
  "stable whole" "stable (has_table t)" "needed t c \<Longrightarrow> stable (has_column t c)"
  "stable (\<lambda>s. old_unique \<notin> set (sc_uniques s))" "stable (\<lambda>s. new_unique \<in> set (sc_uniques s))"
  by (auto simp: stable_def preserves_def)

lemma works_frame:
  assumes "works e sure P a Q" and "stable F"
  shows "works e sure (\<lambda>w. P w \<and> F (w_schema w)) a (\<lambda>v w. Q v w \<and> F (w_schema w))"
  by (rule worksI, rule outcome_conseq, rule worksD [OF assms(1)]) (auto intro: stableD [OF assms(2)])

lemma works_frame_lock:
  assumes "works e sure P a Q"
  shows "works e sure (\<lambda>w. P w \<and> w_locked w = b) a (\<lambda>v w. Q v w \<and> w_locked w = b)"
  by (rule worksI, rule outcome_conseq, rule worksD [OF assms]) auto

lemma works_return: "(\<And>w. P w \<Longrightarrow> Q () w) \<Longrightarrow> works e sure P return_unit Q"
  by (rule worksI) (simp add: return_unit_def)

lemma works_fail: "(\<And>w. P w \<Longrightarrow> \<not> sure) \<Longrightarrow> works e sure P (fail_with x) Q"
  by (rule worksI) (simp add: fail_with_def)

lemma works_if: "(b \<Longrightarrow> works e sure P a Q) \<Longrightarrow> (\<not> b \<Longrightarrow> works e sure P a' Q) \<Longrightarrow> works e sure P (if b then a else a') Q"
  by simp

subsection \<open>Columns\<close>

lemma added_column:
  assumes "has_table t s" and "s' = s\<lparr>sc_tables := map (\<lambda>(t', cs). (t', if t' = t then cs @ [c] else cs)) (sc_tables s)\<rparr>"
  shows "preserves s s'" and "has_column t c s'"
proof -
  have "map_of (map (\<lambda>(t', cs). (t', if t' = t then cs @ [c] else cs)) ts) t' =
      map_option (\<lambda>cs. if t' = t then cs @ [c] else cs) (map_of ts t')" for ts t'
    by (induction ts) auto
  then have tables: "map_of (sc_tables s') t' = map_option (\<lambda>cs. if t' = t then cs @ [c] else cs) (map_of (sc_tables s) t')" for t'
    by (simp add: assms(2))
  then have "has_table t' s' = has_table t' s" "has_column t' c' s \<Longrightarrow> has_column t' c' s'" for t' c'
    by (auto simp: has_table_def has_column_def split: option.splits)
  then show "preserves s s'" by (simp add: preserves_def whole_def constrained_def assms(2))
  show "has_column t c s'" using assms(1) tables by (auto simp: has_table_def has_column_def)
qed

definition setting :: "dialect \<Rightarrow> environment \<Rightarrow> bool \<Rightarrow> bool" where
  "setting dialect e sure \<longleftrightarrow> friendly e \<and> (sure \<longrightarrow> calm dialect e)"

lemma settingD: "setting dialect e sure \<Longrightarrow> friendly e" "setting dialect e sure \<Longrightarrow> sure \<Longrightarrow> \<forall>n. en_failure e n = None"
  by (simp_all add: setting_def calm_def)

lemma works_column_exists:
  assumes "setting dialect e sure"
  shows "works e sure (\<lambda>w. has_table t (w_schema w)) (column_exists t c)
     (\<lambda>b w. has_table t (w_schema w) \<and> b = has_column t c (w_schema w))"
  unfolding column_exists_def
  by (rule works_statement [OF settingD(1,2) [OF assms]]) (auto simp: preserves_def)

lemma works_alter:
  assumes "setting dialect e sure"
  shows "works e sure (\<lambda>w. has_table t (w_schema w)) (attempt (alter_table_add dialect t c))
     (\<lambda>r w. has_table t (w_schema w) \<and> (case r of Inr _ \<Rightarrow> has_column t c (w_schema w)
        | Inl x \<Rightarrow> sure \<longrightarrow> is_duplicate_column_error x dialect \<and> has_column t c (w_schema w)))"
  unfolding alter_table_add_def
proof (rule works_attempt [OF settingD(1,2) [OF assms]])
  fix w :: world and s r s'
  assume t: "has_table t (w_schema w)" "preserves (w_schema w) s"
    and f: "(if \<not> has_table t s then (Inl (DBAPIError None False), s)
        else if has_column t c s then (Inl (duplicate_column dialect), s)
        else (Inr (), s\<lparr>sc_tables := map (\<lambda>(t', cs). (t', if t' = t then cs @ [c] else cs)) (sc_tables s)\<rparr>)) = (r, s')"
  have table: "has_table t s" using t by (simp add: preserves_def)
  have dup: "sure \<Longrightarrow> is_duplicate_column_error (duplicate_column dialect) dialect"
    using assms by (cases dialect) (simp_all add: setting_def calm_def)
  show "preserves s s' \<and> (has_table t (w_schema (w\<lparr>w_schema := s', w_statements := Suc (w_statements w)\<rparr>)) \<and>
      (case r of Inr _ \<Rightarrow> has_column t c (w_schema (w\<lparr>w_schema := s', w_statements := Suc (w_statements w)\<rparr>))
       | Inl x \<Rightarrow> sure \<longrightarrow> is_duplicate_column_error x dialect \<and>
           has_column t c (w_schema (w\<lparr>w_schema := s', w_statements := Suc (w_statements w)\<rparr>))))"
  proof (cases "has_column t c s")
    case True
    with f table dup show ?thesis by auto
  next
    case False
    with f table have "r = Inr ()" "s' = s\<lparr>sc_tables := map (\<lambda>(t', cs). (t', if t' = t then cs @ [c] else cs)) (sc_tables s)\<rparr>"
      by auto
    with added_column [OF table this(2)] show ?thesis by (auto dest: has_column_table)
  qed
qed (auto simp: preserves_def)

lemma works_add_column:
  assumes "setting dialect e sure" and "needed t c"
  shows "works e sure (\<lambda>w. has_table t (w_schema w)) (add_column_if_missing dialect t c) (\<lambda>_ w. has_column t c (w_schema w))"
proof -
  note exists = works_column_exists [OF assms(1), of t c]
  have again: "works e sure (\<lambda>w. has_table t (w_schema w) \<and> (sure \<longrightarrow> has_column t c (w_schema w)))
      (andthen (column_exists t c) (\<lambda>added. if added then return_unit else fail_with error))
      (\<lambda>_ w. has_column t c (w_schema w))" for error
  proof (rule works_andthen)
    show "works e sure (\<lambda>w. has_table t (w_schema w) \<and> (sure \<longrightarrow> has_column t c (w_schema w))) (column_exists t c)
      (\<lambda>b w. (has_table t (w_schema w) \<and> b = has_column t c (w_schema w)) \<and> (sure \<longrightarrow> has_column t c (w_schema w)))"
      by (rule works_frame [OF exists]) (use assms(2) in auto)
  qed (auto intro!: works_if works_return works_fail)
  have handler: "works e sure (\<lambda>w. has_table t (w_schema w) \<and> (case r of Inr _ \<Rightarrow> has_column t c (w_schema w)
        | Inl x \<Rightarrow> sure \<longrightarrow> is_duplicate_column_error x dialect \<and> has_column t c (w_schema w)))
      (case r of Inr _ \<Rightarrow> return_unit
       | Inl error \<Rightarrow> if \<not> is_duplicate_column_error error dialect then fail_with error
           else andthen (column_exists t c) (\<lambda>added. if added then return_unit else fail_with error))
      (\<lambda>_ w. has_column t c (w_schema w))" for r
  proof (cases r)
    case (Inl error)
    then show ?thesis by (auto intro: works_fail works_conseq [OF again])
  qed (auto intro: works_return)
  show ?thesis unfolding add_column_if_missing_def
  proof (rule works_andthen [OF exists], rule works_if)
    fix b :: bool assume "\<not> b"
    show "works e sure (\<lambda>w. has_table t (w_schema w) \<and> b = has_column t c (w_schema w))
      (andthen (attempt (alter_table_add dialect t c)) (\<lambda>result. case result of Inr _ \<Rightarrow> return_unit
         | Inl error \<Rightarrow> if \<not> is_duplicate_column_error error dialect then fail_with error
             else andthen (column_exists t c) (\<lambda>added. if added then return_unit else fail_with error)))
      (\<lambda>_ w. has_column t c (w_schema w))"
      by (rule works_andthen [OF works_conseq [OF works_alter [OF assms(1)]] handler]) auto
  qed (auto intro: works_return)
qed

text \<open>All columns of a list, in tables that exist.\<close>

definition has_tables :: "step list \<Rightarrow> schema \<Rightarrow> bool" where
  "has_tables cs s \<longleftrightarrow> (\<forall>x\<in>set cs. has_table (case x of AddColumn t c \<Rightarrow> t | UpdateRows t \<Rightarrow> t) s)"

definition has_columns :: "step list \<Rightarrow> schema \<Rightarrow> bool" where
  "has_columns cs s \<longleftrightarrow> (\<forall>x\<in>set cs. case x of AddColumn t c \<Rightarrow> has_column t c s | UpdateRows t \<Rightarrow> True)"

definition all_needed :: "step list \<Rightarrow> bool" where
  "all_needed cs \<longleftrightarrow> (\<forall>x\<in>set cs. case x of AddColumn t c \<Rightarrow> needed t c | UpdateRows t \<Rightarrow> True)"

lemma works_update_rows:
  assumes "setting dialect e sure"
  shows "works e sure (\<lambda>w. has_table t (w_schema w)) (update_rows t) (\<lambda>_ w. True)"
  unfolding update_rows_def by (rule works_statement [OF settingD(1,2) [OF assms]]) (auto simp: preserves_def split: if_splits)

lemma column_lists_append [simp]:
  "all_needed (xs @ ys) = (all_needed xs \<and> all_needed ys)"
  "has_tables (xs @ ys) s = (has_tables xs s \<and> has_tables ys s)"
  "has_columns (xs @ ys) s = (has_columns xs s \<and> has_columns ys s)"
  by (auto simp: all_needed_def has_tables_def has_columns_def)

lemma column_lists_Cons [simp]:
  "all_needed (AddColumn t c # xs) = (needed t c \<and> all_needed xs)"
  "all_needed (UpdateRows t # xs) = all_needed xs"
  "has_tables (AddColumn t c # xs) s = (has_table t s \<and> has_tables xs s)"
  "has_tables (UpdateRows t # xs) s = (has_table t s \<and> has_tables xs s)"
  "has_columns (AddColumn t c # xs) s = (has_column t c s \<and> has_columns xs s)"
  "has_columns (UpdateRows t # xs) s = has_columns xs s"
  by (auto simp: all_needed_def has_tables_def has_columns_def)

lemma column_lists_Nil [simp]: "all_needed []" "has_tables [] s" "has_columns [] s"
  by (simp_all add: all_needed_def has_tables_def has_columns_def)

lemma column_lists_table [simp]:
  "all_needed (map (AddColumn t) cs) = (\<forall>c\<in>set cs. needed t c)"
  "has_columns (map (AddColumn t) cs) s = (\<forall>c\<in>set cs. has_column t c s)"
  by (auto simp: all_needed_def has_columns_def)

lemma has_tables_table [intro]: "has_table t s \<Longrightarrow> has_tables (map (AddColumn t) cs) s"
  by (auto simp: has_tables_def)

lemma needed_other [simp]: "t \<noteq> ''roast_reservations'' \<Longrightarrow> needed t c"
  by (simp add: needed_def)

lemma stable_lists [intro]: "stable (has_tables cs)" "all_needed cs \<Longrightarrow> stable (has_columns cs)"
proof -
  show "stable (has_tables cs)" by (rule stableI) (auto simp: has_tables_def dest: preserves_table)
  assume need: "all_needed cs"
  show "stable (has_columns cs)"
  proof (rule stableI)
    fix s s' assume "preserves s s'" "has_columns cs s"
    with need show "has_columns cs s'"
      unfolding has_columns_def all_needed_def by (fastforce simp: preserves_def split: step.splits)
  qed
qed

lemma works_steps:
  assumes "setting dialect e sure"
  shows "all_needed cs \<Longrightarrow> works e sure (\<lambda>w. has_tables cs (w_schema w)) (run_steps dialect cs)
    (\<lambda>_ w. has_columns cs (w_schema w))"
proof (induction cs)
  case Nil
  show ?case by (auto intro: works_return)
next
  case (Cons x cs)
  show ?case
  proof (cases x)
    case (AddColumn t c)
    from Cons.prems have need: "needed t c" "all_needed cs" by (simp_all add: AddColumn)
    note first = works_frame [OF works_add_column [OF assms need(1)] stable_lists(1) [of cs]]
    note rest = works_frame [OF Cons.IH [OF need(2)] stable_schema(3) [OF need(1)]]
    show ?thesis unfolding AddColumn run_steps.simps
      by (rule works_conseq [OF works_andthen [OF first works_conseq [OF rest]]]) auto
  next
    case (UpdateRows t)
    from Cons.prems have need: "all_needed cs" by (simp add: UpdateRows)
    note first = works_frame [OF works_update_rows [OF assms] stable_lists(1) [of cs]]
    show ?thesis unfolding UpdateRows run_steps.simps
      by (rule works_conseq [OF works_andthen [OF first works_conseq [OF Cons.IH [OF need]]]]) auto
  qed
qed

subsection \<open>Constraints\<close>

lemma unique_names [simp]: "old_unique \<noteq> new_unique" "new_unique \<noteq> old_unique"
  by (simp_all add: old_unique_def new_unique_def)

abbreviation reservations_table :: "schema \<Rightarrow> bool" where
  "reservations_table \<equiv> has_table ''roast_reservations''"

lemma works_read_uniques:
  assumes "setting dialect e sure"
  shows "works e sure (\<lambda>w. reservations_table (w_schema w)) unique_constraints (\<lambda>us w. us = sc_uniques (w_schema w))"
  unfolding unique_constraints_def
  by (rule works_statement [OF settingD(1,2) [OF assms]]) (auto simp: preserves_def split: if_splits)

lemma preserves_uniques:
  "(old_unique \<notin> set (sc_uniques s) \<Longrightarrow> old_unique \<notin> set us) \<Longrightarrow> (new_unique \<in> set (sc_uniques s) \<Longrightarrow> new_unique \<in> set us) \<Longrightarrow>
   (constrained s \<Longrightarrow> old_unique \<in> set us \<or> new_unique \<in> set us) \<Longrightarrow> preserves s (s\<lparr>sc_uniques := us\<rparr>)"
  by (simp add: preserves_def whole_def constrained_def)

lemma works_swap:
  assumes "setting dialect e sure"
  shows "works e sure (\<lambda>w. w_locked w \<and> reservations_table (w_schema w)) swap_uniques
    (\<lambda>_ w. old_unique \<notin> set (sc_uniques (w_schema w)))"
proof -
  note rule = works_statement [OF settingD(1,2) [OF assms]]
  define P where "P w \<longleftrightarrow> w_locked w \<and> reservations_table (w_schema w) \<and> old_unique \<in> set (sc_uniques (w_schema w))" for w :: world
  have read: "works e sure (\<lambda>w. w_locked w \<and> reservations_table (w_schema w)) unique_constraints
      (\<lambda>us w. us = sc_uniques (w_schema w) \<and> w_locked w \<and> reservations_table (w_schema w))"
    by (rule works_conseq [OF works_frame_lock [OF works_frame [OF works_read_uniques [OF assms] stable_schema(2)],
          where b=True]]) auto
  have add: "works e sure (\<lambda>w. P w \<and> new_unique \<notin> set (sc_uniques (w_schema w)))
      (add_unique new_unique) (\<lambda>_ w. P w \<and> new_unique \<in> set (sc_uniques (w_schema w)))"
    unfolding add_unique_def P_def
    by (rule rule) (auto intro!: preserves_uniques dest: preserves_table split: if_splits)
  have "works e sure (\<lambda>w. P w \<and> new_unique \<in> set (sc_uniques (w_schema w)))
      (drop_unique old_unique) (\<lambda>_ w. old_unique \<notin> set (sc_uniques (w_schema w)))"
    unfolding drop_unique_def P_def
    by (rule rule) (auto intro!: preserves_uniques dest: preserves_table split: if_splits)
  then have drop: "works e sure (\<lambda>w. P w \<and> new_unique \<in> set (sc_uniques (w_schema w)))
      ((\<lambda>_. drop_unique old_unique) u) (\<lambda>_ w. old_unique \<notin> set (sc_uniques (w_schema w)))" for u :: unit
    by simp
  have body: "works e sure (\<lambda>w. us = sc_uniques (w_schema w) \<and> w_locked w \<and> reservations_table (w_schema w))
      (if old_unique \<notin> set us then return_unit
       else andthen (if new_unique \<notin> set us then add_unique new_unique else return_unit) (\<lambda>_. drop_unique old_unique))
      (\<lambda>_ w. old_unique \<notin> set (sc_uniques (w_schema w)))" for us
  proof (rule works_if)
    assume "\<not> old_unique \<notin> set us"
    then have "works e sure (\<lambda>w. us = sc_uniques (w_schema w) \<and> w_locked w \<and> reservations_table (w_schema w))
        (if new_unique \<notin> set us then add_unique new_unique else return_unit)
        (\<lambda>_ w. P w \<and> new_unique \<in> set (sc_uniques (w_schema w)))"
      by (auto intro!: works_if works_return works_conseq [OF add] simp: P_def)
    then show "works e sure (\<lambda>w. us = sc_uniques (w_schema w) \<and> w_locked w \<and> reservations_table (w_schema w))
        (andthen (if new_unique \<notin> set us then add_unique new_unique else return_unit) (\<lambda>_. drop_unique old_unique))
        (\<lambda>_ w. old_unique \<notin> set (sc_uniques (w_schema w)))"
      by (rule works_andthen) (rule drop)
  qed (auto intro: works_return)
  show ?thesis unfolding swap_uniques_def by (rule works_andthen [OF read body])
qed

text \<open>The lock is given back on every path, also when a statement under it fails.\<close>

lemma works_skip:
  assumes "setting dialect e sure"
  shows "works e sure (\<lambda>w. True) (statement (\<lambda>s. (Inr (), s))) (\<lambda>_ w. True)"
  by (rule works_statement [OF settingD(1,2) [OF assms]]) auto

lemma release_outcome:
  assumes "setting dialect e sure" and "outcome sure (w\<lparr>w_locked := True\<rparr>) Q (a e (w\<lparr>w_locked := True\<rparr>))"
    and "\<And>v x y. preserves (w_schema x) (w_schema y) \<Longrightarrow> Q v x \<Longrightarrow> Q v y" and "\<not> w_locked w"
  shows "outcome sure w Q (and_finally a release_lock e (w\<lparr>w_locked := True\<rparr>))"
proof -
  obtain r1 w1 where a: "a e (w\<lparr>w_locked := True\<rparr>) = (r1, w1)" by (metis surj_pair)
  obtain r2 w2 where b: "statement (\<lambda>s. (Inr (), s)) e w1 = (r2, w2)" by (metis surj_pair)
  have first: "preserves (w_schema w) (w_schema w1)" using assms(2) a by (cases r1) simp_all
  have rel: "outcome sure w1 (\<lambda>_ w. True) (r2, w2)" using worksD [OF works_skip [OF assms(1)], of w1] b by simp
  then have kept: "preserves (w_schema w1) (w_schema w2)" by (cases r2) simp_all
  from first kept have all: "preserves (w_schema w) (w_schema w2)" by (rule preserves_trans)
  show ?thesis
    using assms(2) assms(3) [of w1 "w2\<lparr>w_locked := False\<rparr>"] a b rel kept all assms(4)
    by (cases r1; cases r2) (auto simp: and_finally_def release_lock_def)
qed

lemma works_lock_swap:
  assumes "setting dialect e sure"
  shows "works e sure (\<lambda>w. \<not> w_locked w \<and> reservations_table (w_schema w)) (andthen get_lock (\<lambda>_. and_finally swap_uniques release_lock))
    (\<lambda>_ w. old_unique \<notin> set (sc_uniques (w_schema w)))"
proof (rule worksI)
  fix w :: world assume start: "\<not> w_locked w \<and> reservations_table (w_schema w)"
  then have unlocked: "\<not> w_locked w" by simp
  let ?Q = "\<lambda>(_::unit) w. old_unique \<notin> set (sc_uniques (w_schema w))"
  let ?run = "andthen get_lock (\<lambda>_. and_finally swap_uniques release_lock) e w"
  obtain r1 w1 where skip: "(statement (\<lambda>s. (Inr (), s)) :: unit action) e w = (r1, w1)" by (metis surj_pair)
  have w1: "outcome sure w (\<lambda>_ w. True) (r1, w1)" using worksD [OF works_skip [OF assms], of w] skip by simp
  then have kept: "preserves (w_schema w) (w_schema w1)" "w_locked w1 = w_locked w" by (cases r1; simp)+
  have "outcome sure (w1\<lparr>w_locked := True\<rparr>) ?Q (swap_uniques e (w1\<lparr>w_locked := True\<rparr>))"
    by (rule worksD [OF works_swap [OF assms]]) (use start kept in \<open>simp add: preserves_def\<close>)
  then have "outcome sure w1 ?Q (and_finally swap_uniques release_lock e (w1\<lparr>w_locked := True\<rparr>))"
    by (rule release_outcome [OF assms]) (use kept unlocked in \<open>auto simp: preserves_def\<close>)
  then have body: "outcome sure w ?Q (and_finally swap_uniques release_lock e (w1\<lparr>w_locked := True\<rparr>))"
    using kept by (rule outcome_trans)
  have lock: "sure \<Longrightarrow> en_lock e = Some 1" using assms by (simp add: setting_def calm_def)
  show "outcome sure w ?Q ?run"
    using skip w1 body lock kept by (cases r1) (auto simp: andthen_def get_lock_def)
qed

lemma rebuilt_tables:
  assumes "\<forall>c\<in>set RESERVATION_COLUMNS. has_column ''roast_reservations'' c s"
    and "s' = \<lparr>sc_tables = map (\<lambda>(t, cs). (t, if t = ''roast_reservations'' then RESERVATION_COLUMNS else cs)) (sc_tables s),
               sc_uniques = [new_unique]\<rparr>"
  shows "preserves s s'"
proof -
  have "map_of (map (\<lambda>(t, cs). (t, if t = ''roast_reservations'' then RESERVATION_COLUMNS else cs)) ts) t =
      map_option (\<lambda>cs. if t = ''roast_reservations'' then RESERVATION_COLUMNS else cs) (map_of ts t)" for ts t
    by (induction ts) auto
  then have tables: "map_of (sc_tables s') t =
      map_option (\<lambda>cs. if t = ''roast_reservations'' then RESERVATION_COLUMNS else cs) (map_of (sc_tables s) t)" for t
    by (simp add: assms(2))
  have table: "has_table t s' = has_table t s" for t by (simp add: has_table_def tables)
  have column: "has_column t c s \<Longrightarrow> needed t c \<Longrightarrow> has_column t c s'" for t c
    by (auto simp: has_column_def needed_def tables split: option.splits)
  have "whole s'" using assms(1) column unfolding whole_def needed_def by simp
  with table column show ?thesis by (simp add: preserves_def constrained_def assms(2))
qed

text \<open>What the constraint step needs: a table with all the columns of the model.\<close>

definition complete_table :: "schema \<Rightarrow> bool" where
  "complete_table s \<longleftrightarrow> (\<forall>c\<in>set RESERVATION_COLUMNS. has_column ''roast_reservations'' c s)"

lemma complete_table_stable [intro]: "stable complete_table"
  by (simp add: stable_def preserves_def complete_table_def needed_def)

lemma works_rebuild:
  assumes "setting dialect e sure"
  shows "works e sure (\<lambda>w. sure \<longrightarrow> complete_table (w_schema w)) rebuild_reservations
    (\<lambda>_ w. old_unique \<notin> set (sc_uniques (w_schema w)))"
  unfolding rebuild_reservations_def
proof (rule works_statement [OF settingD(1,2) [OF assms]])
  fix w :: world and s r s'
  assume sure: "sure \<longrightarrow> complete_table (w_schema w)" and s: "preserves (w_schema w) s"
    and f: "(if old_unique \<notin> set (sc_uniques s) then (Inr (), s)
     else if \<exists>c\<in>set RESERVATION_COLUMNS. \<not> has_column ''roast_reservations'' c s then (Inl (DBAPIError None False), s)
     else (Inr (), \<lparr>sc_tables = map (\<lambda>(t, cs). (t, if t = ''roast_reservations'' then RESERVATION_COLUMNS else cs)) (sc_tables s),
                    sc_uniques = [new_unique]\<rparr>)) = (r, s')"
  have "sure \<Longrightarrow> complete_table s" using sure stableD [OF complete_table_stable s] by blast
  then have missing: "\<exists>c\<in>set RESERVATION_COLUMNS. \<not> has_column ''roast_reservations'' c s \<Longrightarrow> \<not> sure"
    by (auto simp: complete_table_def)
  show "preserves s s' \<and> (case r of Inl x \<Rightarrow> \<not> sure
      | Inr v \<Rightarrow> old_unique \<notin> set (sc_uniques (w_schema (w\<lparr>w_schema := s', w_statements := Suc (w_statements w)\<rparr>))))"
  proof (cases "old_unique \<notin> set (sc_uniques s) \<or> (\<exists>c\<in>set RESERVATION_COLUMNS. \<not> has_column ''roast_reservations'' c s)")
    case True
    with f missing show ?thesis by (auto split: if_splits)
  next
    case False
    define new where "new = \<lparr>sc_tables = map (\<lambda>(t, cs). (t, if t = ''roast_reservations'' then RESERVATION_COLUMNS else cs)) (sc_tables s),
                    sc_uniques = [new_unique]\<rparr>"
    have "preserves s new" using False by (intro rebuilt_tables) (simp_all add: new_def)
    moreover have "r = Inr ()" "s' = new" using f False by (simp_all add: new_def)
    moreover have "old_unique \<notin> set (sc_uniques new)" by (simp add: new_def)
    ultimately show ?thesis by simp
  qed
qed

lemma works_migrate_unique:
  assumes "setting dialect e sure"
  shows "works e sure (\<lambda>w. (reservations_table (w_schema w) \<and> (sure \<longrightarrow> complete_table (w_schema w))) \<and> \<not> w_locked w)
    (migrate_unique dialect) (\<lambda>_ w. old_unique \<notin> set (sc_uniques (w_schema w)))"
proof -
  let ?F = "\<lambda>s. reservations_table s \<and> (sure \<longrightarrow> complete_table s)"
  have kept: "stable ?F" by (intro stable_combine stable_schema complete_table_stable)
  have read: "works e sure (\<lambda>w. ?F (w_schema w) \<and> \<not> w_locked w) unique_constraints
      (\<lambda>us w. (us = sc_uniques (w_schema w) \<and> ?F (w_schema w)) \<and> \<not> w_locked w)"
    by (rule works_conseq [OF works_frame_lock [OF works_frame [OF works_read_uniques [OF assms] kept], where b=False]]) auto
  show ?thesis unfolding migrate_unique_def
  proof (rule works_andthen [OF read], rule works_if)
    fix us :: "string list"
    let ?P = "\<lambda>w. (us = sc_uniques (w_schema w) \<and> ?F (w_schema w)) \<and> \<not> w_locked w"
    show "works e sure ?P (case dialect of SQLite \<Rightarrow> rebuild_reservations
        | MySQL \<Rightarrow> andthen get_lock (\<lambda>_. and_finally swap_uniques release_lock)
        | OtherDialect \<Rightarrow> fail_with UnsupportedDialect)
      (\<lambda>_ w. old_unique \<notin> set (sc_uniques (w_schema w)))"
    proof (cases dialect)
      case MySQL
      then show ?thesis by (auto intro: works_conseq [OF works_lock_swap [OF assms]])
    next
      case SQLite
      then show ?thesis by (auto intro: works_conseq [OF works_rebuild [OF assms]])
    next
      case OtherDialect
      with assms have "\<not> sure" by (auto simp: setting_def calm_def)
      with OtherDialect show ?thesis by (auto intro: works_fail)
    qed
  qed (auto intro: works_return)
qed

subsection \<open>The whole upgrade\<close>

lemma works_table_names:
  assumes "setting dialect e sure"
  shows "works e sure (\<lambda>w. True) table_names (\<lambda>ts w. \<forall>t. t \<in> set ts \<longleftrightarrow> has_table t (w_schema w))"
  unfolding table_names_def
  by (rule works_statement [OF settingD(1,2) [OF assms]])
     (auto simp: has_table_def map_of_eq_None_iff dest: map_of_SomeD)

lemma gathering_needed: "all_needed (gathering_columns ts)"
  by (simp add: gathering_columns_def) (simp add: needed_def RESERVATION_COLUMNS_def)

lemma report_needed: "all_needed (report_columns ts)"
  by (simp add: report_columns_def)

lemma upgrade_needed: "all_needed (upgrade_columns ts)"
  by (simp add: upgrade_columns_def)

lemma feed_needed: "all_needed feed_columns"
  by (simp add: feed_columns_def needed_def RESERVATION_COLUMNS_def)

lemma has_columns_if: "has_columns (if b then xs else []) s \<longleftrightarrow> (b \<longrightarrow> has_columns xs s)"
  by simp

lemma gathering_tables:
  assumes "has_table ''roast_reservations'' s" and "\<And>t. t \<in> set ts \<Longrightarrow> has_table t s"
  shows "has_tables (gathering_columns ts) s"
  using assms unfolding gathering_columns_def column_lists_append by (auto simp del: list.map)

lemma gathering_mono:
  assumes "set ts \<subseteq> set ts'" and "has_columns (gathering_columns ts') s"
  shows "has_columns (gathering_columns ts) s"
  using assms unfolding gathering_columns_def column_lists_append(3) has_columns_if by blast

lemma upgraded_complete:
  assumes "whole s" and "reservations_table s" and "has_columns feed_columns s" and "has_columns (gathering_columns ts) s"
  shows "complete_table s"
  unfolding complete_table_def
proof
  fix c assume c: "c \<in> set RESERVATION_COLUMNS"
  show "has_column ''roast_reservations'' c s"
  proof (cases "AddColumn ''roast_reservations'' c \<in> set (upgrade_targets [''roast_reservations''])")
    case True
    with assms(3,4) show ?thesis
      by (auto simp: upgrade_targets_def upgrade_columns_def gathering_columns_def report_columns_def feed_columns_def)
  next
    case False
    with assms(1,2) c show ?thesis by (simp add: whole_def)
  qed
qed

text \<open>What is known of the schema throughout: the tables seen so far, and the columns of the first version.\<close>

definition known :: "bool \<Rightarrow> string list \<Rightarrow> schema \<Rightarrow> bool" where
  "known sure ts s \<longleftrightarrow> (sure \<longrightarrow> whole s) \<and> (\<forall>t\<in>set ts. has_table t s)"

lemma known_stable [intro]: "stable (known sure ts)"
  by (simp add: stable_def known_def preserves_def)

lemma works_gatherings:
  assumes "setting dialect e sure" and "''roast_reservations'' \<in> set ts"
  shows "works e sure (\<lambda>w. has_columns feed_columns (w_schema w) \<and> known sure ts (w_schema w) \<and> \<not> w_locked w)
    (migrate_protection_gatherings dialect)
    (\<lambda>_ w. has_columns (gathering_columns ts) (w_schema w) \<and> old_unique \<notin> set (sc_uniques (w_schema w)))"
proof -
  define F where "F = (\<lambda>s. has_columns feed_columns s \<and> known sure ts s)"
  have F: "stable F" unfolding F_def by (intro stable_combine stable_lists known_stable feed_needed)
  have table: "F s \<Longrightarrow> reservations_table s" for s using assms(2) by (auto simp: F_def known_def)
  have subset: "F s \<Longrightarrow> \<forall>t. (t \<in> set ts') = has_table t s \<Longrightarrow> set ts \<subseteq> set ts'" for s ts' by (auto simp: F_def known_def)
  have finished: "F s \<Longrightarrow> set ts \<subseteq> set ts' \<Longrightarrow> has_columns (gathering_columns ts') s \<Longrightarrow> sure \<Longrightarrow> complete_table s" for s ts'
    using table by (auto simp: F_def known_def intro: upgraded_complete)
  have names: "works e sure (\<lambda>w. F (w_schema w) \<and> \<not> w_locked w) table_names
      (\<lambda>ts' w. has_tables (gathering_columns ts') (w_schema w) \<and> (F (w_schema w) \<and> set ts \<subseteq> set ts') \<and> \<not> w_locked w)"
    by (rule works_conseq [OF works_frame_lock [OF works_frame [OF works_table_names [OF assms(1)] F], where b=False]])
       (use table subset in \<open>auto intro: gathering_tables\<close>)
  have columns: "works e sure (\<lambda>w. has_tables (gathering_columns ts') (w_schema w) \<and> (F (w_schema w) \<and> set ts \<subseteq> set ts') \<and> \<not> w_locked w)
      (run_steps dialect (gathering_columns ts'))
      (\<lambda>_ w. (has_columns (gathering_columns ts) (w_schema w) \<and> reservations_table (w_schema w) \<and> (sure \<longrightarrow> complete_table (w_schema w))) \<and> \<not> w_locked w)" for ts'
    by (rule works_conseq [OF works_frame_lock [OF works_frame [OF works_steps [OF assms(1) gathering_needed],
          where F="\<lambda>s. F s \<and> set ts \<subseteq> set ts'"], where b=False]])
       (use F finished table in \<open>auto intro: gathering_mono\<close>)
  have unique: "works e sure (\<lambda>w. (has_columns (gathering_columns ts) (w_schema w) \<and> reservations_table (w_schema w) \<and> (sure \<longrightarrow> complete_table (w_schema w))) \<and> \<not> w_locked w)
      (migrate_unique dialect)
      (\<lambda>_ w. has_columns (gathering_columns ts) (w_schema w) \<and> old_unique \<notin> set (sc_uniques (w_schema w)))"
    by (rule works_conseq [OF works_frame [OF works_migrate_unique [OF assms(1)] stable_lists(2) [OF gathering_needed]]]) auto
  show ?thesis unfolding migrate_protection_gatherings_def
    by (rule works_conseq [OF works_andthen [OF names works_andthen [OF columns unique]]]) (auto simp: F_def)
qed


definition reservations_upgraded :: "string list \<Rightarrow> schema \<Rightarrow> bool" where
  "reservations_upgraded ts s \<longleftrightarrow> (''roast_reservations'' \<in> set ts \<longrightarrow>
     has_columns feed_columns s \<and> has_columns (gathering_columns ts) s \<and> old_unique \<notin> set (sc_uniques s))"

lemma works_reservation_upgrade:
  assumes "setting dialect e sure"
  shows "works e sure (\<lambda>w. known sure ts (w_schema w) \<and> \<not> w_locked w) (reservation_upgrade dialect ts)
    (\<lambda>_ w. reservations_upgraded ts (w_schema w))"
proof (cases "''roast_reservations'' \<in> set ts")
  case False
  then show ?thesis unfolding reservation_upgrade_def reservations_upgraded_def by (auto intro: works_return)
next
  case True
  let ?fed = "has_columns feed_columns"
  have tables: "known sure ts s \<Longrightarrow> has_tables feed_columns s" for s using True by (simp add: known_def feed_columns_def)
  have fed: "works e sure (\<lambda>w. known sure ts (w_schema w) \<and> \<not> w_locked w) (run_steps dialect feed_columns)
      (\<lambda>_ w. (?fed (w_schema w) \<and> known sure ts (w_schema w) \<and> \<not> w_locked w) \<and> ?fed (w_schema w))"
    by (rule works_conseq [OF works_frame_lock [OF works_frame [OF works_steps [OF assms feed_needed] known_stable],
          where b=False]])
       (use tables in auto)
  have "works e sure (\<lambda>w. (?fed (w_schema w) \<and> known sure ts (w_schema w) \<and> \<not> w_locked w) \<and> ?fed (w_schema w))
      (migrate_protection_gatherings dialect) (\<lambda>_ w. reservations_upgraded ts (w_schema w))"
    by (rule works_conseq [OF works_frame [OF works_gatherings [OF assms True] stable_lists(2) [OF feed_needed]]])
       (auto simp: reservations_upgraded_def)
  with True show ?thesis unfolding reservation_upgrade_def by (auto intro: works_andthen [OF fed])
qed

lemma stable_reservations_upgraded: "stable (reservations_upgraded ts)"
  unfolding reservations_upgraded_def by (intro stable_combine stable_lists stable_schema feed_needed gathering_needed)

lemma works_backfill:
  assumes "setting dialect e sure"
  shows "works e sure (\<lambda>w. True) (backfill_activity backfill) (\<lambda>_ w. True)"
  unfolding backfill_activity_def
  by (rule works_andthen [OF works_table_names [OF assms]])
     (auto intro: works_return works_conseq [OF works_update_rows [OF assms]])

lemma known_tables:
  "known sure ts s \<Longrightarrow> has_tables (upgrade_columns ts) s" "known sure ts s \<Longrightarrow> has_tables (report_columns ts) s"
  by (auto simp: known_def upgrade_columns_def report_columns_def simp del: list.map)

lemma upgrade_targets_reached:
  assumes "set ts \<subseteq> set ts'" and "has_columns (upgrade_columns ts') s" and "reservations_upgraded ts' s"
    and "has_columns (report_columns ts') s"
  shows "has_columns (upgrade_targets ts) s"
proof -
  have "has_columns (upgrade_columns ts) s"
    using assms(1,2) unfolding upgrade_columns_def column_lists_append(3) has_columns_if by blast
  moreover have "has_columns (report_columns ts) s" using assms(1,4) by (auto simp: report_columns_def)
  ultimately show ?thesis
    using assms(1,3) gathering_mono by (auto simp: upgrade_targets_def reservations_upgraded_def)
qed

lemma works_upgrade:
  assumes "setting dialect e sure"
  shows "works e sure (\<lambda>w. known sure ts (w_schema w) \<and> \<not> w_locked w) (upgrade_schema dialect backfill)
    (\<lambda>_ w. has_columns (upgrade_targets ts) (w_schema w) \<and>
       (''roast_reservations'' \<in> set ts \<longrightarrow> old_unique \<notin> set (sc_uniques (w_schema w))))"
    (is "works e sure ?P _ (\<lambda>_ w. ?G (w_schema w))")
proof -
  have "all_needed (upgrade_targets ts)"
    by (simp add: upgrade_targets_def upgrade_needed feed_needed gathering_needed report_needed)
  then have goal: "stable ?G" by (intro stable_combine stable_lists stable_schema)
  let ?K = "\<lambda>ts' s. known sure ts' s \<and> set ts \<subseteq> set ts'"
  have kept: "stable (\<lambda>s. has_columns (upgrade_columns ts') s \<and> ?K ts' s)" for ts'
    by (rule stable_combine(3) [OF stable_lists(2) [OF upgrade_needed] stable_combine(3) [OF known_stable stable_combine(1)]])
  have names: "works e sure ?P table_names (\<lambda>ts' w. ?K ts' (w_schema w) \<and> \<not> w_locked w)"
    by (rule works_conseq [OF works_frame_lock [OF works_frame [OF works_table_names [OF assms] known_stable], where b=False]])
       (auto simp: known_def)
  have columns: "works e sure (\<lambda>w. ?K ts' (w_schema w) \<and> \<not> w_locked w) (run_steps dialect (upgrade_columns ts'))
      (\<lambda>_ w. (known sure ts' (w_schema w) \<and> \<not> w_locked w) \<and> has_columns (upgrade_columns ts') (w_schema w) \<and> ?K ts' (w_schema w))" for ts'
    by (rule works_conseq [OF works_frame_lock [OF works_frame [OF works_steps [OF assms upgrade_needed],
          where F="?K ts'"], where b=False]])
       (auto intro: known_tables)
  have reservations: "works e sure (\<lambda>w. (known sure ts' (w_schema w) \<and> \<not> w_locked w) \<and>
        has_columns (upgrade_columns ts') (w_schema w) \<and> ?K ts' (w_schema w)) (reservation_upgrade dialect ts')
      (\<lambda>_ w. has_tables (report_columns ts') (w_schema w) \<and>
        reservations_upgraded ts' (w_schema w) \<and> has_columns (upgrade_columns ts') (w_schema w) \<and> ?K ts' (w_schema w))" for ts'
    by (rule works_conseq [OF works_frame [OF works_reservation_upgrade [OF assms] kept]])
       (auto intro: known_tables)
  have reports: "works e sure (\<lambda>w. has_tables (report_columns ts') (w_schema w) \<and>
        reservations_upgraded ts' (w_schema w) \<and> has_columns (upgrade_columns ts') (w_schema w) \<and> ?K ts' (w_schema w))
      (run_steps dialect (report_columns ts')) (\<lambda>_ w. True \<and> ?G (w_schema w))" for ts'
    by (rule works_conseq [OF works_frame [OF works_steps [OF assms report_needed]
          stable_combine(3) [OF stable_reservations_upgraded kept]]])
       (auto intro: upgrade_targets_reached simp: reservations_upgraded_def)
  have backfill: "works e sure (\<lambda>w. True \<and> ?G (w_schema w)) (backfill_activity backfill) (\<lambda>_ w. ?G (w_schema w))"
    by (rule works_conseq [OF works_frame [OF works_backfill [OF assms] goal]]) auto
  show ?thesis unfolding upgrade_schema_def
    by (rule works_andthen [OF names works_andthen [OF columns works_andthen [OF reservations works_andthen [OF reports backfill]]]])
qed

text \<open>
  Bringing an old database up to date is safe beside other instances that do the same, and
  gets through. Whatever the others do, and whatever statement fails, a run of the upgrade loses no
  table and no column the program uses, never leaves the reservations without both unique
  constraints and gives its lock back. If no statement fails of itself and the lock is granted, a
  run on a database with the columns of the first version ends without an error, every column that a
  newer version needs is there, and the constraint of one reservation per day has been replaced
  by that of one open reservation.
\<close>

theorem schema_upgrade_completes:
  assumes "friendly e" and "\<not> w_locked w" and "\<forall>t\<in>set ts. has_table t (w_schema w)"
    and "upgrade_schema dialect backfill e w = (r, w')"
  shows "\<not> w_locked w' \<and> preserves (w_schema w) (w_schema w') \<and>
    (calm dialect e \<and> whole (w_schema w) \<longrightarrow>
       r = Inr () \<and> has_columns (upgrade_targets ts) (w_schema w') \<and>
       (''roast_reservations'' \<in> set ts \<and> constrained (w_schema w) \<longrightarrow>
          old_unique \<notin> set (sc_uniques (w_schema w')) \<and> new_unique \<in> set (sc_uniques (w_schema w'))))"
proof -
  define sure where "sure \<longleftrightarrow> calm dialect e \<and> whole (w_schema w)"
  have "setting dialect e sure" using assms(1) by (simp add: setting_def sure_def)
  from worksD [OF works_upgrade [OF this]] assms(2,3)
  have "outcome sure w (\<lambda>_ w. has_columns (upgrade_targets ts) (w_schema w) \<and>
      (''roast_reservations'' \<in> set ts \<longrightarrow> old_unique \<notin> set (sc_uniques (w_schema w)))) (upgrade_schema dialect backfill e w)"
    by (simp add: known_def sure_def)
  with assms(2) show ?thesis unfolding assms(4) sure_def [symmetric]
    by (cases r) (auto simp: preserves_def constrained_def)
qed

theorem schema_upgrade_completes_witness:
  "\<exists>e w w'. upgrade_schema MySQL True e w = (Inr (), w') \<and> \<not> has_column ''roast_reservations'' ''active_slot'' (w_schema w) \<and>
     has_column ''roast_reservations'' ''active_slot'' (w_schema w') \<and>
     sc_uniques (w_schema w) = [old_unique] \<and> old_unique \<notin> set (sc_uniques (w_schema w'))"
proof -
  define e where "e = \<lparr>en_others = \<lambda>n s. s, en_failure = \<lambda>n. None, en_lock = Some 1\<rparr>"
  define cs where "cs = filter (\<lambda>c. AddColumn ''roast_reservations'' c \<notin> set (upgrade_targets [''roast_reservations''])) RESERVATION_COLUMNS"
  define w where "w = \<lparr>w_schema = \<lparr>sc_tables = [(''roast_reservations'', cs)], sc_uniques = [old_unique]\<rparr>,
    w_statements = 0, w_locked = False\<rparr>"
  have slot: "AddColumn ''roast_reservations'' ''active_slot'' \<in> set (upgrade_targets [''roast_reservations''])"
    by (simp add: upgrade_targets_def gathering_columns_def)
  obtain r w' where run: "upgrade_schema MySQL True e w = (r, w')" by (metis surj_pair)
  have "friendly e" "calm MySQL e" "\<not> w_locked w" by (simp_all add: friendly_def calm_def e_def w_def)
  moreover have "whole (w_schema w)" by (simp add: w_def whole_def has_column_def cs_def)
  moreover have "\<forall>t\<in>set [''roast_reservations'']. has_table t (w_schema w)" by (simp add: w_def has_table_def)
  moreover have "constrained (w_schema w)" by (simp add: w_def constrained_def)
  ultimately have done': "r = Inr ()" "has_columns (upgrade_targets [''roast_reservations'']) (w_schema w')"
      "old_unique \<notin> set (sc_uniques (w_schema w'))"
    using schema_upgrade_completes [OF _ _ _ run, of "[''roast_reservations'']"] by simp_all
  have "has_column ''roast_reservations'' ''active_slot'' (w_schema w')"
    using done'(2) slot by (auto simp: has_columns_def)
  moreover have "\<not> has_column ''roast_reservations'' ''active_slot'' (w_schema w)"
    using slot by (simp add: w_def has_column_def cs_def)
  ultimately show ?thesis using run done'(1,3) by (intro exI [of _ e] exI [of _ w] exI [of _ w']) (simp add: w_def)
qed

end
