(* ===== verification/LegacyImport.thy ===== *)
theory LegacyImport
  imports Events
begin

section \<open>The import of the old data file (\<^verbatim>\<open>tools/import_legacy_json.py\<close>)\<close>

text \<open>
  The tool runs in one session that does not flush before its queries: every check for an
  existing row sees what was committed before the run and none of the rows the run itself has
  added, and the unique constraints are checked when everything is committed at the end. So the
  session is the committed database, the rows added so far and the cache of usage rows. The file is
  given as \<open>json.loads\<close> returns it: a key that \<open>fromisoformat\<close> rejects is \<open>None\<close>,
  as is a value that is not of the container type the tool tests for; the empty string stands
  for every false value of a pig.
\<close>

subsection \<open>The file\<close>

record legacy_event =
  le_group_id :: group_id
  le_type :: string
  le_attacker :: user_id
  le_target :: user_id
  le_attacker_name :: string
  le_target_name :: string
  le_food :: string

text \<open>\<open>protected\<close>: the older form for all groups, the form by date and group, or no dictionary.\<close>

datatype legacy_protected =
    ProtectedOn "date option" "user_id list"
  | ProtectedGroups "(date option \<times> (group_id \<times> user_id list option) list option) list"
  | ProtectedOther

record legacy_data =
  lg_history :: "(date option \<times> (user_id \<times> pig_id) list option) list"
  lg_group_rolls :: "(date option \<times> (group_id \<times> (user_id \<times> pig_id) list option) list option) list"
  lg_collection :: "(user_id \<times> pig_id list option) list"
  lg_usage :: "(user_id \<times> rat) list option"
  lg_force_usage :: "(user_id \<times> date option) list option"
  lg_daily_events :: "(date option \<times> legacy_event option list option) list"
  lg_protected :: legacy_protected

subsection \<open>The session\<close>

datatype import_error = Raised error | MultipleResultsFound | AttributeError

record import_session =
  is_db :: db
  is_new :: db
  is_usage_cache :: "user_usage list"

fun each :: "('x \<Rightarrow> 's \<Rightarrow> import_error + 's) \<Rightarrow> 'x list \<Rightarrow> 's \<Rightarrow> import_error + 's" where
  "each f [] s = Inr s"
| "each f (x # xs) s = (case f x s of Inl e \<Rightarrow> Inl e | Inr s' \<Rightarrow> each f xs s')"

text \<open>The two guards of the nested loops: an unparsable date raises, another container is skipped.\<close>

definition with_date :: "date option \<Rightarrow> (date \<Rightarrow> 's \<Rightarrow> import_error + 's) \<Rightarrow> 's \<Rightarrow> import_error + 's" where
  "with_date d f s = (case d of None \<Rightarrow> Inl (Raised ValueError) | Some d \<Rightarrow> f d s)"

definition each_of :: "('x \<Rightarrow> 's \<Rightarrow> import_error + 's) \<Rightarrow> 'x list option \<Rightarrow> 's \<Rightarrow> import_error + 's" where
  "each_of f xs s = (case xs of None \<Rightarrow> Inr s | Some xs \<Rightarrow> each f xs s)"

subsection \<open>One entry of each section\<close>

definition legacy_daily_roll :: "datetime \<Rightarrow> date \<Rightarrow> user_id \<Rightarrow> pig_id \<Rightarrow> daily_roll" where
  "legacy_daily_roll now d u p = \<lparr>dr_date_str = d, dr_user_id = u, dr_pig_id = p, dr_is_new_pig = None,
     dr_previous_copies = None, dr_copies_after_roll = None, dr_previous_expert_level = None,
     dr_expert_level_after_roll = None, dr_collection_size_after_roll = None,
     dr_previous_duplicate_streak = None, dr_duplicate_streak_after_roll = None,
     dr_resource_version = None, dr_appearance_snapshot = None, dr_created_at = now\<rparr>"

definition import_history :: "datetime \<Rightarrow> date option \<Rightarrow> user_id \<times> pig_id \<Rightarrow> import_session \<Rightarrow> import_error + import_session" where
  "import_history now date_str record = (case record of (u, p) \<Rightarrow> with_date date_str (\<lambda>d s.
     let existing = one_or_none (\<lambda>r. dr_user_id r = u \<and> dr_date_str r = d) (daily_rolls (is_db s))
     in Inr (if existing = None \<and> p \<noteq> []
             then s\<lparr>is_new := (is_new s)\<lparr>daily_rolls := daily_rolls (is_new s) @ [legacy_daily_roll now d u p]\<rparr>\<rparr>
             else s)))"

definition has_group_roll :: "import_session \<Rightarrow> date \<Rightarrow> group_id \<Rightarrow> user_id \<Rightarrow> bool" where
  "has_group_roll s d g u \<longleftrightarrow>
     one_or_none (\<lambda>r. gr_date_str r = d \<and> gr_group_id r = g \<and> gr_user_id r = u) (group_rolls (is_db s)) \<noteq> None"

definition import_group_roll :: "datetime \<Rightarrow> date option \<Rightarrow> group_id \<Rightarrow> user_id \<times> pig_id \<Rightarrow> import_session \<Rightarrow> import_error + import_session" where
  "import_group_roll now date_str g record = (case record of (u, p) \<Rightarrow> with_date date_str (\<lambda>d s.
     Inr (if \<not> has_group_roll s d g u \<and> p \<noteq> []
          then s\<lparr>is_new := (is_new s)\<lparr>group_rolls := group_rolls (is_new s) @
            [\<lparr>gr_date_str = d, gr_group_id = g, gr_user_id = u, gr_pig_id = p, gr_seen_at = now\<rparr>]\<rparr>\<rparr>
          else s)))"

definition ensure_pig_progress :: "string \<Rightarrow> datetime \<Rightarrow> user_id \<Rightarrow> pig_id \<Rightarrow> datetime option \<Rightarrow> import_session \<Rightarrow> import_session" where
  "ensure_pig_progress tenant now u p first_seen_at s =
     (if one_or_none (\<lambda>r. up_tenant_id r = tenant \<and> up_user_id r = u \<and> up_pig_id r = p) (user_pig_progress (is_db s)) \<noteq> None
      then s
      else s\<lparr>is_new := (is_new s)\<lparr>user_pig_progress := user_pig_progress (is_new s) @
        [\<lparr>up_tenant_id = tenant, up_user_id = u, up_pig_id = p, up_copies = 1, up_growth_bonus = 0,
          up_first_obtained_at = (case first_seen_at of None \<Rightarrow> now | Some t \<Rightarrow> t)\<rparr>]\<rparr>\<rparr>)"

definition ensure_draw_state :: "string \<Rightarrow> user_id \<Rightarrow> import_session \<Rightarrow> import_session" where
  "ensure_draw_state tenant u s =
     (if one_or_none (\<lambda>r. ds_tenant_id r = tenant \<and> ds_user_id r = u) (user_draw_state (is_db s)) \<noteq> None
      then s
      else s\<lparr>is_new := (is_new s)\<lparr>user_draw_state := user_draw_state (is_new s) @
        [\<lparr>ds_tenant_id = tenant, ds_user_id = u, ds_duplicate_streak = 0\<rparr>]\<rparr>\<rparr>)"

text \<open>A row that is only added has no \<open>first_seen_at\<close> yet: its server default comes with the flush.\<close>

definition import_pig :: "string \<Rightarrow> datetime \<Rightarrow> user_id \<Rightarrow> pig_id \<Rightarrow> import_session \<Rightarrow> import_error + import_session" where
  "import_pig tenant now u p s =
     (let existing = one_or_none (\<lambda>r. co_user_id r = u \<and> co_pig_id r = p) (collections (is_db s));
          s1 = (if existing = None
                then s\<lparr>is_new := (is_new s)\<lparr>collections := collections (is_new s) @
                  [\<lparr>co_user_id = u, co_pig_id = p, co_first_seen_at = now\<rparr>]\<rparr>\<rparr>
                else s);
          s2 = ensure_pig_progress tenant now u p (map_option co_first_seen_at existing) s1
      in Inr (ensure_draw_state tenant u s2))"

text \<open>The object the caller mutates is the cached one, so the cache is where the assignment goes.\<close>

definition get_or_create_user_usage :: "user_id \<Rightarrow> import_session \<Rightarrow> import_session" where
  "get_or_create_user_usage u s =
     (if one_or_none (\<lambda>r. uu_user_id r = u) (is_usage_cache s) \<noteq> None then s
      else let usage = (case one_or_none (\<lambda>r. uu_user_id r = u) (user_usage (is_db s)) of
                          None \<Rightarrow> \<lparr>uu_user_id = u, uu_last_roast_ts = None, uu_roast_charges = None,
                                   uu_roast_charge_updated_ts = None, uu_last_force_date = None\<rparr>
                        | Some r \<Rightarrow> r)
           in s\<lparr>is_usage_cache := is_usage_cache s @ [usage]\<rparr>)"

definition assign_usage :: "user_id \<Rightarrow> (user_usage \<Rightarrow> user_usage) \<Rightarrow> import_session \<Rightarrow> import_session" where
  "assign_usage u f s = s\<lparr>is_usage_cache := upd_rows (\<lambda>r. uu_user_id r = u) f (is_usage_cache s)\<rparr>"

definition import_usage :: "user_id \<times> rat \<Rightarrow> import_session \<Rightarrow> import_error + import_session" where
  "import_usage entry s = (case entry of (u, last_roast_ts) \<Rightarrow>
     Inr (assign_usage u (\<lambda>r. r\<lparr>uu_last_roast_ts := Some (int_of_float last_roast_ts)\<rparr>) (get_or_create_user_usage u s)))"

definition import_force_usage :: "user_id \<times> date option \<Rightarrow> import_session \<Rightarrow> import_error + import_session" where
  "import_force_usage entry s = (case entry of (u, last_force_date) \<Rightarrow>
     with_date last_force_date (\<lambda>d s. Inr (assign_usage u (\<lambda>r. r\<lparr>uu_last_force_date := Some d\<rparr>) s))
       (get_or_create_user_usage u s))"

definition same_legacy_event :: "date \<Rightarrow> legacy_event \<Rightarrow> roast_event \<Rightarrow> bool" where
  "same_legacy_event d e r \<longleftrightarrow> ev_date_str r = d \<and> ev_group_id r = le_group_id e \<and> ev_event_type r = le_type e \<and>
     ev_attacker_id r = le_attacker e \<and> ev_target_id r = le_target e \<and>
     ev_attacker_name r = le_attacker_name e \<and> ev_target_name r = le_target_name e \<and> ev_food_name r = le_food e"

text \<open>There is no unique key over these columns, so \<open>scalar_one_or_none\<close> can find several rows.\<close>

definition has_roast_event :: "import_session \<Rightarrow> date \<Rightarrow> legacy_event \<Rightarrow> import_error + bool" where
  "has_roast_event s d e =
     (case filter (same_legacy_event d e) (roast_events (is_db s)) of
        [] \<Rightarrow> Inr False
      | [_] \<Rightarrow> Inr True
      | _ \<Rightarrow> Inl MultipleResultsFound)"

definition legacy_roast_event :: "datetime \<Rightarrow> date \<Rightarrow> legacy_event \<Rightarrow> roast_event" where
  "legacy_roast_event now d e = \<lparr>ev_id = 0, ev_date_str = d, ev_group_id = le_group_id e, ev_event_type = le_type e,
     ev_attacker_id = le_attacker e, ev_target_id = le_target e, ev_attacker_name = le_attacker_name e,
     ev_target_name = le_target_name e, ev_food_name = le_food e, ev_reservation_id = [],
     ev_participant_snapshot = None, ev_created_at = now\<rparr>"

definition import_event :: "datetime \<Rightarrow> date option \<Rightarrow> legacy_event option \<Rightarrow> import_session \<Rightarrow> import_error + import_session" where
  "import_event now date_str event s =
     (case event of
        None \<Rightarrow> Inr s
      | Some e \<Rightarrow> with_date date_str (\<lambda>d s.
          case has_roast_event s d e of
            Inl x \<Rightarrow> Inl x
          | Inr True \<Rightarrow> Inr s
          | Inr False \<Rightarrow> Inr (s\<lparr>is_new := (is_new s)\<lparr>roast_events := roast_events (is_new s) @ [legacy_roast_event now d e]\<rparr>\<rparr>)) s)"

definition has_group_protection :: "import_session \<Rightarrow> date \<Rightarrow> group_id \<Rightarrow> user_id \<Rightarrow> bool" where
  "has_group_protection s d g u \<longleftrightarrow>
     one_or_none (\<lambda>r. gp_protect_date r = d \<and> gp_group_id r = g \<and> gp_user_id r = u) (group_protections (is_db s)) \<noteq> None"

definition import_protection :: "date option \<Rightarrow> group_id \<Rightarrow> user_id \<Rightarrow> import_session \<Rightarrow> import_error + import_session" where
  "import_protection protect_date g u = with_date protect_date (\<lambda>d s.
     Inr (if has_group_protection s d g u then s
          else s\<lparr>is_new := (is_new s)\<lparr>group_protections := group_protections (is_new s) @
            [\<lparr>gp_protect_date = d, gp_group_id = g, gp_user_id = u, gp_roast_success_count = 0, gp_source_levels = None,
              gp_source_baselines = None, gp_base_level = 1, gp_consecutive_days = 1\<rparr>]\<rparr>\<rparr>))"

subsection \<open>The sections in order, and the commit\<close>

definition import_histories :: "datetime \<Rightarrow> legacy_data \<Rightarrow> import_session \<Rightarrow> import_error + import_session" where
  "import_histories now data =
     each (\<lambda>(date_str, records). each_of (import_history now date_str) records) (lg_history data)"

definition import_group_rolls :: "datetime \<Rightarrow> legacy_data \<Rightarrow> import_session \<Rightarrow> import_error + import_session" where
  "import_group_rolls now data =
     each (\<lambda>(date_str, group_map).
       each_of (\<lambda>(g, records). each_of (import_group_roll now date_str g) records) group_map)
     (lg_group_rolls data)"

definition import_collections :: "string \<Rightarrow> datetime \<Rightarrow> legacy_data \<Rightarrow> import_session \<Rightarrow> import_error + import_session" where
  "import_collections tenant now data =
     each (\<lambda>(u, pig_ids). each_of (import_pig tenant now u) pig_ids) (lg_collection data)"

definition import_events :: "datetime \<Rightarrow> legacy_data \<Rightarrow> import_session \<Rightarrow> import_error + import_session" where
  "import_events now data =
     each (\<lambda>(date_str, events). each_of (import_event now date_str) events) (lg_daily_events data)"

definition import_protections :: "legacy_data \<Rightarrow> import_session \<Rightarrow> import_error + import_session" where
  "import_protections data s =
     (case lg_protected data of
        ProtectedOn protect_date users \<Rightarrow> each (import_protection protect_date ''__all__'') users s
      | ProtectedGroups groups \<Rightarrow>
          each (\<lambda>(protect_date, group_map).
            each_of (\<lambda>(g, user_ids). each_of (import_protection protect_date g) user_ids) group_map) groups s
      | ProtectedOther \<Rightarrow> Inl AttributeError)"

definition import_sections :: "string \<Rightarrow> datetime \<Rightarrow> legacy_data \<Rightarrow> import_session \<Rightarrow> import_error + import_session" where
  "import_sections tenant now data s =
     each (\<lambda>f. f)
       [import_histories now data, import_group_rolls now data, import_collections tenant now data,
        each_of import_usage (lg_usage data), each_of import_force_usage (lg_force_usage data),
        import_events now data, import_protections data] s"

fun numbered :: "nat \<Rightarrow> roast_event list \<Rightarrow> roast_event list" where
  "numbered n [] = []"
| "numbered n (e # es) = e\<lparr>ev_id := n\<rparr> # numbered (Suc n) es"

definition flushed :: "import_session \<Rightarrow> db" where
  "flushed s = (let db = is_db s; new = is_new s in
     db\<lparr>daily_rolls := daily_rolls db @ daily_rolls new,
        group_rolls := group_rolls db @ group_rolls new,
        collections := collections db @ collections new,
        user_pig_progress := user_pig_progress db @ user_pig_progress new,
        user_draw_state := user_draw_state db @ user_draw_state new,
        user_usage := fold (put_row uu_user_id) (is_usage_cache s) (user_usage db),
        roast_events := roast_events db @ numbered (next_event_id db) (roast_events new),
        group_protections := group_protections db @ group_protections new\<rparr>)"

definition import_constraints :: "db \<Rightarrow> bool" where
  "import_constraints db \<longleftrightarrow>
     unique_on daily_roll_key (daily_rolls db) \<and> unique_on group_roll_key (group_rolls db) \<and>
     unique_on collection_key (collections db) \<and> unique_on progress_key (user_pig_progress db) \<and>
     unique_on draw_state_key (user_draw_state db) \<and> unique_on protection_key (group_protections db)"

definition commit_import :: "import_session \<Rightarrow> import_error + db" where
  "commit_import s = (if import_constraints (flushed s) then Inr (flushed s) else Inl (Raised IntegrityError))"

definition import_legacy_json :: "string \<Rightarrow> datetime \<Rightarrow> legacy_data \<Rightarrow> db \<Rightarrow> import_error + db" where
  "import_legacy_json tenant now data db =
     (case import_sections tenant now data \<lparr>is_db = db, is_new = empty_db, is_usage_cache = []\<rparr> of
        Inl e \<Rightarrow> Inl e
      | Inr s \<Rightarrow> commit_import s)"

subsection \<open>What a step may do to the session\<close>

text \<open>A step leaves the committed rows alone and only adds to the rows to insert.\<close>

definition extends :: "import_session \<Rightarrow> import_session \<Rightarrow> bool" where
  "extends s s' \<longleftrightarrow> is_db s' = is_db s \<and>
     (\<exists>xs. daily_rolls (is_new s') = daily_rolls (is_new s) @ xs) \<and>
     (\<exists>xs. user_draw_state (is_new s') = user_draw_state (is_new s) @ xs)"

definition grows :: "('x \<Rightarrow> import_session \<Rightarrow> import_error + import_session) \<Rightarrow> bool" where
  "grows f \<longleftrightarrow> (\<forall>x s s'. f x s = Inr s' \<longrightarrow> extends s s')"

lemma growsI: "(\<And>x s s'. f x s = Inr s' \<Longrightarrow> extends s s') \<Longrightarrow> grows f"
  by (simp add: grows_def)

lemma extends_refl [simp]: "extends s s"
  by (simp add: extends_def)

lemma extends_trans [trans]: "extends s s1 \<Longrightarrow> extends s1 s2 \<Longrightarrow> extends s s2"
  by (force simp: extends_def)

lemma extends_rolls: "extends s s' \<Longrightarrow> r \<in> set (daily_rolls (is_new s)) \<Longrightarrow> r \<in> set (daily_rolls (is_new s'))"
  by (auto simp: extends_def)

lemma each_extends:
  "each f xs s = Inr s' \<Longrightarrow> (\<And>x s s'. x \<in> set xs \<Longrightarrow> f x s = Inr s' \<Longrightarrow> extends s s') \<Longrightarrow> extends s s'"
proof (induction xs arbitrary: s)
  case (Cons x xs)
  from Cons.prems(1) obtain s1 where s1: "f x s = Inr s1" "each f xs s1 = Inr s'"
    by (auto split: sum.splits)
  have "extends s s1" using Cons.prems(2) [OF _ s1(1)] by simp
  also have "extends s1 s'" by (rule Cons.IH [OF s1(2)]) (rule Cons.prems(2), auto)
  finally show ?case .
qed simp

lemma each_ConsE:
  assumes "each f (x # xs) s = Inr s'"
  obtains s1 where "f x s = Inr s1" and "each f xs s1 = Inr s'"
  using assms by (auto split: sum.splits)

text \<open>Every entry of a loop that ends normally was processed, between two extensions.\<close>

lemma each_passes:
  "each f xs s = Inr s' \<Longrightarrow> x \<in> set xs \<Longrightarrow> (\<And>x s s'. x \<in> set xs \<Longrightarrow> f x s = Inr s' \<Longrightarrow> extends s s') \<Longrightarrow>
   \<exists>s1 s2. extends s s1 \<and> f x s1 = Inr s2 \<and> extends s2 s'"
proof (induction xs arbitrary: s)
  case (Cons y xs)
  from Cons.prems(1) obtain s1 where s1: "f y s = Inr s1" "each f xs s1 = Inr s'"
    by (auto split: sum.splits)
  have step: "extends s s1" using Cons.prems(3) [OF _ s1(1)] by simp
  have tail: "extends s1 s'" by (rule each_extends [OF s1(2)]) (rule Cons.prems(3), auto)
  show ?case
  proof (cases "x = y")
    case True
    with s1(1) tail show ?thesis using extends_refl by blast
  next
    case False
    with Cons.prems(2) have "x \<in> set xs" by simp
    have "\<exists>s2 s3. extends s1 s2 \<and> f x s2 = Inr s3 \<and> extends s3 s'"
      by (rule Cons.IH [OF s1(2) \<open>x \<in> set xs\<close>]) (rule Cons.prems(3), auto)
    with step show ?thesis using extends_trans by blast
  qed
qed simp

lemma grows_each: "grows f \<Longrightarrow> each f xs s = Inr s' \<Longrightarrow> extends s s'"
  by (erule each_extends) (simp add: grows_def)

lemma grows_each_of: "grows f \<Longrightarrow> each_of f xs s = Inr s' \<Longrightarrow> extends s s'"
  by (cases xs) (auto simp: each_of_def grows_each)

lemma grows_nested: "(\<And>a. grows (f a)) \<Longrightarrow> grows (\<lambda>(a, xs). each_of (f a) xs)"
  by (rule growsI) (auto intro: grows_each_of)

lemma with_date_InrE:
  assumes "with_date d f s = Inr s'"
  obtains d' where "d = Some d'" and "f d' s = Inr s'"
  using assms by (cases d) (auto simp: with_date_def)

lemma grows_history: "grows (import_history now d)"
  by (rule growsI) (auto simp: import_history_def extends_def Let_def elim!: with_date_InrE)

lemma grows_group_roll: "grows (import_group_roll now d g)"
  by (rule growsI) (auto simp: import_group_roll_def extends_def elim!: with_date_InrE)

lemma grows_pig: "grows (import_pig tenant now u)"
  by (rule growsI) (auto simp: import_pig_def ensure_pig_progress_def ensure_draw_state_def extends_def Let_def)

lemma grows_usage: "grows import_usage"
  by (rule growsI) (auto simp: import_usage_def assign_usage_def get_or_create_user_usage_def extends_def Let_def)

lemma grows_force_usage: "grows import_force_usage"
  by (rule growsI) (auto simp: import_force_usage_def assign_usage_def get_or_create_user_usage_def extends_def Let_def
    elim!: with_date_InrE)

lemma grows_event: "grows (import_event now d)"
  by (rule growsI) (auto simp: import_event_def extends_def elim!: with_date_InrE
    split: option.splits sum.splits bool.splits)

lemma grows_protection: "grows (import_protection d g)"
  by (rule growsI) (auto simp: import_protection_def extends_def elim!: with_date_InrE)

lemmas grows_steps = grows_history grows_group_roll grows_pig grows_usage grows_force_usage grows_event grows_protection

lemma sections_grow:
  "import_histories now data s = Inr s' \<Longrightarrow> extends s s'"
  "import_group_rolls now data s = Inr s' \<Longrightarrow> extends s s'"
  "import_collections tenant now data s = Inr s' \<Longrightarrow> extends s s'"
  "each_of import_usage us s = Inr s' \<Longrightarrow> extends s s'"
  "each_of import_force_usage fs s = Inr s' \<Longrightarrow> extends s s'"
  "import_events now data s = Inr s' \<Longrightarrow> extends s s'"
  "import_protections data s = Inr s' \<Longrightarrow> extends s s'"
  unfolding import_histories_def import_group_rolls_def import_collections_def import_events_def import_protections_def
  by (auto elim!: grows_each [rotated] grows_each_of [rotated] intro!: grows_nested grows_steps
    split: legacy_protected.splits)

lemma sections_pass:
  assumes "import_sections tenant now data s = Inr s'"
  obtains s1 s2 s3 where "import_histories now data s = Inr s1" and "extends s1 s'"
    and "import_collections tenant now data s2 = Inr s3" and "extends s s2" and "extends s3 s'"
proof -
  let ?fs = "[import_histories now data, import_group_rolls now data, import_collections tenant now data,
        each_of import_usage (lg_usage data), each_of import_force_usage (lg_force_usage data),
        import_events now data, import_protections data]"
  have run: "each (\<lambda>f. f) ?fs s = Inr s'" using assms by (simp add: import_sections_def)
  have grow: "extends t t'" if "f \<in> set ?fs" "f t = Inr t'" for f t t'
    using that(1) sections_grow [where s = t and s' = t'] that(2) by auto
  from run obtain s1 where s1: "import_histories now data s = Inr s1" and rest: "each (\<lambda>f. f) (tl ?fs) s1 = Inr s'"
    unfolding list.sel by (rule each_ConsE)
  have "extends s1 s'" by (rule each_extends [OF rest]) (erule grow [OF list.set_sel(2) [rotated]], simp)
  moreover obtain s2 s3 where "extends s s2" "import_collections tenant now data s2 = Inr s3" "extends s3 s'"
    using each_passes [OF run, of "import_collections tenant now data"] grow by auto
  ultimately show ?thesis using that s1 by blast
qed

lemma sections_extend: "import_sections tenant now data s = Inr s' \<Longrightarrow> extends s s'"
  by (elim sections_pass) (metis extends_trans sections_grow(1))

lemma collector_rows:
  assumes "one_or_none (\<lambda>r. ds_tenant_id r = tenant \<and> ds_user_id r = u) (user_draw_state (is_db s)) = None"
    and "each (import_pig tenant now u) pigs s = Inr s'"
  shows "user_draw_state (is_new s') = user_draw_state (is_new s) @
    replicate (length pigs) \<lparr>ds_tenant_id = tenant, ds_user_id = u, ds_duplicate_streak = 0\<rparr>"
  using assms
proof (induction pigs arbitrary: s)
  case (Cons p pigs)
  define s1 where "s1 = projr (import_pig tenant now u p s)"
  have s1: "import_pig tenant now u p s = Inr s1" by (simp add: s1_def import_pig_def Let_def)
  then have "is_db s1 = is_db s"
    and "user_draw_state (is_new s1) = user_draw_state (is_new s) @ [\<lparr>ds_tenant_id = tenant, ds_user_id = u, ds_duplicate_streak = 0\<rparr>]"
    using Cons.prems(1) by (auto simp: import_pig_def ensure_pig_progress_def ensure_draw_state_def Let_def)
  with Cons.IH [of s1] Cons.prems s1 show ?case by simp
qed simp

lemma repeated_key_not_unique:
  assumes "2 \<le> n"
  shows "\<not> unique_on key (xs @ replicate n r @ ys)"
proof -
  from assms obtain m where n: "n = 2 + m" by (auto simp: le_iff_add)
  have "replicate n r = [r, r] @ replicate m r" by (simp add: n)
  then show ?thesis by (simp only: unique_on_def) simp
qed

text \<open>
  C34: A file in which some user owns two or more pigs cannot be imported while that user has no draw
  state: the tool adds a draw state for each of the pigs, because its check for an existing one
  does not see the row it has just added, and the commit of the whole import fails with an
  IntegrityError (unless an earlier entry has already raised).
\<close>

theorem legacy_import_rejects_collectors:
  assumes "(u, Some pigs) \<in> set (lg_collection data)" and "2 \<le> length pigs"
    and "one_or_none (\<lambda>r. ds_tenant_id r = tenant \<and> ds_user_id r = u) (user_draw_state db) = None"
  shows "import_legacy_json tenant now data db =
    Inl (case import_sections tenant now data \<lparr>is_db = db, is_new = empty_db, is_usage_cache = []\<rparr> of
           Inl e \<Rightarrow> e | Inr _ \<Rightarrow> Raised IntegrityError)"
proof (cases "import_sections tenant now data \<lparr>is_db = db, is_new = empty_db, is_usage_cache = []\<rparr>")
  case (Inr s')
  then obtain s2 s3 where s2: "extends \<lparr>is_db = db, is_new = empty_db, is_usage_cache = []\<rparr> s2"
    and s3: "import_collections tenant now data s2 = Inr s3" and s': "extends s3 s'"
    by (rule sections_pass)
  have grow: "extends t t'" if "(\<lambda>(u, pig_ids). each_of (import_pig tenant now u) pig_ids) x t = Inr t'" for x t t'
    using that grows_each_of [OF grows_pig] by (cases x) auto
  have "\<exists>t t'. extends s2 t \<and> (case (u, Some pigs) of (u, pig_ids) \<Rightarrow> each_of (import_pig tenant now u) pig_ids) t = Inr t' \<and>
      extends t' s3"
    by (rule each_passes [OF s3 [unfolded import_collections_def] assms(1)]) (rule grow)
  then obtain t t' where t: "extends s2 t" "each (import_pig tenant now u) pigs t = Inr t'" and t': "extends t' s3"
    by (auto simp: each_of_def)
  have "is_db t = db" using s2 t(1) by (simp add: extends_def)
  with collector_rows [OF _ t(2)] assms(3)
  obtain xs ys where "user_draw_state (is_new s') =
      xs @ replicate (length pigs) \<lparr>ds_tenant_id = tenant, ds_user_id = u, ds_duplicate_streak = 0\<rparr> @ ys"
    using t' s' by (auto simp: extends_def)
  then have "\<not> import_constraints (flushed s')"
    using repeated_key_not_unique [OF assms(2), of draw_state_key "user_draw_state (is_db s') @ xs"]
    by (simp add: import_constraints_def flushed_def Let_def)
  with Inr show ?thesis by (simp add: import_legacy_json_def commit_import_def)
qed (simp add: import_legacy_json_def)

definition sample_file :: legacy_data where
  "sample_file = \<lparr>lg_history = [(Some 7, Some [(''u'', ''pig'')])], lg_group_rolls = [],
     lg_collection = [(''u'', Some [''pig'', ''boar''])], lg_usage = Some [(''u'', 12.5)], lg_force_usage = Some [],
     lg_daily_events = [], lg_protected = ProtectedOn (Some 7) [''u'']\<rparr>"

theorem legacy_import_rejects_collectors_witness:
  "import_legacy_json ''default'' 5 sample_file empty_db = Inl (Raised IntegrityError)"
proof -
  have "\<not> isl (import_sections ''default'' 5 sample_file \<lparr>is_db = empty_db, is_new = empty_db, is_usage_cache = []\<rparr>)"
    by code_simp
  then obtain s where s: "import_sections ''default'' 5 sample_file \<lparr>is_db = empty_db, is_new = empty_db, is_usage_cache = []\<rparr> = Inr s"
    by (auto simp: isl_def split: sum.splits) (metis sum.exhaust)
  show ?thesis
    using legacy_import_rejects_collectors [of "''u''" "[''pig'', ''boar'']" sample_file "''default''" empty_db 5]
    by (simp add: s) (simp add: sample_file_def empty_db_def)
qed

text \<open>
  An import that is committed completes the history without overwriting it: for every pig of the
  file's history the user has a roll of that date afterwards, namely the one that was stored
  before, unchanged, and otherwise the roll of the file.
\<close>

theorem legacy_import_completes_history:
  assumes "import_legacy_json tenant now data db = Inr db'" and "(Some d, Some records) \<in> set (lg_history data)"
    and "(u, p) \<in> set records" and "p \<noteq> []"
  shows "one_or_none (\<lambda>r. dr_user_id r = u \<and> dr_date_str r = d) (daily_rolls db') =
    (case one_or_none (\<lambda>r. dr_user_id r = u \<and> dr_date_str r = d) (daily_rolls db) of
       Some r \<Rightarrow> Some r
     | None \<Rightarrow> Some (legacy_daily_roll now d u p))"
proof -
  let ?s = "\<lparr>is_db = db, is_new = empty_db, is_usage_cache = []\<rparr>"
  obtain s' where run: "import_sections tenant now data ?s = Inr s'" and db': "db' = flushed s'"
    and unique: "unique_on daily_roll_key (daily_rolls db')"
    using assms(1) by (auto simp: import_legacy_json_def commit_import_def import_constraints_def split: sum.splits if_splits)
  from run obtain s1 where s1: "import_histories now data ?s = Inr s1" and s': "extends s1 s'"
    by (rule sections_pass)
  have grow: "extends t t'" if "(\<lambda>(a, xs). each_of (import_history now a) xs) x t = Inr t'" for x t t'
    using that grows_each_of [OF grows_history] by (cases x) auto
  have "\<exists>t t'. extends ?s t \<and> (\<lambda>(a, xs). each_of (import_history now a) xs) (Some d, Some records) t = Inr t' \<and> extends t' s1"
    by (rule each_passes [OF s1 [unfolded import_histories_def] assms(2)]) (rule grow)
  then obtain t t' where t: "extends ?s t" "each (import_history now (Some d)) records t = Inr t'" "extends t' s1"
    by (auto simp: each_of_def)
  have "\<exists>v v'. extends t v \<and> import_history now (Some d) (u, p) v = Inr v' \<and> extends v' t'"
    by (rule each_passes [OF t(2) assms(3)]) (use grows_history in \<open>auto simp: grows_def\<close>)
  then obtain v v' where v: "extends t v" "import_history now (Some d) (u, p) v = Inr v'" "extends v' t'" by blast
  have same: "is_db v = db" "is_db s' = db" using t v sections_extend [OF run] by (simp_all add: extends_def)
  have rows: "daily_rolls db' = daily_rolls db @ daily_rolls (is_new s')" using same by (simp add: db' flushed_def Let_def)
  show ?thesis
  proof (cases "one_or_none (\<lambda>r. dr_user_id r = u \<and> dr_date_str r = d) (daily_rolls db)")
    case None
    then have "legacy_daily_roll now d u p \<in> set (daily_rolls (is_new v'))"
      using v(2) assms(4) same(1) by (simp add: import_history_def with_date_def) force
    then have "legacy_daily_roll now d u p \<in> set (daily_rolls (is_new s'))"
      by (intro extends_rolls [OF s'] extends_rolls [OF t(3)] extends_rolls [OF v(3)])
    then have "one_or_none (\<lambda>r. dr_user_id r = u \<and> dr_date_str r = d) (daily_rolls db') = Some (legacy_daily_roll now d u p)"
      by (intro one_or_none_unique [OF unique]) (auto simp: rows legacy_daily_roll_def daily_roll_key_def)
    with None show ?thesis by simp
  qed (simp add: rows one_or_none_append)
qed

definition single_pig_file :: legacy_data where
  "single_pig_file = sample_file\<lparr>lg_collection := [(''u'', Some [''pig''])]\<rparr>"

theorem legacy_import_completes_history_witness:
  "one_or_none (\<lambda>r. dr_user_id r = ''u'' \<and> dr_date_str r = 7)
     (daily_rolls (projr (import_legacy_json ''default'' 5 single_pig_file empty_db))) =
   Some (legacy_daily_roll 5 7 ''u'' ''pig'')"
proof -
  let ?run = "import_legacy_json ''default'' 5 single_pig_file empty_db"
  have "\<not> isl ?run" by code_simp
  then have run: "?run = Inr (projr ?run)" by simp
  show ?thesis
    using legacy_import_completes_history [OF run, of 7 "[(''u'', ''pig'')]" "''u''" "''pig''"]
    by (simp add: single_pig_file_def sample_file_def empty_db_def)
qed

end
