(* ===== verification/Middleware.thy ===== *)
theory Middleware
  imports Keys
begin

section \<open>The access record around every request (\<^verbatim>\<open>rollpig_cloud/main.py\<close>)\<close>

text \<open>
  The HTTP middleware calls the application and then counts the request for the key that the
  token check has left in \<open>request.state\<close>. The application is a parameter: from the database it
  gives the key (if the check was reached and passed), the outcome (an exception, or a response
  with its status) and the database afterwards. \<open>usage_fails\<close> says that writing the counters
  raised: that transaction is rolled back and the exception only logged. \<open>elapsed\<close> is the
  time of the whole request in seconds, the rational the difference of the two clock readings
  denotes; the three durations in the log line are left out.
\<close>

record http_request =
  hq_method :: string
  hq_route :: "string option"
  hq_url_path :: string

datatype log_level = INFO | WARNING

record access_record =
  ac_level :: log_level
  ac_key_id :: string
  ac_key_name :: string
  ac_operation :: string
  ac_status :: int

definition request_operation :: "http_request \<Rightarrow> string" where
  "request_operation req =
     map upper_char (hq_method req) @ '' '' @ (case hq_route req of Some p \<Rightarrow> p | None \<Rightarrow> hq_url_path req)"

definition record_authenticated_request ::
  "datetime \<Rightarrow> bool \<Rightarrow> rat \<Rightarrow> api_key_identity option \<Rightarrow> http_request \<Rightarrow> int \<Rightarrow> db \<Rightarrow> db \<times> access_record list" where
  "record_authenticated_request now usage_fails elapsed identity req status_code db =
     (case identity of
        None \<Rightarrow> (db, [])
      | Some i \<Rightarrow>
          let operation = request_operation req
          in (if usage_fails then db else record_key_request now i (hq_method req) operation status_code db,
              [\<lparr>ac_level = (if 1 \<le> elapsed then WARNING else INFO), ac_key_id = key_id i, ac_key_name = key_name i,
                ac_operation = operation, ac_status = status_code\<rparr>]))"

type_synonym 'a app = "db \<Rightarrow> api_key_identity option \<times> (error + (int \<times> 'a)) \<times> db"

definition track_authenticated_requests ::
  "datetime \<Rightarrow> bool \<Rightarrow> rat \<Rightarrow> http_request \<Rightarrow> 'a app \<Rightarrow> db \<Rightarrow> (error + (int \<times> 'a)) \<times> db \<times> access_record list" where
  "track_authenticated_requests now usage_fails elapsed req call_next db =
     (case call_next db of (identity, outcome, db') \<Rightarrow>
        let status = (case outcome of Inl e \<Rightarrow> 500 | Inr (code, _) \<Rightarrow> code)
        in (outcome, record_authenticated_request now usage_fails elapsed identity req status db'))"

text \<open>The counters are the only thing the middleware adds.\<close>

definition outside_counters :: "db \<Rightarrow> db \<Rightarrow> bool" where
  "outside_counters db db' \<longleftrightarrow>
     db'\<lparr>source_key_identities := source_key_identities db, source_key_daily_usage := source_key_daily_usage db\<rparr> = db"

lemma recorded_outside_counters: "outside_counters db (record_key_request now i m op code db)"
  by (auto simp: outside_counters_def record_key_request_def upsert_identity_def upsert_daily_usage_def Let_def)

end
