(* ===== verification/Requests.thy ===== *)
theory Requests
  imports Calendar DailyRolls ReportDelivery ReportProfiles ProtectionGrants
begin

section \<open>What gets past the request schemas (\<^verbatim>\<open>rollpig_cloud/schemas.py\<close>)\<close>

text \<open>
  FastAPI builds a handler's request from the JSON body by the pydantic class and answers 422 if a
  \<open>Field\<close> limit or a validator rejects it, so the handler never runs. Each \<open>accept_...\<close> is that
  check for one class: from the fields as they came to the request the handler gets. The other
  classes have no limits beyond their types. Then: what the limits of a snapshot promise for what
  is stored; theory Service shows that every stored one keeps it.
\<close>

definition unprocessable :: error where
  "unprocessable = HTTPException 422"

definition sized :: "nat \<Rightarrow> nat \<Rightarrow> string \<Rightarrow> bool" where
  "sized lo hi s \<longleftrightarrow> lo \<le> length s \<and> length s \<le> hi"

subsection \<open>Snapshots of a roll\<close>

definition VARIANT_FIELDS :: "string list" where
  "VARIANT_FIELDS = [''image'', ''description'', ''analysis'']"

definition accept_snapshot_request :: "snapshot_request \<Rightarrow> error + snapshot_request" where
  "accept_snapshot_request req =
     (let p = sn_payload req in
      if \<not> (sized 1 64 (sn_user_id req) \<and> sized 1 128 (sn_pig_id req) \<and> sized 1 192 (sn_resource_version req) \<and>
             0 \<le> resolved_variant_level p \<and> resolved_variant_level p \<le> 5 \<and> sized 0 192 (resolved_image_name p) \<and>
             length (unlocked_variant_levels p) \<le> 5 \<and> length (unlocked_variant_fields p) \<le> 3 \<and>
             set (unlocked_variant_fields p) \<subseteq> set VARIANT_FIELDS)
      then Inl unprocessable
      else case (validate_resolved_image_name (resolved_image_name p), normalize_unlocked_variant_levels (unlocked_variant_levels p)) of
             (Inr image_name, Inr levels) \<Rightarrow>
               Inr (req\<lparr>sn_payload := p\<lparr>resolved_image_name := image_name, unlocked_variant_levels := levels,
                 unlocked_variant_fields := normalize_unlocked_variant_fields (unlocked_variant_fields p)\<rparr>\<rparr>)
           | _ \<Rightarrow> Inl unprocessable)"

subsection \<open>Daily reports\<close>

definition accept_candidate :: "group_id \<times> string \<Rightarrow> bool" where
  "accept_candidate = (\<lambda>(group_id, delivery_bot_id). sized 1 64 group_id \<and> sized 1 64 delivery_bot_id)"

definition accept_report_claim :: "report_claim_request \<Rightarrow> error + report_claim_request" where
  "accept_report_claim req =
     (if sized 1 64 (dq_instance_id req) \<and> length (dq_candidates req) \<le> 256 \<and> list_all accept_candidate (dq_candidates req)
      then Inr req else Inl unprocessable)"

definition truncate_error :: "string \<Rightarrow> string" where
  "truncate_error value = take 512 value"

definition accept_report_transition :: "report_transition_request \<Rightarrow> error + report_transition_request" where
  "accept_report_transition req =
     (let req = req\<lparr>tq_error := truncate_error (tq_error req)\<rparr>
      in if sized 1 64 (tq_group_id req) \<and> sized 1 64 (tq_claim_token req) \<and> sized 0 128 (tq_message_id req) \<and>
            sized 0 512 (tq_error req)
         then Inr req else Inl unprocessable)"

definition accept_profile_request :: "profile_request \<Rightarrow> error + profile_request" where
  "accept_profile_request req =
     (if \<not> (sized 1 64 (fq_group_id req) \<and> length (fq_user_ids req) \<le> 2048) then Inl unprocessable
      else case normalize_user_ids (fq_user_ids req) of
             Inl e \<Rightarrow> Inl unprocessable
           | Inr user_ids \<Rightarrow> Inr (req\<lparr>fq_user_ids := user_ids\<rparr>))"

subsection \<open>Protections, events, reservation messages\<close>

definition numeric_id :: "string \<Rightarrow> bool" where
  "numeric_id s \<longleftrightarrow>
     (case s of [] \<Rightarrow> False
      | c # cs \<Rightarrow> is_digit c \<and> c \<noteq> CHR ''0'' \<and> length cs \<le> 19 \<and> list_all is_digit cs)"

definition accept_grant_request :: "grant_request \<Rightarrow> error + grant_request" where
  "accept_grant_request req =
     (if numeric_id (gq_group_id req) \<and> numeric_id (gq_user_id req) \<and> 1 \<le> gq_level req \<and> gq_level req \<le> 5
      then Inr req else Inl unprocessable)"

definition accept_replace_request :: "replace_request \<Rightarrow> error + replace_request" where
  "accept_replace_request req =
     (if 1 \<le> rg_initial_level req \<and> rg_initial_level req \<le> 5 then Inr req else Inl unprocessable)"

definition accept_event_request :: "event_create_request \<Rightarrow> error + event_create_request" where
  "accept_event_request req =
     (if sized 0 64 (er_source_id req) \<and> 0 \<le> er_protection_level req \<and> er_protection_level req \<le> 5
      then Inr req else Inl unprocessable)"

definition accept_message_scope :: "string \<Rightarrow> group_id \<Rightarrow> string \<Rightarrow> bool" where
  "accept_message_scope bot_id group_id message_id \<longleftrightarrow> sized 1 64 bot_id \<and> sized 1 64 group_id \<and> sized 1 64 message_id"

definition accept_bind_message :: "roast_reservation_message \<Rightarrow> error + roast_reservation_message" where
  "accept_bind_message req =
     (if accept_message_scope (rm_bot_id req) (rm_group_id req) (rm_message_id req) \<and> sized 1 64 (rm_reservation_id req)
      then Inr req else Inl unprocessable)"

definition accept_reply_join :: "reply_join_request \<Rightarrow> error + reply_join_request" where
  "accept_reply_join req =
     (if accept_message_scope (rj_bot_id req) (rj_group_id req) (rj_message_id req) \<and>
         sized 1 64 (rj_attacker_id req) \<and> sized 0 128 (rj_attacker_name req)
      then Inr req else Inl unprocessable)"

subsection \<open>Stored appearances\<close>

text \<open>
  A file name that stays in the directory it is joined to; what a stored snapshot promises the
  client that draws it; the columns \<open>resource_version\<close> and the JSON list lengths.
\<close>

definition safe_file_name :: "string \<Rightarrow> bool" where
  "safe_file_name s \<longleftrightarrow> s \<notin> {''.'', ''..''} \<and> length s \<le> 192 \<and>
     (\<forall>c\<in>set s. 32 \<le> (of_char c :: nat) \<and> c \<notin> {CHR ''/'', CHR 0x5C, CHR '':''})"

definition good_payload :: "appearance_payload \<Rightarrow> bool" where
  "good_payload p \<longleftrightarrow> safe_file_name (resolved_image_name p) \<and>
     0 \<le> resolved_variant_level p \<and> resolved_variant_level p \<le> 5 \<and>
     sorted (unlocked_variant_levels p) \<and> distinct (unlocked_variant_levels p) \<and>
     set (unlocked_variant_levels p) \<subseteq> {1..5} \<and>
     (\<exists>i. unlocked_variant_fields p = filter i VARIANT_FIELDS)"

lemma image_name_safe:
  assumes "validate_resolved_image_name s = Inr s'" and "length s \<le> 192"
  shows "safe_file_name s'"
proof (cases "s = []")
  case True
  with assms show ?thesis by (simp add: validate_resolved_image_name_def safe_file_name_def)
next
  case False
  then have "s' = s" "s \<notin> {''.'', ''..''}" "\<forall>c\<in>set s. c \<notin> {CHR ''/'', CHR 0x5C, CHR '':'', CHR 0x00}"
    "\<forall>c\<in>set s. \<not> (of_char c :: nat) < 32"
    using assms(1) unfolding validate_resolved_image_name_def by (simp_all split: if_split_asm)
  with assms(2) show ?thesis unfolding safe_file_name_def by (auto simp: not_less)
qed

lemma levels_good:
  assumes "normalize_unlocked_variant_levels ls = Inr ls'"
  shows "sorted ls'" "distinct ls'" "set ls' \<subseteq> {1..5}"
  using assms by (auto simp: normalize_unlocked_variant_levels_def not_less split: if_splits)

text \<open>Sorting by the order of the fields and removing duplicates leaves a part of the full list.\<close>

lemma sort_key_unique:
  assumes "distinct (map f xs)" and "set ys = set xs" and "distinct ys"
  shows "sort_key f ys = sort_key f xs"
proof (rule map_sorted_distinct_set_unique)
  show "inj_on f (set (sort_key f ys) \<union> set (sort_key f xs))" using assms(1,2) by (simp add: distinct_map)
  show "sorted (map f (sort_key f ys))" "sorted (map f (sort_key f xs))" by simp_all
  show "distinct (map f (sort_key f xs))" using assms(1) by (simp add: distinct_map)
  show "distinct (map f (sort_key f ys))" using assms by (simp add: distinct_map)
  show "set (sort_key f ys) = set (sort_key f xs)" using assms(2) by simp
qed

lemma fields_good:
  assumes "set fs \<subseteq> set VARIANT_FIELDS"
  shows "normalize_unlocked_variant_fields fs = filter (\<lambda>f. f \<in> set fs) VARIANT_FIELDS"
proof -
  let ?xs = "filter (\<lambda>f. f \<in> set fs) VARIANT_FIELDS"
  have "distinct (map variant_field_order VARIANT_FIELDS)" "sorted (map variant_field_order VARIANT_FIELDS)"
    by (simp_all add: VARIANT_FIELDS_def variant_field_order_def)
  then have "distinct (map variant_field_order ?xs)" "sort_key variant_field_order ?xs = ?xs"
    by (simp_all add: distinct_map_filter sorted_filter sort_key_id_if_sorted)
  moreover have "set (remdups fs) = set ?xs" using assms by auto
  ultimately show ?thesis unfolding normalize_unlocked_variant_fields_def
    using sort_key_unique [of variant_field_order ?xs "remdups fs"] by simp
qed

lemma accepted_snapshot:
  assumes "accept_snapshot_request raw = Inr req"
  shows "good_payload (sn_payload req)" and "sized 1 192 (sn_resource_version req)"
proof -
  let ?p = "sn_payload raw"
  from assms obtain i ls where ok: "validate_resolved_image_name (resolved_image_name ?p) = Inr i"
      "normalize_unlocked_variant_levels (unlocked_variant_levels ?p) = Inr ls"
    and req: "req = raw\<lparr>sn_payload := ?p\<lparr>resolved_image_name := i, unlocked_variant_levels := ls,
        unlocked_variant_fields := normalize_unlocked_variant_fields (unlocked_variant_fields ?p)\<rparr>\<rparr>"
    and limits: "sized 1 192 (sn_resource_version raw)" "0 \<le> resolved_variant_level ?p" "resolved_variant_level ?p \<le> 5"
      "length (resolved_image_name ?p) \<le> 192" "set (unlocked_variant_fields ?p) \<subseteq> set VARIANT_FIELDS"
    by (auto simp: accept_snapshot_request_def Let_def sized_def split: if_splits sum.splits)
  from limits(1) req show "sized 1 192 (sn_resource_version req)" by simp
  show "good_payload (sn_payload req)"
    using image_name_safe [OF ok(1) limits(4)] levels_good [OF ok(2)] fields_good [OF limits(5)] limits(2,3)
    by (auto simp: req good_payload_def)
qed


definition good_appearance :: "daily_roll \<Rightarrow> bool" where
  "good_appearance r \<longleftrightarrow> sized 0 192 (str_or (dr_resource_version r) []) \<and>
     (\<forall>a p. dr_appearance_snapshot r = Some a \<and> ap_payload a = Some p \<longrightarrow> good_payload p)"

lemma created_roll_good: "a \<in> {None, Some \<lparr>ap_is_makeup = True, ap_payload = None\<rparr>} \<Longrightarrow> good_appearance (created_roll now req a p)"
  by (auto simp: good_appearance_def created_roll_def str_or_def sized_def)

definition drawn_db :: db where
  "drawn_db = fst (projr (get_or_create_once ''t'' 7 None (\<lambda>db. db) sample_roll_request empty_db empty_db))"

definition pictured_db :: db where
  "pictured_db = fst (projr (complete_daily_roll_snapshot 8 None sample_snapshot drawn_db))"

end
