(* ===== verification/Routes.thy ===== *)
theory Routes
  imports Models
begin

section \<open>The routes of the application (\<^verbatim>\<open>main.py\<close>, \<^verbatim>\<open>routers/*.py\<close>)\<close>

text \<open>
  Which requests reach which handler, and which of them pass the token check first: the twelve
  routers as the source declares them, each with its prefix, its dependencies and the method and
  path of every decorated handler, and the table that \<^verbatim>\<open>main.py\<close> builds from them. The
  handlers themselves are in the theories of their components.
\<close>

subsection \<open>Routers\<close>

text \<open>\<open>Depends(verify_token)\<close> is the only dependency a router declares.\<close>

datatype dependency = VerifyToken

record router =
  ro_prefix :: string
  ro_dependencies :: "dependency list"
  ro_routes :: "(string \<times> string) list"

definition daily_rolls_router :: router where
  "daily_rolls_router = \<lparr>ro_prefix = ''/v1/daily-rolls'', ro_dependencies = [VerifyToken], ro_routes =
     [(''POST'', ''/get-or-create''), (''POST'', ''/makeup''), (''GET'', ''/by-date''), (''PUT'', ''/snapshot''),
      (''GET'', ''/all'')]\<rparr>"

definition daily_reports_router :: router where
  "daily_reports_router = \<lparr>ro_prefix = ''/v1/daily-reports'', ro_dependencies = [VerifyToken], ro_routes =
     [(''POST'', ''/profiles''), (''POST'', ''/claim''), (''POST'', ''/transition'')]\<rparr>"

definition draw_state_router :: router where
  "draw_state_router = \<lparr>ro_prefix = ''/v1/draw-state'', ro_dependencies = [VerifyToken], ro_routes = [(''GET'', '''')]\<rparr>"

definition group_rolls_router :: router where
  "group_rolls_router = \<lparr>ro_prefix = ''/v1/group-rolls'', ro_dependencies = [VerifyToken], ro_routes =
     [(''POST'', ''/mark-seen''), (''GET'', '''')]\<rparr>"

definition collections_router :: router where
  "collections_router = \<lparr>ro_prefix = ''/v1/collections'', ro_dependencies = [VerifyToken], ro_routes = [(''GET'', '''')]\<rparr>"

definition cooldowns_router :: router where
  "cooldowns_router = \<lparr>ro_prefix = ''/v1/cooldowns'', ro_dependencies = [VerifyToken], ro_routes =
     [(''POST'', ''/consume-roast''), (''POST'', ''/consume-force'')]\<rparr>"

definition events_router :: router where
  "events_router = \<lparr>ro_prefix = ''/v1/events'', ro_dependencies = [VerifyToken], ro_routes =
     [(''POST'', ''''), (''GET'', '''')]\<rparr>"

definition protections_router :: router where
  "protections_router = \<lparr>ro_prefix = ''/v1/protections'', ro_dependencies = [VerifyToken], ro_routes =
     [(''POST'', ''/replace-group''), (''POST'', ''/grant''), (''GET'', ''/check'')]\<rparr>"

definition groups_router :: router where
  "groups_router = \<lparr>ro_prefix = ''/v1/groups'', ro_dependencies = [VerifyToken], ro_routes = [(''GET'', ''/active'')]\<rparr>"

definition catalog_router :: router where
  "catalog_router = \<lparr>ro_prefix = ''/v1/catalog-snapshot'', ro_dependencies = [VerifyToken], ro_routes = [(''GET'', '''')]\<rparr>"

definition roast_reservations_router :: router where
  "roast_reservations_router = \<lparr>ro_prefix = ''/v1/roast-reservations'', ro_dependencies = [VerifyToken], ro_routes =
     [(''GET'', ''/capabilities''), (''POST'', ''/bind-message''), (''POST'', ''/join-by-message''),
      (''POST'', ''/unrolled-attempt''), (''POST'', ''/prepare''), (''GET'', ''/owned''), (''POST'', ''/claim''),
      (''POST'', ''/waiting-notice''), (''POST'', ''/outcome/prepare''), (''POST'', ''/outcome''), (''POST'', ''/sending''),
      (''POST'', ''/complete''), (''POST'', ''/release'')]\<rparr>"

definition roast_refills_router :: router where
  "roast_refills_router = \<lparr>ro_prefix = ''/v1/group-roast-refills'', ro_dependencies = [VerifyToken], ro_routes =
     [(''POST'', ''/active-users/mark''), (''GET'', ''/active-users''), (''POST'', ''/prepare''), (''POST'', ''/bind-message''),
      (''GET'', ''/active''), (''POST'', ''/fail''), (''POST'', ''/complete'')]\<rparr>"

subsection \<open>The table of the application\<close>

type_synonym route = "dependency list \<times> string \<times> string"

definition router_table :: "router \<Rightarrow> route list" where
  "router_table r = map (\<lambda>(m, p). (ro_dependencies r, m, ro_prefix r @ p)) (ro_routes r)"

text \<open>The health check is registered first and has no dependency; then the routers in the order of their inclusion.\<close>

definition HEALTHZ_PATH :: string where
  "HEALTHZ_PATH = ''/healthz''"

definition healthz :: json where
  "healthz = JObj (fmap_of_list [(''ok'', JBool True)])"

definition INCLUDED_ROUTERS :: "router list" where
  "INCLUDED_ROUTERS =
     [daily_rolls_router, daily_reports_router, draw_state_router, group_rolls_router, collections_router,
      cooldowns_router, events_router, protections_router, groups_router, catalog_router, roast_reservations_router,
      roast_refills_router]"

definition ROUTES :: "route list" where
  "ROUTES = ([], ''GET'', HEALTHZ_PATH) # concat (map router_table INCLUDED_ROUTERS)"

text \<open>No path has a parameter, so a request matches the first route with its method and its path.\<close>

definition match_route :: "string \<Rightarrow> string \<Rightarrow> route option" where
  "match_route method path = List.find (\<lambda>(_, m, p). m = method \<and> p = path) ROUTES"

lemma match_routeD: "match_route method path = Some (deps, m, p) \<Longrightarrow> (deps, m, p) \<in> set ROUTES \<and> m = method \<and> p = path"
  by (auto simp: match_route_def find_Some_iff in_set_conv_nth)

lemmas router_defs = daily_rolls_router_def daily_reports_router_def draw_state_router_def group_rolls_router_def
  collections_router_def cooldowns_router_def events_router_def protections_router_def groups_router_def catalog_router_def
  roast_reservations_router_def roast_refills_router_def

text \<open>Every route but the health check is behind the token check, and no two routes answer the same request.\<close>

lemma routes_protected: "(deps, m, p) \<in> set ROUTES \<Longrightarrow> p \<noteq> HEALTHZ_PATH \<Longrightarrow> VerifyToken \<in> set deps"
proof -
  have "\<forall>r\<in>set INCLUDED_ROUTERS. ro_dependencies r = [VerifyToken]" by (simp add: INCLUDED_ROUTERS_def router_defs)
  then show "(deps, m, p) \<in> set ROUTES \<Longrightarrow> p \<noteq> HEALTHZ_PATH \<Longrightarrow> VerifyToken \<in> set deps"
    by (auto simp: ROUTES_def router_table_def)
qed

lemma routes_distinct: "distinct (map snd ROUTES)"
  by code_simp

lemma match_routeI: "(deps, m, p) \<in> set ROUTES \<Longrightarrow> match_route m p = Some (deps, m, p)"
proof -
  assume r: "(deps, m, p) \<in> set ROUTES"
  then have "match_route m p \<noteq> None" by (auto simp: match_route_def find_None_iff)
  then obtain deps' where found: "match_route m p = Some (deps', m, p)"
    using match_routeD by (cases "match_route m p") auto
  have "inj_on snd (set ROUTES)" using routes_distinct by (simp add: distinct_map)
  from inj_onD [OF this, of "(deps', m, p)" "(deps, m, p)"] match_routeD [OF found] r found show ?thesis by simp
qed

end
