(* ===== verification/Service.thy ===== *)
theory Service
  imports Requests Refills Events Keys
begin

section \<open>The whole service: every transaction and what it keeps\<close>

text \<open>
  The routes of all components on one database. A step is the transaction of one route with any
  arguments, so a sequence of steps is the traffic of all bots in any order. The components
  proved their invariants for steps of their own and steps that leave their tables alone; here each
  route is shown to be such a sequence for every component, so the invariants hold together.
\<close>

subsection \<open>Footprints\<close>

text \<open>
  The tables with an invariant: refill requests, report deliveries and rolls, which a reservation
  route must leave alone, and the reservations with their participants.
\<close>

definition footprint :: "db \<Rightarrow> (group_roast_refill_request list \<times> daily_report_delivery list \<times> daily_roll list) \<times>
    roast_reservation list \<times> roast_reservation_participant list" where
  "footprint db = ((group_roast_refill_requests db, daily_report_deliveries db, daily_rolls db),
     roast_reservations db, roast_reservation_participants db)"

abbreviation bystanders :: "db \<Rightarrow> group_roast_refill_request list \<times> daily_report_delivery list \<times> daily_roll list" where
  "bystanders db \<equiv> fst (footprint db)"

abbreviation gatherings :: "db \<Rightarrow> roast_reservation list \<times> roast_reservation_participant list" where
  "gatherings db \<equiv> snd (footprint db)"

text \<open>Operations that touch none of them.\<close>

lemma footprint_usage [simp]:
  "footprint (fst (consume_roast_usage u ts cd mc clock db)) = footprint db"
  "footprint (fst (consume_force_usage u d db)) = footprint db"
  by (simp_all add: consume_roast_usage_def consume_force_usage_def footprint_def Let_def case_prod_unfold split: option.split)

lemma footprint_mark [simp]: "footprint (mark_group_active_users now d g us db) = footprint db"
  by (simp add: mark_group_active_users_def footprint_def Let_def)

lemma footprint_group_roll [simp]:
  "footprint (add_group_roll now g u pig d db) = footprint db" "footprint (mark_seen_in_group now d g u pig db) = footprint db"
  by (simp_all add: add_group_roll_def mark_seen_in_group_def footprint_def split: option.split)

lemma footprint_ensure_group_roll [simp]: "footprint (ensure_group_roll now g u pig d db) = footprint db"
  by (simp add: ensure_group_roll_def)

lemma footprint_insert_event [simp]: "footprint (insert_event now req db) = footprint db"
  unfolding insert_event_def Let_def by (simp add: footprint_def) (simp add: footprint_def mark_group_active_users_def Let_def)

lemma footprint_event [simp]:
  "footprint (fst (record_roast_event_with_status now req item db)) = footprint db"
  "footprint (fst (record_roast_event now req item db)) = footprint db"
  by (simp_all add: record_roast_event_def record_roast_event_with_status_def case_prod_unfold)

lemma footprint_counts:
  "footprint (record_key_request now i m op code db) = footprint db"
  "record_key_mutation_outcome now identity op counts db = Inr db' \<Longrightarrow> footprint db' = footprint db"
  by (auto simp: record_key_request_def record_key_mutation_outcome_def upsert_daily_usage_def upsert_identity_def Let_def footprint_def
      split: option.splits if_splits)

lemma footprint_growth [simp]:
  "footprint (set_streak t u n db) = footprint db" "footprint (add_progress p db) = footprint db"
  "footprint (set_progress t u pig f db) = footprint db" "footprint (ensure_collection now u pig db) = footprint db"
  "footprint (db\<lparr>user_daily_feeds := feeds\<rparr>) = footprint db"
  by (simp_all add: set_streak_def add_progress_def set_progress_def ensure_collection_def footprint_def split: option.split)

lemma footprint_roll_progress [simp]: "footprint (fst (apply_created_roll_progress t now u p db)) = footprint db"
  by (simp add: apply_created_roll_progress_def Let_def case_prod_unfold split: option.split)

lemma footprint_protection [simp]:
  "footprint (put_protection row db) = footprint db" "footprint (delete_protection row db) = footprint db"
  by (simp_all add: put_protection_def delete_protection_def footprint_def)

lemma footprint_success [simp]:
  "footprint (count_success r snapshot db) = footprint db" "footprint (snd (effective_protection req db)) = footprint db"
  by (simp_all add: count_success_def effective_protection_def Let_def split: option.split)

lemma footprint_feed: "apply_daily_feed t now d u st si race db = Inr (db', fed) \<Longrightarrow> footprint db' = footprint db"
  by (auto simp: apply_daily_feed_def loaded_progress_def Let_def case_prod_unfold split: option.splits if_splits)

lemma footprint_feeds: "settle_feeds t now d i race us db = Inr (db', results) \<Longrightarrow> footprint db' = footprint db"
  by (induction us arbitrary: db db' results) (auto split: sum.splits dest!: footprint_feed)

lemma footprint_messages:
  "footprint (fst (bind_message req db)) = footprint db"
  "unrolled_attempt_once d u raced db = Inr (db', n) \<Longrightarrow> footprint db' = footprint db"
  by (auto simp: bind_message_def unrolled_attempt_once_def footprint_def split: option.splits if_splits)


subsection \<open>Reservation routes\<close>

lemma bystanders_rows [simp]:
  "bystanders (set_reservation r db) = bystanders db" "bystanders (set_contribution i u n db) = bystanders db"
  "bystanders (add_participant p db) = bystanders db" "bystanders (rewrite_selected rows f db) = bystanders db"
  "bystanders (declare_capability creq db) = bystanders db" "bystanders (db\<lparr>roast_reservations := rs\<rparr>) = bystanders db"
  by (simp_all add: set_reservation_def set_contribution_def add_participant_def rewrite_selected_def declare_capability_def footprint_def)

lemma bystanders_activation [simp]:
  "bystanders (fst (activate_target_reservations now d u p handled db)) = bystanders db"
  "bystanders (fst (activate_if_target_already_rolled now d u handled db)) = bystanders db"
  by (auto simp: activate_if_target_already_rolled_def activate_target_reservations_def activate_all_def footprint_def split: option.split)

lemma bystanders_sync [simp]: "bystanders (sync_pending_protection now row removed g db) = bystanders db"
proof -
  have one: "bystanders (sync_one now row removed r db) = bystanders db" for r db
    by (simp add: sync_one_def Let_def)
  have "bystanders (fold (sync_one now row removed) rs db) = bystanders db" for rs
    by (induction rs arbitrary: db) (simp_all add: one)
  then show ?thesis by (simp add: sync_pending_protection_def)
qed

lemma bystanders_join [simp]: "bystanders (fst (join_existing req now roll r db)) = bystanders db"
  by (simp add: join_existing_def take_over_def join_members_def Let_def case_prod_unfold)

lemma bystanders_joined: "join_existing req now roll r db = (db', resp) \<Longrightarrow> bystanders db' = bystanders db"
  by (metis bystanders_join fst_conv)

lemma bystanders_create: "create_reservation req now fresh p roll c db = Inr (db', resp) \<Longrightarrow> bystanders db' = bystanders db"
  by (auto simp: create_reservation_def insert_reservation_def Let_def split: sum.splits if_splits)

lemma bystanders_prepare:
  assumes "prepare_reservation req expected now fresh db = Inr (db', resp)"
  shows "bystanders db' = bystanders db"
  using assms
  by (auto simp: prepare_reservation_def open_gathering_def Let_def case_prod_unfold split: option.splits if_splits dest!: bystanders_create bystanders_joined)

lemma bystanders_outcome:
  assumes "prepare_outcome_once t now race req db = Inr (db', resp)"
  shows "bystanders db' = bystanders db"
  using assms
  by (auto simp: prepare_outcome_once_def settle_outcome_feeds_def Let_def split: option.splits if_splits sum.splits dest!: footprint_feeds)

lemma bystanders_delivery [simp]:
  "bystanders (fst (claim now fresh fresh_notice creq db)) = bystanders db"
  "bystanders (fst (transition_waiting_notice now i token action db)) = bystanders db"
  "bystanders (fst (save_outcome oreq db)) = bystanders db" "bystanders (fst (mark_sending i token db)) = bystanders db"
  "bystanders (fst (complete now i token event db)) = bystanders db" "bystanders (fst (release i token db)) = bystanders db"
  by (simp_all add: claim_def transition_waiting_notice_def save_outcome_def mark_sending_def complete_def release_def
      Let_def case_prod_unfold split: option.split)

lemma bystanders_reply:
  assumes "join_by_message_once now fresh req db = Inr (db', resp)"
  shows "bystanders db' = bystanders db"
  using assms by (auto simp: join_by_message_once_def split: option.splits if_splits sum.splits dest!: bystanders_prepare)

lemma bystanders_settle [simp]: "bystanders (fst (settle_activation req now resp db)) = bystanders db"
  by (simp add: settle_activation_def Let_def)

text \<open>Routes of the protections reach the reservations only through the synchronisation.\<close>

abbreviation gathers_on :: "db \<Rightarrow> db \<Rightarrow> bool" where
  "gathers_on db db' \<equiv> reservation_step\<^sup>*\<^sup>* db db' \<and> bystanders db' = bystanders db"

lemma gathers_on_trans: "gathers_on db db1 \<Longrightarrow> gathers_on db1 db2 \<Longrightarrow> gathers_on db db2"
  by auto

lemma gathers_footprint: "footprint db' = footprint db \<Longrightarrow> gathers_on db db'"
  by (auto simp: footprint_def intro!: r_into_rtranclp reservation_step.other)

lemma gathers_sync: "gathers_on db (sync_pending_protection now row removed g db)"
  by (simp add: r_into_rtranclp reservation_step.sync)

lemma gathers_counts: "record_key_mutation_outcome now identity op counts db = Inr db' \<Longrightarrow> gathers_on db db'"
  by (intro gathers_footprint) (rule footprint_counts(2))

lemma gathers_grant:
  assumes "grant_once now identity req db = Inr (db', resp)"
  shows "gathers_on db db'"
proof -
  have "gathers_on db (sync_pending_protection now row False None (put_protection row db))" for row
    by (rule gathers_on_trans [OF gathers_footprint gathers_sync]) simp
  with assms show ?thesis
    by (auto simp: grant_once_def Let_def case_prod_unfold split: if_splits sum.splits dest!: gathers_counts intro: rtranclp_trans)
qed

lemma gathers_remove: "gathers_on db (fst (fold (remove_daily now req) rows (db, n)))"
proof (induction rows arbitrary: db n)
  case (Cons row rows)
  obtain db1 n1 where step: "remove_daily now req row (db, n) = (db1, n1)" by (metis surj_pair)
  have "gathers_on db (sync_pending_protection now r False None (put_protection r db))"
    "gathers_on db (delete_protection r (sync_pending_protection now r True None db))" for r
    by (rule gathers_on_trans [OF gathers_footprint gathers_sync] gathers_on_trans [OF gathers_sync gathers_footprint]; simp)+
  with step have "gathers_on db db1"
    by (auto simp: remove_daily_def Let_def case_prod_unfold split: if_splits)
  with gathers_on_trans [OF this Cons.IH [of db1 n1]] step show ?case by simp
qed simp

lemma gathers_daily: "gathers_on db (fold (grant_daily now req) us db)"
proof (induction us arbitrary: db)
  case (Cons u us)
  have "gathers_on db (sync_pending_protection now r False None (put_protection r db))" for r
    by (rule gathers_on_trans [OF gathers_footprint gathers_sync]) simp
  then have "gathers_on db (grant_daily now req u db)" by (simp add: grant_daily_def Let_def split: option.split)
  with gathers_on_trans [OF this Cons.IH] show ?case by simp
qed simp

lemma gathers_replace:
  assumes "replace_group_once now identity req db = Inr db'"
  shows "gathers_on db db'"
proof -
  let ?removed = "filter (\<lambda>r. gp_user_id r \<notin> set (sorted_ids (rg_user_ids req))) (protections_of (rg_protect_date req) (rg_group_id req) db)"
  from assms obtain counts where "record_key_mutation_outcome now identity ''POST /v1/protections/replace-group'' counts
      (fold (grant_daily now req) (sorted_ids (rg_user_ids req)) (fst (fold (remove_daily now req) ?removed (db, 0)))) = Inr db'"
    by (auto simp: replace_group_once_def Let_def case_prod_unfold)
  from gathers_on_trans [OF gathers_on_trans [OF gathers_remove gathers_daily] gathers_counts [OF this]] show ?thesis .
qed

subsection \<open>Rolls\<close>

text \<open>What a roll does before it commits: at most one row, and the reservations waiting for its user.\<close>

definition rolls_on :: "datetime \<Rightarrow> roll_request \<Rightarrow> appearance option \<Rightarrow> db \<Rightarrow> db \<Rightarrow> bool" where
  "rolls_on now req a db db' \<longleftrightarrow> reservation_step\<^sup>*\<^sup>* db db' \<and>
     group_roast_refill_requests db' = group_roast_refill_requests db \<and>
     daily_report_deliveries db' = daily_report_deliveries db \<and>
     (daily_rolls db' = daily_rolls db \<or> get_daily_roll (gc_date_str req) (gc_user_id req) db = None \<and>
        (\<exists>p. daily_rolls db' = daily_rolls db @ [created_roll now req a p]))"

lemma rolls_onI: "gathers_on db db' \<Longrightarrow> rolls_on now req a db db'"
  by (simp add: rolls_on_def footprint_def)

lemma rolls_on_trans: "rolls_on now req a db db1 \<Longrightarrow> gathers_on db1 db2 \<Longrightarrow> rolls_on now req a db db2"
  by (auto simp: rolls_on_def footprint_def)

lemma rolls_insert:
  assumes "insert_roll t now req a db = Inr (db1, roll)"
  shows "rolls_on now req a db db1"
proof -
  define db0 where "db0 = fst (apply_created_roll_progress t now (gc_user_id req) (gc_proposed_pig_id req) db)"
  obtain p where none: "get_daily_roll (gc_date_str req) (gc_user_id req) db = None"
    and db1: "db1 = db0\<lparr>daily_rolls := daily_rolls db0 @ [created_roll now req a p]\<rparr>"
    using assms by (auto simp: insert_roll_def Let_def case_prod_unfold db0_def split: if_splits)
  have "footprint db0 = footprint db" by (simp add: db0_def)
  with none show ?thesis by (auto simp: rolls_on_def db1 footprint_def intro!: r_into_rtranclp reservation_step.other)
qed

lemma makeup_parts:
  assumes "makeup_once t now identity req seen db = Inr (db', resp)"
  shows "rolls_on now req (Some \<lparr>ap_is_makeup = True, ap_payload = None\<rparr>) db db'"
proof -
  consider r where "makeup_known t now identity r db = Inr (db', resp)" | "makeup_create t now identity req db = Inr (db', resp)"
    using assms by (auto simp: makeup_once_def split: option.splits sum.splits error.splits if_splits)
  then show ?thesis
  proof cases
    case 1
    then show ?thesis by (auto simp: makeup_known_def split: sum.splits dest!: gathers_counts intro: rolls_onI)
  next
    case 2
    then show ?thesis by (auto simp: makeup_create_def split: sum.splits dest!: gathers_counts rolls_insert intro: rolls_on_trans)
  qed
qed

lemma get_or_create_parts:
  assumes "get_or_create_once t now identity others req seen db = Inr (db', resp)"
  obtains (known) "gathers_on db db'"
  | (reconciled) db1 pig where "rolls_on now req None db db1"
      "db' = reconcile_reservations_after_commit now (gc_date_str req) (gc_user_id req) pig (others db1)"
proof -
  consider (existing) r where "existing_roll t now identity others req r db = Inr (db', resp)"
    | (new) "create_roll t now identity others req db = Inr (db', resp)"
    using assms by (auto simp: get_or_create_once_def split: option.splits sum.splits error.splits)
  then show thesis
  proof cases
    case existing
    show ?thesis
    proof (cases "is_makeup r")
      case True
      with existing show ?thesis by (intro known) (auto simp: existing_roll_def split: sum.splits dest!: gathers_counts)
    next
      case False
      with existing obtain db1 counts where db1: "record_key_mutation_outcome now identity ''POST /v1/daily-rolls/get-or-create'' counts
          (ensure_group_roll now (gc_group_id req) (gc_user_id req) (dr_pig_id r) (gc_date_str req) db) = Inr db1"
        and db': "db' = reconcile_reservations_after_commit now (gc_date_str req) (gc_user_id req) (dr_pig_id r) (others db1)"
        by (auto simp: existing_roll_def Let_def split: sum.splits)
      from footprint_counts(2) [OF db1] have "footprint db1 = footprint db" by simp
      from reconciled [OF rolls_onI [OF gathers_footprint [OF this]] db'] show ?thesis .
    qed
  next
    case new
    then obtain db1 roll db4 counts where ins: "insert_roll t now req None db = Inr (db1, roll)"
      and counts: "record_key_mutation_outcome now identity ''POST /v1/daily-rolls/get-or-create'' counts
        (fst (activate_target_reservations now (gc_date_str req) (gc_user_id req) (gc_proposed_pig_id req) []
          (ensure_group_roll now (gc_group_id req) (gc_user_id req) (gc_proposed_pig_id req) (gc_date_str req) db1))) = Inr db4"
      and db': "db' = reconcile_reservations_after_commit now (gc_date_str req) (gc_user_id req) (gc_proposed_pig_id req) (others db4)"
      by (auto simp: create_roll_def Let_def split: sum.splits)
    have activated: "gathers_on x (fst (activate_target_reservations now d u p [] x))" for x d u p
      by (simp add: r_into_rtranclp reservation_step.arrival)
    have "gathers_on db1 (ensure_group_roll now g u p d db1)" for g u p d by (rule gathers_footprint) simp
    from gathers_on_trans [OF gathers_on_trans [OF this activated] gathers_counts [OF counts]]
    have "rolls_on now req None db db4" by (rule rolls_on_trans [OF rolls_insert [OF ins]])
    from reconciled [OF this db'] show ?thesis .
  qed
qed

subsection \<open>Refill and report routes\<close>

definition beside_refills :: "db \<Rightarrow> (roast_reservation list \<times> roast_reservation_participant list) \<times> daily_report_delivery list \<times> daily_roll list" where
  "beside_refills db = (gatherings db, daily_report_deliveries db, daily_rolls db)"

definition beside_reports :: "db \<Rightarrow> (roast_reservation list \<times> roast_reservation_participant list) \<times> group_roast_refill_request list \<times> daily_roll list" where
  "beside_reports db = (gatherings db, group_roast_refill_requests db, daily_rolls db)"

lemmas beside_defs = beside_refills_def beside_reports_def footprint_def

lemma beside_refills_rows [simp]:
  "beside_refills (set_refill i f db) = beside_refills db" "beside_refills (reset_roast_charges us n e db) = beside_refills db"
  by (simp_all add: set_refill_def reset_roast_charges_def beside_defs)

lemma beside_refills_prepare: "prepare_refill req clock fresh db = Inr (db', resp) \<Longrightarrow> beside_refills db' = beside_refills db"
proof -
  have opened: "open_refill req now fresh policy db = Inr (db', resp) \<Longrightarrow> beside_refills db' = beside_refills db" for now policy db
    by (auto simp: open_refill_def insert_refill_def beside_defs Let_def case_prod_unfold split: if_splits)
  assume "prepare_refill req clock fresh db = Inr (db', resp)"
  then show ?thesis by (auto simp: prepare_refill_def Let_def split: option.splits if_splits dest!: opened)
qed

lemma beside_refills_kept [simp]:
  "beside_refills (fst (bind_refill_message i m ts clock db)) = beside_refills db"
  "beside_refills (fst (get_active_refill d g ts clock db)) = beside_refills db"
  "beside_refills (fst (fail_refill i m reason db)) = beside_refills db"
  "beside_refills (fst (complete_refill creq clock db)) = beside_refills db"
  by (simp_all add: bind_refill_message_def get_active_refill_def fail_refill_def complete_refill_def Let_def case_prod_unfold split: option.split)

lemma beside_reports_rows [simp]:
  "beside_reports (fst (update_deliveries P f db)) = beside_reports db"
  "beside_reports (fst (fail_delivery_if_unchanged row reason db)) = beside_reports db"
  by (simp_all add: update_deliveries_def fail_delivery_if_unchanged_def beside_defs Let_def case_prod_unfold)

lemma beside_reports_turn [simp]:
  "beside_reports (fst (claim_row now req sender t row db)) = beside_reports db"
  "beside_reports (fst (transition_row now tr row db)) = beside_reports db"
  by (simp_all add: claim_row_def transition_row_def Let_def case_prod_unfold)

lemma beside_reports_transition [simp]: "beside_reports (fst (transition_daily_report now tr seen db)) = beside_reports db"
  by (simp add: transition_daily_report_def split: option.split)

lemma beside_reports_claim:
  assumes "claim_reports_at now fresh req seen read db = Inr (db', resp)"
  shows "beside_reports db' = beside_reports db"
proof -
  have all: "beside_reports (fst (claim_all now req cs fresh rows db)) = beside_reports db" for cs rows db
    by (induction rows arbitrary: db) (simp_all add: Let_def case_prod_unfold)
  have "beside_reports (db\<lparr>daily_report_deliveries := ds\<rparr>) = beside_reports db" for ds by (simp add: beside_defs)
  with assms all show ?thesis by (auto simp: claim_reports_at_def Let_def case_prod_unfold split: if_splits)
qed

lemma report_step_unique:
  "report_step db db' \<Longrightarrow> unique_on delivery_key (daily_report_deliveries db) \<Longrightarrow> unique_on delivery_key (daily_report_deliveries db')"
proof (induction rule: report_step.induct)
  case (transition db now tr row)
  then show ?case unfolding transition_row_def Let_def case_prod_unfold
    by (simp add: unique_update_deliveries unique_fail)
next
  case (claim db now req sender t row)
  then show ?case by (rule unique_claim_row)
next
  case (insert_row d g db c)
  then show ?case by (auto simp: unique_on_append1 get_delivery_def one_or_none_None_iff delivery_key_def new_delivery_def)
qed simp

subsection \<open>The steps\<close>

text \<open>
  One rule per route that writes; a route with two transactions (\<open>gather\<close>, \<open>roll\<close>) lets
  any steps happen between them. The arguments are arbitrary, also those the request class would
  reject, but for the snapshot, whose limits matter here. Reading routes change nothing.
\<close>

inductive service_step :: "db \<Rightarrow> db \<Rightarrow> bool" where
  charge: "service_step db (fst (consume_roast_usage u ts cd mc clock db))"
| force: "service_step db (fst (consume_force_usage u d db))"
| active: "service_step db (mark_group_active_users now d g us db)"
| refill: "prepare_refill req clock fresh db = Inr (db', resp) \<Longrightarrow> service_step db db'"
| bind_refill: "service_step db (fst (bind_refill_message i m ts clock db))"
| active_refill: "service_step db (fst (get_active_refill d g ts clock db))"
| fail_refill: "service_step db (fst (fail_refill i m reason db))"
| complete_refill: "service_step db (fst (complete_refill creq clock db))"
| event: "create_event_once t now race ereq identity db = Inr (db', fed) \<Longrightarrow> service_step db db'"
| message: "service_step db (fst (bind_message mreq db))"
| reply: "join_by_message_once now fresh rreq db = Inr (db', answered) \<Longrightarrow> service_step db db'"
| unrolled: "unrolled_attempt_once d u raced db = Inr (db', n) \<Longrightarrow> service_step db db'"
| gather: "prepare_reservation preq expected now fresh db = Inr (db1, prepared) \<Longrightarrow> service_step\<^sup>*\<^sup>* db1 db2 \<Longrightarrow>
    service_step db (fst (settle_activation preq now prepared db2))"
| claim: "service_step db (fst (claim now fresh_claim fresh_notice lreq db))"
| notice: "service_step db (fst (transition_waiting_notice now i token action db))"
| outcome: "prepare_outcome_once t now races oreq db = Inr (db', mutated) \<Longrightarrow> service_step db db'"
| old_outcome: "service_step db (fst (save_outcome oreq db))"
| sending: "service_step db (fst (mark_sending i token db))"
| complete: "service_step db (fst (complete now i token logged db))"
| release: "service_step db (fst (release i token db))"
| grant: "grant_once now identity greq db = Inr (db', granted) \<Longrightarrow> service_step db db'"
| replace: "replace_group_once now identity greqs db = Inr db' \<Longrightarrow> service_step db db'"
| report: "claim_reports_at now tokens dreq seen read db = Inr (db', items) \<Longrightarrow> service_step db db'"
| reported: "service_step db (fst (transition_daily_report now tr seen db))"
| roll: "get_or_create_once t now identity others grequest seen db = Inr (db', found) \<Longrightarrow> (\<And>x. service_step\<^sup>*\<^sup>* x (others x)) \<Longrightarrow>
    service_step db db'"
| makeup: "makeup_once t now identity grequest seen db = Inr (db', found) \<Longrightarrow> service_step db db'"
| snapshot: "accept_snapshot_request raw_snapshot = Inr snap \<Longrightarrow>
    complete_daily_roll_snapshot now identity snap db = Inr (db', shown) \<Longrightarrow> service_step db db'"
| seen: "mark_seen now identity g u pig d db = Inr db' \<Longrightarrow> service_step db db'"
| counted: "service_step db (record_key_request now key m op code db)"

subsection \<open>What every step keeps\<close>

definition rolls_wf :: "db \<Rightarrow> bool" where
  "rolls_wf db \<longleftrightarrow> unique_on daily_roll_key (daily_rolls db) \<and> (\<forall>r\<in>set (daily_rolls db). good_appearance r)"

text \<open>A roll stays, with its pig.\<close>

definition roll_effect :: "db \<Rightarrow> db \<Rightarrow> bool" where
  "roll_effect db db' \<longleftrightarrow> rolls_wf db' \<and>
     (\<forall>r\<in>set (daily_rolls db). \<exists>r'\<in>set (daily_rolls db'). daily_roll_key r' = daily_roll_key r \<and> dr_pig_id r' = dr_pig_id r)"

definition advances :: "db \<Rightarrow> db \<Rightarrow> bool" where
  "advances db db' \<longleftrightarrow> reservation_step\<^sup>*\<^sup>* db db' \<and> refill_step\<^sup>*\<^sup>* db db' \<and> report_step\<^sup>*\<^sup>* db db' \<and>
     (rolls_wf db \<longrightarrow> roll_effect db db')"

lemma roll_effect_same: "rolls_wf db \<Longrightarrow> daily_rolls db' = daily_rolls db \<Longrightarrow> roll_effect db db'"
  by (auto simp: roll_effect_def rolls_wf_def)

lemma roll_effect_trans: "roll_effect db db1 \<Longrightarrow> roll_effect db1 db2 \<Longrightarrow> roll_effect db db2"
  unfolding roll_effect_def by metis

lemma advances_trans: "advances db db1 \<Longrightarrow> advances db1 db2 \<Longrightarrow> advances db db2"
  unfolding advances_def by (metis roll_effect_def roll_effect_trans rtranclp_trans)

lemma advances_steps: "(\<lambda>x y. service_step x y \<and> advances x y)\<^sup>*\<^sup>* db db' \<Longrightarrow> advances db db'"
proof (induction rule: rtranclp_induct)
  case base
  then show ?case by (simp add: advances_def roll_effect_same)
qed (blast intro: advances_trans)

lemma advances_gathers: "gathers_on db db' \<Longrightarrow> advances db db'"
  by (auto simp: advances_def footprint_def intro!: r_into_rtranclp refill_step.other report_step.other roll_effect_same)

lemma advances_footprint: "footprint db' = footprint db \<Longrightarrow> advances db db'"
  by (rule advances_gathers, rule gathers_footprint)

lemma advances_refill: "refill_step db db' \<Longrightarrow> beside_refills db' = beside_refills db \<Longrightarrow> advances db db'"
  by (auto simp: advances_def beside_defs intro!: r_into_rtranclp reservation_step.other report_step.other roll_effect_same)

lemma advances_report: "report_step\<^sup>*\<^sup>* db db' \<Longrightarrow> beside_reports db' = beside_reports db \<Longrightarrow> advances db db'"
  by (auto simp: advances_def beside_defs intro!: roll_effect_same r_into_rtranclp [of refill_step] r_into_rtranclp [of reservation_step]
      reservation_step.other refill_step.other)

lemma advances_rolls:
  assumes "rolls_on now req a db db'" and "a \<in> {None, Some \<lparr>ap_is_makeup = True, ap_payload = None\<rparr>}"
  shows "advances db db'"
proof -
  have "roll_effect db db'" if wf: "rolls_wf db"
  proof (cases "daily_rolls db' = daily_rolls db")
    case False
    with assms(1) obtain p where none: "get_daily_roll (gc_date_str req) (gc_user_id req) db = None"
      and rolls: "daily_rolls db' = daily_rolls db @ [created_roll now req a p]" by (auto simp: rolls_on_def)
    have "daily_roll_key (created_roll now req a p) = (gc_date_str req, gc_user_id req)"
      by (simp add: created_roll_def daily_roll_key_def)
    with none have "unique_on daily_roll_key (daily_rolls db')" using wf
      by (auto simp: rolls unique_on_append1 rolls_wf_def get_daily_roll_def one_or_none_None_iff)
    with wf created_roll_good [OF assms(2)] show ?thesis
      by (auto simp: roll_effect_def rolls_wf_def rolls intro!: bexI)
  qed (use wf in \<open>rule roll_effect_same\<close>)
  with assms(1) show ?thesis
    by (auto simp: advances_def rolls_on_def intro!: r_into_rtranclp [of refill_step] r_into_rtranclp [of report_step]
        refill_step.other report_step.other)
qed

lemma snapshot_rows:
  assumes "complete_daily_roll_snapshot now identity snap db = Inr (db', shown)"
  obtains (kept) "footprint db' = footprint db"
  | (stored) makeup where "group_roast_refill_requests db' = group_roast_refill_requests db" "daily_report_deliveries db' = daily_report_deliveries db"
      "gatherings db' = gatherings db"
      "daily_rolls db' = upd_rows (\<lambda>r. daily_roll_key r = (sn_date_str snap, sn_user_id snap))
        (\<lambda>r. r\<lparr>dr_resource_version := Some (sn_resource_version snap), dr_appearance_snapshot := Some (snapshot_of makeup snap)\<rparr>)
        (daily_rolls db)"
proof -
  let ?stored = "\<lambda>makeup. db\<lparr>daily_rolls := upd_rows (\<lambda>r. daily_roll_key r = (sn_date_str snap, sn_user_id snap))
      (\<lambda>r. r\<lparr>dr_resource_version := Some (sn_resource_version snap), dr_appearance_snapshot := Some (snapshot_of makeup snap)\<rparr>)
      (daily_rolls db)\<rparr>"
  let ?counts = "record_key_mutation_outcome now identity ''PUT /v1/daily-rolls/snapshot''"
  from assms consider counts where "?counts counts db = Inr db'" | makeup counts where "?counts counts (?stored makeup) = Inr db'"
    by (fastforce simp: complete_daily_roll_snapshot_def Let_def split: option.splits if_splits sum.splits)
  then show thesis
  proof cases
    case 1
    with kept show ?thesis by (simp add: footprint_counts(2))
  next
    case (2 makeup)
    from footprint_counts(2) [OF 2] show ?thesis by (intro stored [of makeup]) (auto simp: footprint_def)
  qed
qed

lemma advances_snapshot:
  assumes "accept_snapshot_request raw = Inr snap" and "complete_daily_roll_snapshot now identity snap db = Inr (db', shown)"
  shows "advances db db'"
  using assms(2)
proof (cases rule: snapshot_rows)
  case kept
  then show ?thesis by (rule advances_footprint)
next
  case (stored makeup)
  let ?P = "\<lambda>r. daily_roll_key r = (sn_date_str snap, sn_user_id snap)"
  let ?f = "\<lambda>r. r\<lparr>dr_resource_version := Some (sn_resource_version snap), dr_appearance_snapshot := Some (snapshot_of makeup snap)\<rparr>"
  have key: "daily_roll_key (?f r) = daily_roll_key r" for r by (simp add: daily_roll_key_def)
  have good: "good_appearance (?f r)" for r
    using accepted_snapshot [OF assms(1)] by (auto simp: good_appearance_def snapshot_of_def str_or_def sized_def)
  have "roll_effect db db'" if wf: "rolls_wf db"
  proof -
    have "unique_on daily_roll_key (daily_rolls db')" using wf key by (auto simp: stored(4) rolls_wf_def intro: unique_on_upd)
    moreover have "\<forall>r\<in>set (daily_rolls db'). good_appearance r" using wf good by (auto simp: stored(4) rolls_wf_def set_upd_rows)
    moreover have "\<exists>r'\<in>set (daily_rolls db'). daily_roll_key r' = daily_roll_key r \<and> dr_pig_id r' = dr_pig_id r"
      if "r \<in> set (daily_rolls db)" for r
      using that key by (intro bexI [of _ "if ?P r then ?f r else r"]) (auto simp: stored(4) set_upd_rows)
    ultimately show ?thesis by (simp add: roll_effect_def rolls_wf_def)
  qed
  with stored(1-3) show ?thesis
    by (auto simp: advances_def footprint_def intro!: r_into_rtranclp reservation_step.other refill_step.other report_step.other)
qed

lemma advances_event: "create_event_once t now race ereq identity db = Inr (db', fed) \<Longrightarrow> advances db db'"
proof (rule advances_footprint)
  assume run: "create_event_once t now race ereq identity db = Inr (db', fed)"
  define db1 where "db1 = fst (record_roast_event_with_status now ereq None db)"
  have "footprint db1 = footprint db" by (simp add: db1_def)
  with run show "footprint db' = footprint db"
    by (auto simp: create_event_once_def Let_def case_prod_unfold db1_def [symmetric] split: sum.splits if_splits
        dest!: footprint_counts(2) footprint_feed)
qed

lemma gathers_settle: "gathers_on db (fst (settle_activation req now resp db))"
  by (auto simp: settle_activation_def Let_def intro!: r_into_rtranclp reservation_step.recheck)

lemma advances_gathering:
  "prepare_reservation req expected now fresh db = Inr (db', resp) \<Longrightarrow> advances db db'"
  "join_by_message_once now fresh rreq db = Inr (db', resp) \<Longrightarrow> advances db db'"
  "prepare_outcome_once t now races oreq db = Inr (db', mutated) \<Longrightarrow> advances db db'"
  by (rule advances_gathers,
      blast intro: reservation_step.prepare reservation_step.join reservation_step.outcome
        dest: bystanders_prepare bystanders_reply bystanders_outcome)+

lemma advances_delivery:
  "advances db (fst (claim now fresh fresh_notice creq db))" "advances db (fst (transition_waiting_notice now i token action db))"
  "advances db (fst (save_outcome oreq db))" "advances db (fst (mark_sending i token db))"
  "advances db (fst (complete now i token logged db))" "advances db (fst (release i token db))"
  by (rule advances_gathers,
      simp add: r_into_rtranclp reservation_step.claim reservation_step.notice reservation_step.old_outcome
        reservation_step.sending reservation_step.complete reservation_step.release)+

lemma advances_votes:
  "prepare_refill preq clock fresh db = Inr (db', resp) \<Longrightarrow> advances db db'"
  by (rule advances_refill [OF refill_step.prepare beside_refills_prepare])

lemma advances_vote [simp]:
  "advances db (fst (bind_refill_message i m ts clock db))" "advances db (fst (get_active_refill d g ts clock db))"
  "advances db (fst (fail_refill i m reason db))" "advances db (fst (complete_refill creq clock db))"
  by (rule advances_refill, auto intro: refill_step.bind refill_step.get_active refill_step.fail refill_step.complete
      prod.collapse [symmetric])+

lemma advances_reports:
  "claim_reports_at now tokens dreq seen read db = Inr (db', items) \<Longrightarrow> advances db db'"
  by (rule advances_report [OF claim_reports_at_steps beside_reports_claim])

lemma advances_reported: "advances db (fst (transition_daily_report now tr seen db))"
  by (rule advances_report, rule r_into_rtranclp, rule transition_report_step) simp

lemma advances_protections:
  "grant_once now identity greq db = Inr (db', granted) \<Longrightarrow> advances db db'"
  "replace_group_once now identity greqs db = Inr db' \<Longrightarrow> advances db db'"
  by (rule advances_gathers, erule gathers_grant gathers_replace)+

lemma advances_get_or_create:
  assumes "get_or_create_once t now identity others req seen db = Inr (db', found)" and "\<And>x. advances x (others x)"
  shows "advances db db'"
  using assms(1)
proof (cases rule: get_or_create_parts)
  case known
  then show ?thesis by (rule advances_gathers)
next
  case (reconciled db1 pig)
  have "advances (others db1) db'" unfolding reconciled(2) reconcile_reservations_after_commit_def
    by (rule advances_gathers) (simp add: r_into_rtranclp reservation_step.arrival)
  with advances_rolls [OF reconciled(1)] assms(2) [of db1] show ?thesis by (blast intro: advances_trans)
qed

lemma service_step_advances: "service_step db db' \<Longrightarrow> advances db db'"
proof (induction rule: service_step.induct)
  case (gather preq expected now fresh db db1 prepared db2)
  from advances_trans [OF advances_gathering(1) [OF gather(1)] advances_steps [OF gather(2)]]
  show ?case by (rule advances_trans) (rule advances_gathers [OF gathers_settle])
next
  case (roll t now identity others grequest seen db db' found)
  show ?case by (rule advances_get_or_create [OF roll(1)]) (rule advances_steps [OF roll(2)])
next
  case (seen now identity g u pig d db db')
  then show ?case by (intro advances_footprint) (auto simp: mark_seen_def Let_def dest!: footprint_counts(2))
qed (auto intro: advances_footprint advances_gathering advances_delivery advances_votes advances_reports advances_reported
      advances_snapshot advances_event advances_protections advances_rolls makeup_parts simp: footprint_messages footprint_counts)

lemma service_advances: "service_step\<^sup>*\<^sup>* db db' \<Longrightarrow> advances db db'"
proof (induction rule: rtranclp_induct)
  case base
  show ?case by (rule advances_footprint) simp
qed (blast intro: advances_trans service_step_advances)

text \<open>
  C15: The components keep their promises together. Whatever requests any bots send, in any order and
  with anything in between the transactions of one request, every reachable database satisfies the
  invariants of all components at once: the reservations and their participants, the refill
  votes, the report deliveries, one roll per user and date, its stored appearance safe to draw (a
  plain file name, levels ascending in 1 to 5, known fields in order). And from any such database on no request of any component makes a reservation, a vote, a delivery or a roll
  go back or disappear: each row only moves along its own life cycle.
\<close>

theorem service_keeps_promises:
  assumes "service_step\<^sup>*\<^sup>* empty_db db" and "service_step\<^sup>*\<^sup>* db db'"
  shows "reservations_wf db \<and> refills_wf db \<and> deliveries_wf db \<and> unique_on delivery_key (daily_report_deliveries db) \<and> rolls_wf db \<and>
    reservation_effect db db' \<and> refill_effect db db' \<and> roll_effect db db' \<and>
    (\<forall>k j. job_of k db = Some j \<longrightarrow> (\<exists>j'. job_of k db' = Some j' \<and> job_move\<^sup>*\<^sup>* j j'))"
proof -
  have first: "advances empty_db db" and later: "advances db db'" using assms by (blast intro: service_advances)+
  have wf: "refills_wf empty_db" "deliveries_wf empty_db" "rolls_wf empty_db" "unique_on delivery_key (daily_report_deliveries empty_db)"
    by (simp_all add: empty_db_def refills_wf_def deliveries_wf_def rolls_wf_def)
  have reservations: "reservations_wf db" by (rule reachable_wf) (use first in \<open>simp add: advances_def\<close>)
  have refills: "refills_wf db" using first refill_steps_effect [OF _ wf(1)] by (auto simp: advances_def refill_effect_def)
  have rolls: "rolls_wf db" using first wf(3) by (auto simp: advances_def roll_effect_def)
  have "report_step\<^sup>*\<^sup>* empty_db db" using first by (simp add: advances_def)
  then have "deliveries_wf db \<and> unique_on delivery_key (daily_report_deliveries db)"
  proof (induction rule: rtranclp_induct)
    case (step db1 db2)
    then show ?case by (blast intro: report_step_wf report_step_unique)
  qed (use wf in blast)
  moreover have "\<exists>j'. job_of k db' = Some j' \<and> job_move\<^sup>*\<^sup>* j j'" if "job_of k db = Some j" for k j
  proof -
    from that obtain r where r: "get_delivery k db = Some r" "j = job r" by (auto simp: job_of_def)
    have "report_step\<^sup>*\<^sup>* db db'" using later by (simp add: advances_def)
    from report_steps_Some [OF this r(1)] r(2) show ?thesis by (metis job_of_def option.simps(9))
  qed
  ultimately show ?thesis
    using reservations refills rolls later reservation_steps_effect [OF _ reservations] refill_steps_effect [OF _ refills]
    by (auto simp: advances_def)
qed

theorem service_keeps_promises_witness:
  "roll_effect drawn_db pictured_db \<and> rolls_wf drawn_db \<and> daily_rolls drawn_db \<noteq> []"
proof -
  have run1: "\<not> isl (get_or_create_once ''t'' 7 None (\<lambda>db. db) sample_roll_request empty_db empty_db)" by code_simp
  have run2: "\<not> isl (complete_daily_roll_snapshot 8 None sample_snapshot drawn_db)" by code_simp
  have accepted: "accept_snapshot_request sample_snapshot = Inr sample_snapshot" by code_simp
  have "service_step empty_db drawn_db" unfolding drawn_db_def
    by (rule service_step.roll [OF right_projr [OF run1]]) simp
  moreover have "service_step drawn_db pictured_db" unfolding pictured_db_def
    by (rule service_step.snapshot [OF accepted right_projr [OF run2]])
  moreover have "daily_rolls drawn_db \<noteq> []" by code_simp
  ultimately show ?thesis using service_keeps_promises [OF r_into_rtranclp r_into_rtranclp] by blast
qed

end
