(* ===== verification/Startup.thy ===== *)
theory Startup
  imports SchemaUpgrade Keys
begin

section \<open>Starting up and the charge migration tool (\<^verbatim>\<open>db.py\<close>, \<^verbatim>\<open>main.py\<close>, \<^verbatim>\<open>tools/migrate_roast_charges.py\<close>)\<close>

text \<open>
  What \<open>init_db\<close> does to the schema: SQLAlchemy creates the missing tables of the models, then the
  upgrade of \<^verbatim>\<open>migrations.py\<close> runs. \<open>create_all\<close> is SQLAlchemy's and a parameter;
  \<open>creates_missing\<close> says what its documentation promises. The application runs \<open>init_db\<close> when
  it starts; the charge migration tool runs it by hand and prints which database it was.
\<close>

subsection \<open>The routines\<close>

text \<open>The \<open>__tablename__\<close>s, in the order of \<^verbatim>\<open>models.py\<close>.\<close>

definition MODEL_TABLES :: "string list" where
  "MODEL_TABLES =
     [''daily_rolls'', ''group_rolls'', ''collections'', ''user_pig_progress'', ''user_daily_feeds'', ''user_draw_state'',
      ''user_usage'', ''source_key_identities'', ''source_key_daily_usage'', ''roast_events'', ''group_protections'',
      ''unrolled_roast_attempts'', ''roast_reservations'', ''roast_reservation_messages'', ''roast_reservation_participants'',
      ''daily_report_deliveries'', ''group_daily_active_users'', ''group_roast_refill_requests'']"

definition init_db :: "unit action \<Rightarrow> dialect \<Rightarrow> unit action" where
  "init_db create_all dialect = andthen create_all (\<lambda>_. upgrade_schema dialect True)"

definition on_startup :: "unit action \<Rightarrow> dialect \<Rightarrow> unit action" where
  "on_startup create_all dialect = init_db create_all dialect"

text \<open>The line the tool prints is its value.\<close>

definition migrate_roast_charges :: "unit action \<Rightarrow> dialect \<Rightarrow> string \<Rightarrow> string action" where
  "migrate_roast_charges create_all dialect database_url = andthen (init_db create_all dialect)
     (\<lambda>_ e w. (Inr (''migrate roast charges done: database='' @ last (split_on (CHR 0x40) database_url)), w))"

subsection \<open>What creating the tables promises\<close>

text \<open>The other instances create no table, so a table that was looked for is not created twice.\<close>

definition no_new_tables :: "environment \<Rightarrow> bool" where
  "no_new_tables e \<longleftrightarrow> (\<forall>n s t. has_table t (en_others e n s) \<longrightarrow> has_table t s)"

text \<open>The reservations are never without a unique constraint.\<close>

definition guarded :: "schema \<Rightarrow> bool" where
  "guarded s \<longleftrightarrow> (has_table ''roast_reservations'' s \<longrightarrow> constrained s)"

text \<open>
  Existing tables are left as they are, the lock is not touched; when it returns, every table of the
  models is there, the constraint of the reservations included; and it returns when no
  statement fails and nobody else creates tables.
\<close>

definition creates_missing :: "dialect \<Rightarrow> unit action \<Rightarrow> bool" where
  "creates_missing dialect create_all \<longleftrightarrow> (\<forall>e w. friendly e \<longrightarrow>
     (let (r, w') = create_all e w
      in preserves (w_schema w) (w_schema w') \<and> w_locked w' = w_locked w \<and>
         (r = Inr () \<longrightarrow> (\<forall>t\<in>set MODEL_TABLES. has_table t (w_schema w'))) \<and>
         (calm dialect e \<and> no_new_tables e \<longrightarrow> r = Inr () \<and> (guarded (w_schema w) \<longrightarrow> constrained (w_schema w')))))"

lemma creates_missingD:
  assumes "creates_missing dialect create_all" and "friendly e" and "create_all e w = (r, w')"
  shows "preserves (w_schema w) (w_schema w') \<and> w_locked w' = w_locked w"
    and "r = Inr () \<Longrightarrow> \<forall>t\<in>set MODEL_TABLES. has_table t (w_schema w')"
    and "calm dialect e \<Longrightarrow> no_new_tables e \<Longrightarrow> r = Inr () \<and> (guarded (w_schema w) \<longrightarrow> constrained (w_schema w'))"
proof -
  have "let (r, w') = create_all e w
      in preserves (w_schema w) (w_schema w') \<and> w_locked w' = w_locked w \<and>
         (r = Inr () \<longrightarrow> (\<forall>t\<in>set MODEL_TABLES. has_table t (w_schema w'))) \<and>
         (calm dialect e \<and> no_new_tables e \<longrightarrow> r = Inr () \<and> (guarded (w_schema w) \<longrightarrow> constrained (w_schema w')))"
    using assms(1,2) unfolding creates_missing_def by blast
  then show "preserves (w_schema w) (w_schema w') \<and> w_locked w' = w_locked w"
    and "r = Inr () \<Longrightarrow> \<forall>t\<in>set MODEL_TABLES. has_table t (w_schema w')"
    and "calm dialect e \<Longrightarrow> no_new_tables e \<Longrightarrow> r = Inr () \<and> (guarded (w_schema w) \<longrightarrow> constrained (w_schema w'))"
    unfolding assms(3) by simp_all
qed

lemma unit_result: "r = Inr () \<or> (\<exists>x. r = Inl x)"
  by (cases r) auto

text \<open>
  C35: The application gets its database ready, beside other instances that start at the same
  time. Whatever they do and whatever fails, a start loses no table and no column the program uses,
  and gives its lock back; if it ends without an error, all tables of the models exist. If nothing
  fails, the lock is granted and no other instance creates tables just then, it ends without an
  error, from an empty database as well as from an old one, with every column that a newer
  version needs and the constraint of one open reservation in place of that of one per day.
\<close>

theorem init_db_completes:
  assumes "creates_missing dialect create_all" and "friendly e" and "\<not> w_locked w"
    and "on_startup create_all dialect e w = (r, w')"
  shows "\<not> w_locked w' \<and> preserves (w_schema w) (w_schema w') \<and>
    (r = Inr () \<longrightarrow> (\<forall>t\<in>set MODEL_TABLES. has_table t (w_schema w'))) \<and>
    (calm dialect e \<and> no_new_tables e \<and> whole (w_schema w) \<and> guarded (w_schema w) \<longrightarrow>
       r = Inr () \<and> has_columns (upgrade_targets MODEL_TABLES) (w_schema w') \<and>
       old_unique \<notin> set (sc_uniques (w_schema w')) \<and> new_unique \<in> set (sc_uniques (w_schema w')))"
proof -
  obtain r1 w1 where run: "create_all e w = (r1, w1)" by (metis surj_pair)
  note created = creates_missingD [OF assms(1,2) run]
  note start = assms(4) [unfolded on_startup_def init_db_def andthen_def run]
  show ?thesis
  proof (cases "r1 = Inr ()")
    case False
    then obtain x where "r1 = Inl x" using unit_result by blast
    with start created assms(3) show ?thesis by auto
  next
    case True
    with start have upgrade: "upgrade_schema dialect True e w1 = (r, w')" by simp
    have tables: "\<forall>t\<in>set MODEL_TABLES. has_table t (w_schema w1)" using created(2) True by blast
    have "\<not> w_locked w1" using created(1) assms(3) by simp
    note upgraded = schema_upgrade_completes [OF assms(2) this tables upgrade]
    from upgraded tables have "\<forall>t\<in>set MODEL_TABLES. has_table t (w_schema w')" by (meson preserves_table)
    moreover have "whole (w_schema w) \<Longrightarrow> whole (w_schema w1)" using created(1) by (simp add: preserves_def)
    moreover have "''roast_reservations'' \<in> set MODEL_TABLES" by (simp add: MODEL_TABLES_def)
    ultimately show ?thesis using upgraded created(1,3) preserves_trans by blast
  qed
qed

text \<open>An instance that starts alone on an empty database: the missing tables are created in one statement.\<close>

definition create_missing :: "unit action" where
  "create_missing = statement (\<lambda>s. (Inr (),
     \<lparr>sc_tables = sc_tables s @ map (\<lambda>t. (t, if t = ''roast_reservations'' then RESERVATION_COLUMNS else []))
        (filter (\<lambda>t. \<not> has_table t s) MODEL_TABLES),
      sc_uniques = (if has_table ''roast_reservations'' s then sc_uniques s else [new_unique])\<rparr>))"

lemma map_of_constant: "map_of (map (\<lambda>t. (t, f t)) ts) t = (if t \<in> set ts then Some (f t) else None)"
  by (induction ts) auto

lemma create_missing_creates: "creates_missing dialect create_missing"
  unfolding creates_missing_def
proof (intro allI impI)
  fix e :: environment and w :: world
  assume friendly: "friendly e"
  define f :: "schema \<Rightarrow> (schema_error + unit) \<times> schema" where "f = (\<lambda>s. (Inr (),
     \<lparr>sc_tables = sc_tables s @ map (\<lambda>t. (t, if t = ''roast_reservations'' then RESERVATION_COLUMNS else []))
        (filter (\<lambda>t. \<not> has_table t s) MODEL_TABLES),
      sc_uniques = (if has_table ''roast_reservations'' s then sc_uniques s else [new_unique])\<rparr>))"
  have table: "has_table t (snd (f s)) \<longleftrightarrow> has_table t s \<or> t \<in> set MODEL_TABLES" for t s
    by (auto simp: f_def has_table_def map_of_constant map_add_def split: option.splits)
  have reservations: "''roast_reservations'' \<in> set MODEL_TABLES" by (simp add: MODEL_TABLES_def)
  have column: "has_column t c (snd (f s)) \<longleftrightarrow> has_column t c s \<or>
      \<not> has_table t s \<and> t = ''roast_reservations'' \<and> c \<in> set RESERVATION_COLUMNS" for t c s
    using reservations by (auto simp: f_def has_column_def has_table_def map_of_constant map_add_def split: option.splits)
  have uniques: "sc_uniques (snd (f s)) = (if has_table ''roast_reservations'' s then sc_uniques s else [new_unique])" for s
    by (simp add: f_def)
  have kept: "preserves s (snd (f s))" for s
  proof (cases "has_table ''roast_reservations'' s")
    case True
    then show ?thesis unfolding preserves_def whole_def constrained_def table column uniques by simp
  next
    case False
    then show ?thesis unfolding preserves_def whole_def constrained_def table column uniques by simp
  qed
  have guarded: "guarded s \<Longrightarrow> constrained (snd (f s))" for s
    unfolding guarded_def constrained_def uniques by auto
  define s where "s = others_act e w"
  have others: "preserves (w_schema w) s" using others_act_preserves [OF friendly] by (simp add: s_def)
  have "has_table t s \<longrightarrow> has_table t (w_schema w)" if "no_new_tables e" for t
    using that by (simp add: no_new_tables_def s_def others_act_def Let_def)
  with others have quiet: "guarded s" if "no_new_tables e" "guarded (w_schema w)"
    using that by (simp add: guarded_def preserves_def)
  show "let (r, w') = create_missing e w
      in preserves (w_schema w) (w_schema w') \<and> w_locked w' = w_locked w \<and>
         (r = Inr () \<longrightarrow> (\<forall>t\<in>set MODEL_TABLES. has_table t (w_schema w'))) \<and>
         (calm dialect e \<and> no_new_tables e \<longrightarrow> r = Inr () \<and> (guarded (w_schema w) \<longrightarrow> constrained (w_schema w')))"
  proof (cases "en_failure e (w_statements w)")
    case None
    then have "create_missing e w = (Inr (), w\<lparr>w_schema := snd (f s), w_statements := Suc (w_statements w)\<rparr>)"
      unfolding create_missing_def f_def [symmetric] statement_def s_def [symmetric] by (simp add: f_def)
    then show ?thesis using preserves_trans [OF others kept] table quiet guarded by simp
  next
    case (Some x)
    then have "create_missing e w = (Inl x, w\<lparr>w_schema := s, w_statements := Suc (w_statements w)\<rparr>)"
      unfolding create_missing_def f_def [symmetric] statement_def s_def [symmetric] by simp
    then show ?thesis using others Some by (auto simp: calm_def)
  qed
qed

theorem init_db_completes_witness:
  "\<exists>e w w'. on_startup create_missing MySQL e w = (Inr (), w') \<and> sc_tables (w_schema w) = [] \<and>
     has_column ''roast_reservations'' ''active_slot'' (w_schema w') \<and> has_column ''user_usage'' ''roast_charges'' (w_schema w') \<and>
     new_unique \<in> set (sc_uniques (w_schema w'))"
proof -
  define e where "e = \<lparr>en_others = \<lambda>n s. s, en_failure = \<lambda>n. None, en_lock = Some 1\<rparr>"
  define w where "w = \<lparr>w_schema = \<lparr>sc_tables = [], sc_uniques = []\<rparr>, w_statements = 0, w_locked = False\<rparr>"
  obtain r w' where run: "on_startup create_missing MySQL e w = (r, w')" by (metis surj_pair)
  have "friendly e" "calm MySQL e" "no_new_tables e" "\<not> w_locked w"
    by (simp_all add: friendly_def calm_def no_new_tables_def e_def w_def)
  moreover have "whole (w_schema w)" "guarded (w_schema w)" by (simp_all add: w_def whole_def guarded_def has_table_def)
  ultimately have ready: "r = Inr ()" "has_columns (upgrade_targets MODEL_TABLES) (w_schema w')" "new_unique \<in> set (sc_uniques (w_schema w'))"
    using init_db_completes [OF create_missing_creates _ _ run] by simp_all
  have "AddColumn ''roast_reservations'' ''active_slot'' \<in> set (upgrade_targets MODEL_TABLES)"
    "AddColumn ''user_usage'' ''roast_charges'' \<in> set (upgrade_targets MODEL_TABLES)" by code_simp+
  with ready(2) have "has_column ''roast_reservations'' ''active_slot'' (w_schema w')"
    "has_column ''user_usage'' ''roast_charges'' (w_schema w')" by (auto simp: has_columns_def)
  with ready(1,3) run show ?thesis by (intro exI [of _ e] exI [of _ w] exI [of _ w']) (simp add: w_def)
qed

subsection \<open>What the tool prints\<close>

lemma last_split:
  assumes "c \<notin> set host"
  shows "last (split_on c (prefix @ c # host)) = host"
proof -
  have "\<exists>u us. split_on c (prefix @ c # host) = u # us @ [host]"
    using assms by (induction prefix) (force simp: split_on_absent)+
  then show ?thesis by force
qed

lemma printed_without_credentials:
  assumes "migrate_roast_charges create_all dialect (prefix @ CHR 0x40 # host) e w = (Inr line, w')" and "CHR 0x40 \<notin> set host"
  shows "line = ''migrate roast charges done: database='' @ host"
  using assms last_split [of "CHR 0x40" host prefix]
  by (auto simp: migrate_roast_charges_def andthen_def split: prod.splits sum.splits)

end
