(* ===== verification/Connections.thy ===== *)
theory Connections
  imports Main
begin

section \<open>Sessions and the pool of connections (\<^verbatim>\<open>db.py\<close>, \<^verbatim>\<open>services/key_usage.py\<close>)\<close>

text \<open>
  Every request has a session of its own, which \<open>get_session\<close> closes when the handler has
  returned, and the middleware counts the request in a second session afterwards. A session takes a
  connection from the engine's pool for its first statement and gives it back when its
  transaction ends or it is closed. A request that kept the first connection while waiting for the
  second could wait for ever; why the routes inject the session with \<open>scope="function"\<close> is what this theory shows.
  Of the pool only this is used: it has a fixed number of connections, and a request
  waits while none is free; who of several waiting requests is served is left open.
\<close>

subsection \<open>Sessions\<close>

text \<open>A statement, or the commit or rollback that ends the transaction.\<close>

datatype session_call = Statement | EndTransaction

datatype connection_step = Checkout | Checkin

text \<open>The connections an open session takes and returns; \<open>h\<close> says whether it has one.\<close>

fun session_use :: "bool \<Rightarrow> session_call list \<Rightarrow> connection_step list \<times> bool" where
  "session_use h [] = ([], h)"
| "session_use h (Statement # cs) = (let (p, h') = session_use True cs in ((if h then [] else [Checkout]) @ p, h'))"
| "session_use h (EndTransaction # cs) = (let (p, h') = session_use False cs in ((if h then [Checkin] else []) @ p, h'))"

definition close_session :: "bool \<Rightarrow> connection_step list" where
  "close_session h = (if h then [Checkin] else [])"

text \<open>\<open>try: yield session; finally: session.close()\<close>; the calls are those of the handler, up to its exception if it raises.\<close>

definition get_session :: "session_call list \<Rightarrow> connection_step list" where
  "get_session calls = (let (p, h) = session_use False calls in p @ close_session h)"

text \<open>The session of the access counters: both upserts and the commit, or the rollback once \<open>k\<close> statements were sent.\<close>

definition usage_session :: "nat option \<Rightarrow> connection_step list" where
  "usage_session failed_after =
     (let calls = (case failed_after of None \<Rightarrow> [Statement, Statement, EndTransaction] | Some k \<Rightarrow> replicate k Statement @ [EndTransaction]);
          (p, h) = session_use False calls
      in p @ close_session h)"

text \<open>
  A request is what its handler calls, and what becomes of its counters if its key is known.
  With the scope of the source the session is closed first; otherwise it would be after the counters.
\<close>

type_synonym request_use = "session_call list \<times> nat option option"

fun request_connections :: "request_use \<Rightarrow> connection_step list" where
  "request_connections (calls, usage) = get_session calls @ (case usage of None \<Rightarrow> [] | Some failed_after \<Rightarrow> usage_session failed_after)"

fun request_scope_connections :: "request_use \<Rightarrow> connection_step list" where
  "request_scope_connections (calls, usage) =
     (let (p, h) = session_use False calls
      in p @ (case usage of None \<Rightarrow> [] | Some failed_after \<Rightarrow> usage_session failed_after) @ close_session h)"

subsection \<open>The pool\<close>

text \<open>How many connections are free, and what each request has still to do.\<close>

type_synonym pool = "nat \<times> connection_step list list"

inductive pool_step :: "pool \<Rightarrow> pool \<Rightarrow> bool" where
  checkout: "pool_step (Suc free, ps @ (Checkout # p) # qs) (free, ps @ p # qs)"
| checkin: "pool_step (free, ps @ (Checkin # p) # qs) (Suc free, ps @ p # qs)"

fun holding :: "connection_step list \<Rightarrow> bool" where
  "holding (Checkin # p) = True"
| "holding p = False"

text \<open>One connection at a time, and none at the end.\<close>

fun tidy :: "bool \<Rightarrow> connection_step list \<Rightarrow> bool" where
  "tidy h [] = (\<not> h)"
| "tidy h (Checkout # p) = (\<not> h \<and> tidy True p)"
| "tidy h (Checkin # p) = (h \<and> tidy False p)"

lemma tidy_append: "tidy h p \<Longrightarrow> tidy False q \<Longrightarrow> tidy h (p @ q)"
  by (induction h p rule: tidy.induct) auto

lemma tidy_holding: "tidy h p \<Longrightarrow> holding p = h"
  by (cases "(h, p)" rule: tidy.cases) auto

lemma tidy_session: "session_use h calls = (p, h') \<Longrightarrow> tidy h (p @ close_session h')"
  by (induction h calls arbitrary: p rule: session_use.induct) (auto simp: close_session_def split: prod.splits if_splits)

lemma tidy_get_session: "tidy False (get_session calls)"
  by (auto simp: get_session_def tidy_session split: prod.splits)

lemma tidy_usage_session: "tidy False (usage_session failed_after)"
  by (auto simp: usage_session_def Let_def tidy_session split: prod.splits)

lemma tidy_request: "tidy False (request_connections r)"
  by (cases r) (auto intro: tidy_append tidy_get_session tidy_usage_session simp: tidy_get_session split: option.splits)

definition pool_ok :: "nat \<Rightarrow> pool \<Rightarrow> bool" where
  "pool_ok n s \<longleftrightarrow> (case s of (free, ps) \<Rightarrow>
     (\<forall>p\<in>set ps. tidy (holding p) p) \<and> free + length (filter holding ps) = n)"

definition work_left :: "pool \<Rightarrow> nat" where
  "work_left s = sum_list (map length (snd s))"

lemma pool_ok_step: "pool_step s s' \<Longrightarrow> pool_ok n s \<Longrightarrow> pool_ok n s'"
  by (induction rule: pool_step.induct) (auto simp: pool_ok_def tidy_holding)

lemma work_step: "pool_step s s' \<Longrightarrow> Suc (work_left s') = work_left s"
  by (induction rule: pool_step.induct) (simp_all add: work_left_def)

lemma pool_run: "(pool_step ^^ k) s s' \<Longrightarrow> pool_ok n s \<Longrightarrow> pool_ok n s' \<and> k + work_left s' = work_left s"
proof (induction k arbitrary: s')
  case (Suc k)
  then obtain s1 where "(pool_step ^^ k) s s1" "pool_step s1 s'" by auto
  with Suc pool_ok_step work_step [of s1 s'] show ?case by fastforce
qed simp

text \<open>Who holds a connection can go on; if nobody does, all are free.\<close>

lemma pool_moves:
  assumes "pool_ok n (free, ps)" and "0 < n" and "p \<in> set ps" and "p \<noteq> []"
  shows "\<exists>s'. pool_step (free, ps) s'"
proof (cases "\<exists>q\<in>set ps. holding q")
  case True
  then obtain q where "q \<in> set ps" "holding q" by blast
  then obtain q' where "Checkin # q' \<in> set ps" by (metis holding.elims(2))
  then obtain xs ys where "ps = xs @ (Checkin # q') # ys" by (meson split_list)
  then show ?thesis using checkin by blast
next
  case False
  then have "free = n" using assms(1) by (simp add: pool_ok_def)
  moreover obtain p' where "p = Checkout # p'" using False assms(3,4) by (metis connection_step.exhaust holding.simps(1) neq_Nil_conv)
  moreover obtain xs ys where "ps = xs @ p # ys" using assms(3) by (meson split_list)
  ultimately show ?thesis using checkout [of "n - 1" xs p' ys] assms(2) by auto
qed

subsection \<open>No request waits for ever\<close>

text \<open>
  C36: Whatever requests are served at once, however long their handlers are, whether they fail or
  raise and in whatever order the waiting ones get a connection, a pool of at least one connection
  serves them all: as long as one has something left to do, some request can go on, only finitely
  many steps are possible, every connection is free or held by exactly one request at any time, and
  when no step is left all requests are through and all connections are back.
\<close>

theorem connections_never_deadlock:
  assumes "0 < n" and "(pool_step ^^ k) (n, map request_connections requests) (free, ps)"
  shows "free + length (filter holding ps) = n \<and> k + sum_list (map length ps) = sum_list (map (length \<circ> request_connections) requests) \<and>
    ((\<exists>p\<in>set ps. p \<noteq> []) \<longrightarrow> (\<exists>s'. pool_step (free, ps) s')) \<and>
    ((\<forall>s'. \<not> pool_step (free, ps) s') \<longrightarrow> free = n \<and> (\<forall>p\<in>set ps. p = []))"
proof -
  have "\<not> holding (request_connections r)" for r using tidy_holding [OF tidy_request] by blast
  then have "pool_ok n (n, map request_connections requests)"
    using tidy_request by (auto simp: pool_ok_def filter_empty_conv simp del: request_connections.simps)
  from pool_run [OF assms(2) this] have ok: "pool_ok n (free, ps)"
    and steps: "k + sum_list (map length ps) = sum_list (map (length \<circ> request_connections) requests)"
    by (simp_all add: work_left_def)
  have moves: "(\<exists>p\<in>set ps. p \<noteq> []) \<longrightarrow> (\<exists>s'. pool_step (free, ps) s')" using pool_moves [OF ok assms(1)] by blast
  have count: "free + length (filter holding ps) = n" using ok by (simp add: pool_ok_def)
  have "free = n" if "\<forall>p\<in>set ps. p = []" proof -
    have "filter holding ps = []" using that by (auto simp: filter_empty_conv)
    with count show ?thesis by simp
  qed
  with count steps moves show ?thesis by blast
qed

text \<open>Two requests share one connection: a handler that commits and reads again, and one that fails, both counted.\<close>

theorem connections_never_deadlock_witness:
  "\<exists>s'. pool_step (0, [[Checkin, Checkout, Checkin, Checkout, Checkin], [Checkout, Checkin, Checkout, Checkin]]) s'"
proof -
  let ?requests = "[([Statement, EndTransaction, Statement], Some None), ([Statement, Statement], Some (Some 1))]"
  have all: "map request_connections ?requests =
      [] @ (Checkout # [Checkin, Checkout, Checkin, Checkout, Checkin]) # [[Checkout, Checkin, Checkout, Checkin]]" by code_simp
  have "pool_step (Suc 0, map request_connections ?requests)
      (0, [] @ [Checkin, Checkout, Checkin, Checkout, Checkin] # [[Checkout, Checkin, Checkout, Checkin]])"
    unfolding all by (rule checkout)
  then have "(pool_step ^^ 1) (1, map request_connections ?requests)
      (0, [[Checkin, Checkout, Checkin, Checkout, Checkin], [Checkout, Checkin, Checkout, Checkin]])"
    by (simp only: relpowp_1 One_nat_def [symmetric] append_Nil)
  from connections_never_deadlock [OF zero_less_one this] show ?thesis by simp
qed

subsection \<open>Why the scope matters\<close>

lemma all_checkout: "(pool_step ^^ j) (free + j, ps @ replicate j (Checkout # p)) (free, ps @ replicate j p)"
proof (induction j arbitrary: ps)
  case (Suc j)
  have "pool_step (Suc (free + j), ps @ (Checkout # p) # replicate j (Checkout # p)) (free + j, ps @ p # replicate j (Checkout # p))"
    by (rule checkout)
  moreover have "(pool_step ^^ j) (free + j, ps @ p # replicate j (Checkout # p)) (free, ps @ p # replicate j p)"
    using Suc [of "ps @ [p]"] by simp
  ultimately have "(pool_step ^^ Suc j) (Suc (free + j), ps @ (Checkout # p) # replicate j (Checkout # p)) (free, ps @ p # replicate j p)"
    by (rule relpowp_Suc_I2)
  then show ?case by (simp del: relpowp.simps)
qed simp

text \<open>
  If the session were closed after the response, as many reads as there are connections would each hold one
  and wait for another to be counted, for ever.
\<close>

lemma request_scope_deadlocks:
  assumes "0 < n"
  shows "\<exists>ps. (pool_step ^^ n) (n, replicate n (request_scope_connections ([Statement], Some None))) (0, ps) \<and>
    (\<forall>p\<in>set ps. p \<noteq> []) \<and> (\<forall>s'. \<not> pool_step (0, ps) s')"
proof (intro exI conjI)
  let ?rest = "[Checkout, Checkin, Checkin]"
  have "request_scope_connections ([Statement], Some None) = Checkout # ?rest" by code_simp
  then show "(pool_step ^^ n) (n, replicate n (request_scope_connections ([Statement], Some None))) (0, replicate n ?rest)"
    using all_checkout [of n 0 "[]" ?rest] by simp
  show "\<forall>s'. \<not> pool_step (0, replicate n ?rest) s'"
  proof (intro allI notI)
    fix s' assume "pool_step (0, replicate n ?rest) s'"
    then obtain xs p ys where "replicate n ?rest = xs @ (Checkin # p) # ys" by (auto elim: pool_step.cases)
    then have "Checkin # p \<in> set (replicate n ?rest)" by simp
    then show False by simp
  qed
qed simp

end
