(* ===== verification/Replies.thy ===== *)
theory Replies
  imports Delivery
begin

section \<open>Binding notices to reservations (\<^verbatim>\<open>routers/roast_reservations.py\<close>)\<close>

text \<open>
  The bot tells the server which message announces which reservation, and who replies to the
  message joins that reservation. \<open>fault\<close> is what goes wrong in an attempt: a lock error at any
  statement, or \<open>IntegrityError\<close> at the insert when another request has bound the message meanwhile.
\<close>

definition capabilities :: "bool \<times> int" where
  "capabilities = (True, 2)"

definition bind_message_once :: "error option \<Rightarrow> roast_reservation_message \<Rightarrow> db \<Rightarrow> error + db \<times> bool" where
  "bind_message_once fault req db =
     (case fault of
        None \<Rightarrow> Inr (bind_message req db)
      | Some e \<Rightarrow>
          if e = IntegrityError \<and>
             (scoped_reservation (rm_reservation_id req) (rm_group_id req) (rm_date_str req) db = None \<or>
              find_message (rm_bot_id req) (rm_group_id req) (rm_message_id req) db \<noteq> None)
          then Inr (bind_message req db) else Inl e)"

definition bind_message_endpoint ::
  "dialect \<Rightarrow> (nat \<Rightarrow> nat \<Rightarrow> error option) \<Rightarrow> roast_reservation_message \<Rightarrow> (nat \<Rightarrow> nat \<Rightarrow> db) \<Rightarrow> error + db \<times> bool" where
  "bind_message_endpoint dialect faults req dbs =
     retry_message_transaction dialect (\<lambda>attempt k. bind_message_once (faults attempt k) req (dbs attempt k))"

text \<open>A new reservation is of the gathering version that the server announces.\<close>

lemma capabilities_kept:
  "rq_supports_protection_gathering req \<Longrightarrow> rq_protection_gathering_version req = snd capabilities \<Longrightarrow>
   rr_delivery_gathering_version (new_reservation req fresh protection) = snd capabilities"
  by (simp add: new_reservation_def capabilities_def gathers_def)

text \<open>The answer always comes from one whole attempt.\<close>

lemma retry_message_attempt: "\<exists>attempt k. retry_message_transaction d op = op attempt k"
proof -
  obtain attempt where "retry_message_transaction d op = run_transaction_with_sqlite_lock_retry d (op attempt)"
    using retry_loop_attempt [of 2 "\<lambda>k e. e = IntegrityError \<and> k = 0" 0 "RuntimeError ''unreachable''"
        "\<lambda>k. run_transaction_with_sqlite_lock_retry d (op k)"]
    by (auto simp: retry_message_transaction_def)
  with run_transaction_attempt [of d "op attempt"] show ?thesis by metis
qed

lemma message_attempts:
  "\<exists>attempt k. bind_message_endpoint d faults req dbs = bind_message_once (faults attempt k) req (dbs attempt k)"
  "\<exists>attempt k. join_by_message d now fresh reply dbs = join_by_message_once now fresh reply (dbs attempt k)"
  unfolding bind_message_endpoint_def join_by_message_def by (rule retry_message_attempt)+

subsection \<open>A bound message\<close>

definition bound_to :: "string \<times> group_id \<times> string \<Rightarrow> string \<Rightarrow> db \<Rightarrow> bool" where
  "bound_to key i db \<longleftrightarrow>
     (\<exists>m. one_or_none (\<lambda>m. message_key m = key) (roast_reservation_messages db) = Some m \<and> rm_reservation_id m = i)"

lemma bind_message_binds:
  assumes "bind_message req db = (db', True)"
  shows "bound_to (message_key req) (rm_reservation_id req) db'"
proof (cases "find_message (rm_bot_id req) (rm_group_id req) (rm_message_id req) db")
  case None
  let ?kept = "filter (\<lambda>m. \<not> rm_date_str m < rm_date_str req - 7) (roast_reservation_messages db)"
  have "one_or_none (\<lambda>m. message_key m = message_key req) ?kept = None"
    using None by (auto simp: find_message_def message_key_def one_or_none_None_iff)
  then have "bound_to (message_key req) (rm_reservation_id req) (db\<lparr>roast_reservation_messages := ?kept @ [req]\<rparr>)"
    by (simp add: bound_to_def one_or_none_append)
  with assms None show ?thesis by (auto simp: bind_message_def split: option.splits)
next
  case (Some m)
  with assms show ?thesis by (auto simp: bind_message_def bound_to_def find_message_def message_key_def split: option.splits)
qed

text \<open>
  How long a binding lives: a new binding deletes the rows dated more than seven days before its
  own date, so a row stays while all that is bound is dated at most a week after it.
\<close>

definition binding_step :: "date \<Rightarrow> db \<Rightarrow> db \<Rightarrow> bool" where
  "binding_step day db db' \<longleftrightarrow>
     roast_reservation_messages db' = roast_reservation_messages db \<or>
     (\<exists>m. rm_date_str m \<le> day \<and> db' = fst (bind_message m db))"

lemma find_filter: "one_or_none P rs = Some r \<Longrightarrow> Q r \<Longrightarrow> one_or_none P (filter Q rs) = Some r"
  by (induction rs) (auto split: if_splits)

lemma binding_survives:
  assumes "one_or_none (\<lambda>m. message_key m = key) (roast_reservation_messages db) = Some notice"
    and "binding_step (rm_date_str notice + 7) db db'"
  shows "one_or_none (\<lambda>m. message_key m = key) (roast_reservation_messages db') = Some notice"
proof (cases "roast_reservation_messages db' = roast_reservation_messages db")
  case False
  with assms(2) obtain m where m: "rm_date_str m \<le> rm_date_str notice + 7" "db' = fst (bind_message m db)"
    by (auto simp: binding_step_def)
  have "one_or_none (\<lambda>m. message_key m = key)
      (filter (\<lambda>x. \<not> rm_date_str x < rm_date_str m - 7) (roast_reservation_messages db)) = Some notice"
    using m(1) by (intro find_filter [OF assms(1)]) simp
  with m(2) assms(1) show ?thesis
    by (auto simp: bind_message_def one_or_none_append split: option.split)
qed (use assms(1) in simp)

lemma bindings_survive:
  assumes "(binding_step (rm_date_str notice + 7))\<^sup>*\<^sup>* db later"
    and "one_or_none (\<lambda>m. message_key m = key) (roast_reservation_messages db) = Some notice"
  shows "one_or_none (\<lambda>m. message_key m = key) (roast_reservation_messages later) = Some notice"
  using assms by (induction rule: rtranclp_induct) (auto intro: binding_survives)

lemma binding_expires:
  assumes "bind_message m db = (db', True)" and "find_message (rm_bot_id m) (rm_group_id m) (rm_message_id m) db = None"
    and "unique_on message_key (roast_reservation_messages db)" and "notice \<in> set (roast_reservation_messages db)"
    and "rm_date_str notice + 7 < rm_date_str m"
  shows "\<not> bound_to (message_key notice) i db'"
proof -
  have "message_key notice \<noteq> message_key m"
    using assms(2,4) by (auto simp: find_message_def message_key_def one_or_none_None_iff)
  moreover have "x = notice" if "x \<in> set (roast_reservation_messages db)" "message_key x = message_key notice" for x
    using that assms(3,4) by (auto simp: unique_on_def distinct_map dest: inj_onD)
  then have "one_or_none (\<lambda>x. message_key x = message_key notice)
      (filter (\<lambda>x. \<not> rm_date_str x < rm_date_str m - 7) (roast_reservation_messages db)) = None"
    using assms(5) by (fastforce simp: one_or_none_None_iff)
  ultimately show ?thesis
    using assms(1,2) by (auto simp: bind_message_def bound_to_def one_or_none_append split: option.splits)
qed

lemma bound_find: "bound_to (b, g, m) i db \<Longrightarrow> \<exists>binding. find_message b g m db = Some binding \<and> rm_reservation_id binding = i"
  by (auto simp: bound_to_def find_message_def)

lemma rebinding:
  assumes "bound_to (message_key other) i db" and "bind_message_once fault other db = Inr (db', ok)"
  shows "db' = db \<and> (ok \<longrightarrow> rm_reservation_id other = i)"
proof -
  obtain m where m: "find_message (rm_bot_id other) (rm_group_id other) (rm_message_id other) db = Some m" "rm_reservation_id m = i"
    using bound_find assms(1) unfolding message_key_def by blast
  from assms(2) have "bind_message other db = (db', ok)"
    by (auto simp: bind_message_once_def split: option.splits if_splits)
  with m show ?thesis by (auto simp: bind_message_def split: option.splits)
qed

subsection \<open>Joining by reply\<close>

lemma answered: "pa_status (answer s) = s" "pa_status (answer_item s r db) = s"
  by (simp_all add: answer_def answer_item_def)

lemma activated_id: "rr_reservation_id (activate_if_arrived now notify roll r db) = rr_reservation_id r"
  by (simp add: activate_if_arrived_def activate_in_def activate_reservation_def Let_def)

lemma capability_id: "rr_reservation_id (update_delivery_capability r req) = rr_reservation_id r"
  by (simp add: update_delivery_capability_def)

lemma seated:
  "p \<in> set (locked_participants (rp_reservation_id p) (set_reservation r (mark_group_active_users now d g us (add_participant p db))))"
  by (simp add: locked_participants_def set_reservation_def add_participant_def frame_simps)

lemma joined_member:
  assumes "join_members req now roll r db = (db', resp)" and "rq_force_mode req = None" and "pa_status resp = ReservationJoined"
  shows "\<exists>item p. pa_reservation resp = Some item \<and> rr_reservation_id (ri_reservation item) = rr_reservation_id r \<and>
    p \<in> set (ri_participants item) \<and> rp_user_id p = rq_attacker_id req \<and> rp_pig_id p = rq_attacker_pig_id req"
proof -
  let ?p = "\<lparr>rp_reservation_id = rr_reservation_id r, rp_user_id = rq_attacker_id req, rp_display_name = rq_attacker_name req,
    rp_pig_id = rq_attacker_pig_id req, rp_contribution = 1\<rparr>"
  let ?db = "mark_group_active_users now (rq_date_str req) (rq_group_id req) [rq_attacker_id req] (add_participant ?p db)"
  let ?r = "activate_if_arrived now False roll ((update_delivery_capability r req)\<lparr>rr_waiting_notice := None\<rparr>) ?db"
  have resp: "resp = answer_item ReservationJoined ?r (set_reservation ?r ?db)"
    using assms by (auto simp: join_members_def Let_def answered split: if_splits option.splits)
  have "rr_reservation_id ?r = rr_reservation_id r" by (simp add: activated_id capability_id)
  then show ?thesis using seated [of ?p ?r] unfolding resp
    by (intro exI [of _ "reservation_to_schema ?r (set_reservation ?r ?db)"] exI [of _ ?p])
      (simp add: answer_item_def answer_def reservation_to_schema_def)
qed

lemma prepared_expected:
  assumes "prepare_reservation req (Some i) now fresh db = Inr (db', resp)"
  shows "pa_status resp \<in> {Protected, ReservationClosed} \<or>
    (\<exists>r roll db1. rr_reservation_id r = i \<and> join_existing req now roll r db1 = (db', resp))"
proof -
  obtain protection db1 where "effective_protection req db = (protection, db1)" by (metis surj_pair)
  with assms show ?thesis
    by (auto simp: prepare_reservation_def Let_def answered split: if_splits option.splits)
qed

lemma existing_answers:
  assumes "join_existing req now roll r db = (db', resp)"
  shows "pa_status resp \<noteq> MessageNotFound"
    and "rq_force_mode req = None \<Longrightarrow> pa_status resp = ReservationJoined \<Longrightarrow> join_members req now roll r db = (db', resp)"
  using assms
  by (auto simp: join_existing_def join_members_def take_over_def Let_def answered split: if_splits prod.splits option.splits)

lemma joined_expected:
  assumes "prepare_reservation req (Some i) now fresh db = Inr (db', resp)" and "rq_force_mode req = None"
    and "pa_status resp = ReservationJoined"
  shows "\<exists>item p. pa_reservation resp = Some item \<and> rr_reservation_id (ri_reservation item) = i \<and>
    p \<in> set (ri_participants item) \<and> rp_user_id p = rq_attacker_id req \<and> rp_pig_id p = rq_attacker_pig_id req"
proof -
  obtain r roll db1 where r: "rr_reservation_id r = i" "join_existing req now roll r db1 = (db', resp)"
    using prepared_expected [OF assms(1)] assms(3) by auto
  from joined_member [OF existing_answers(2) [OF r(2) assms(2,3)] assms(2,3)] r(1) show ?thesis by simp
qed

lemma reply_reaches:
  assumes "bound_to (rj_bot_id reply, rj_group_id reply, rj_message_id reply) i db"
    and "join_by_message_once now fresh reply db = Inr (db', resp)"
  shows "pa_status resp \<noteq> MessageNotFound \<and> (pa_status resp = ReservationJoined \<longrightarrow>
    (\<exists>item p roll. pa_reservation resp = Some item \<and> rr_reservation_id (ri_reservation item) = i \<and>
       p \<in> set (ri_participants item) \<and> rp_user_id p = rj_attacker_id reply \<and>
       rolled_today (rj_date_str reply) (rj_attacker_id reply) db = Some roll \<and> rp_pig_id p = dr_pig_id roll))"
proof -
  obtain binding where b: "find_message (rj_bot_id reply) (rj_group_id reply) (rj_message_id reply) db = Some binding"
    "rm_reservation_id binding = i" using bound_find [OF assms(1)] by blast
  show ?thesis
  proof (cases "pa_status resp \<in> {ReservationClosed, SelfTarget, AttackerUnrolled}")
    case False
    with assms(2) b obtain reservation roll db1 where
        found: "scoped_reservation i (rj_group_id reply) (rj_date_str reply) db = Some reservation"
          "rolled_today (rj_date_str reply) (rj_attacker_id reply) db = Some roll"
        and run: "prepare_reservation (join_request reply reservation roll) (Some (rr_reservation_id reservation)) now fresh db = Inr (db1, resp)"
      by (auto simp: join_by_message_once_def answered split: if_splits option.splits sum.splits)
    have same: "rr_reservation_id reservation = i" using found(1) by (auto simp: scoped_reservation_def dest: one_or_none_SomeD)
    have asked: "rq_force_mode (join_request reply reservation roll) = None"
      "rq_attacker_id (join_request reply reservation roll) = rj_attacker_id reply"
      "rq_attacker_pig_id (join_request reply reservation roll) = dr_pig_id roll" by (simp_all add: join_request_def)
    have "pa_status resp \<noteq> MessageNotFound" using prepared_expected [OF run] existing_answers(1) by fastforce
    with joined_expected [OF run asked(1)] same asked found(2) show ?thesis by auto
  qed auto
qed

text \<open>
  C37: Who replies to a notice joins what it announced, for as long as the server keeps the notice:
  until another message is bound for a date more than seven days later. Once the server has
  confirmed that a message announces a reservation, whatever other attempts failed on the way, it
  has stored a notice for the message; and as long as every message bound since then was of a date
  at most seven days after the notice's (whatever happened to other tables), the message can be
  bound to no other reservation, a repeated binding changes nothing, and a reply to it is never
  unknown; if the reply is told that it joined, the reservation in the answer is the announced one,
  and it has the replier among its participants with the pig that he rolled that day.
\<close>

theorem reply_joins_announced:
  assumes "bind_message_endpoint dialect faults req dbs = Inr (db', True)"
  shows "\<exists>notice. find_message (rm_bot_id req) (rm_group_id req) (rm_message_id req) db' = Some notice \<and>
    rm_reservation_id notice = rm_reservation_id req \<and>
    (\<forall>later other reply. (binding_step (rm_date_str notice + 7))\<^sup>*\<^sup>* db' later \<and>
       message_key other = message_key req \<and> (rj_bot_id reply, rj_group_id reply, rj_message_id reply) = message_key req \<longrightarrow>
       (\<forall>dialect' faults' after ok. bind_message_endpoint dialect' faults' other (\<lambda>_ _. later) = Inr (after, ok) \<longrightarrow>
          after = later \<and> (ok \<longrightarrow> rm_reservation_id other = rm_reservation_id req)) \<and>
       (\<forall>dialect' now fresh joined resp. join_by_message dialect' now fresh reply (\<lambda>_ _. later) = Inr (joined, resp) \<longrightarrow>
          pa_status resp \<noteq> MessageNotFound \<and>
          (pa_status resp = ReservationJoined \<longrightarrow>
            (\<exists>item p roll. pa_reservation resp = Some item \<and> rr_reservation_id (ri_reservation item) = rm_reservation_id req \<and>
               p \<in> set (ri_participants item) \<and> rp_user_id p = rj_attacker_id reply \<and>
               rolled_today (rj_date_str reply) (rj_attacker_id reply) later = Some roll \<and> rp_pig_id p = dr_pig_id roll))))"
proof -
  obtain attempt k where "bind_message_once (faults attempt k) req (dbs attempt k) = Inr (db', True)"
    using message_attempts(1) [of dialect faults req dbs] assms(1) by auto
  then have "bind_message req (dbs attempt k) = (db', True)" by (auto simp: bind_message_once_def split: option.splits if_splits)
  then obtain notice where notice:
      "one_or_none (\<lambda>m. message_key m = message_key req) (roast_reservation_messages db') = Some notice"
      "rm_reservation_id notice = rm_reservation_id req"
    using bind_message_binds [of req "dbs attempt k" db'] by (auto simp: bound_to_def)
  have bound: "bound_to (message_key req) (rm_reservation_id req) later"
    if "(binding_step (rm_date_str notice + 7))\<^sup>*\<^sup>* db' later" for later
    using bindings_survive [OF that notice(1)] notice(2) by (auto simp: bound_to_def)
  have attempts: "\<exists>fault. bind_message_once fault other later = Inr (after, ok)"
    if "bind_message_endpoint dialect' faults' other (\<lambda>_ _. later) = Inr (after, ok)"
    for dialect' faults' other later after ok
    using message_attempts(1) [of dialect' faults' other "\<lambda>_ _. later"] that by auto
  have joins: "join_by_message_once now fresh reply later = Inr (joined, resp)"
    if "join_by_message dialect' now fresh reply (\<lambda>_ _. later) = Inr (joined, resp)"
    for dialect' now fresh reply later joined resp
    using message_attempts(2) [of dialect' now fresh reply "\<lambda>_ _. later"] that by auto
  have "find_message (rm_bot_id req) (rm_group_id req) (rm_message_id req) db' = Some notice"
    using notice(1) by (simp add: find_message_def message_key_def)
  moreover have "after = later \<and> (ok \<longrightarrow> rm_reservation_id other = rm_reservation_id req)"
    if "(binding_step (rm_date_str notice + 7))\<^sup>*\<^sup>* db' later" "message_key other = message_key req"
      "bind_message_endpoint dialect' faults' other (\<lambda>_ _. later) = Inr (after, ok)"
    for dialect' faults' other later after ok
    using attempts [OF that(3)] rebinding [OF bound [OF that(1), folded that(2)]] by blast
  ultimately show ?thesis
    using notice(2) reply_reaches bound joins by (intro exI [of _ notice]) metis
qed

definition sample_notice :: roast_reservation_message where
  "sample_notice = \<lparr>rm_bot_id = ''bot'', rm_group_id = ''g'', rm_message_id = ''m'', rm_reservation_id = ''r'', rm_date_str = 5\<rparr>"

definition sample_reply :: reply_join_request where
  "sample_reply = \<lparr>rj_bot_id = ''bot'', rj_group_id = ''g'', rj_message_id = ''m'', rj_date_str = 5, rj_attacker_id = ''b'',
     rj_attacker_name = ''B'', rj_protection_gathering_version = 2\<rparr>"

text \<open>The first attempt loses the race, the second binds; then the replier has rolled a boar.\<close>

definition announced_db :: db where
  "announced_db = fst (projr (bind_message_endpoint MySQL (\<lambda>attempt k. if attempt = 0 then Some IntegrityError else None)
     sample_notice (\<lambda>_ _. sample_db)))"

definition replying_db :: db where
  "replying_db = announced_db\<lparr>daily_rolls := [\<lparr>dr_date_str = 5, dr_user_id = ''b'', dr_pig_id = ''boar'', dr_is_new_pig = None,
     dr_previous_copies = None, dr_copies_after_roll = None, dr_previous_expert_level = None, dr_expert_level_after_roll = None,
     dr_collection_size_after_roll = None, dr_previous_duplicate_streak = None, dr_duplicate_streak_after_roll = None,
     dr_resource_version = None, dr_appearance_snapshot = None, dr_created_at = 1\<rparr>]\<rparr>"

theorem reply_joins_announced_witness:
  "\<exists>joined resp item p. join_by_message SQLite (5 * seconds 86400) ''fresh'' sample_reply (\<lambda>_ _. replying_db) = Inr (joined, resp) \<and>
     pa_reservation resp = Some item \<and> rr_reservation_id (ri_reservation item) = ''r'' \<and>
     p \<in> set (ri_participants item) \<and> rp_user_id p = ''b'' \<and> rp_pig_id p = ''boar''"
proof -
  let ?faults = "\<lambda>attempt k. if attempt = 0 then Some IntegrityError else None :: error option"
  let ?join = "join_by_message SQLite (5 * seconds 86400) ''fresh'' sample_reply (\<lambda>_ _. replying_db)"
  have bound: "bind_message_endpoint MySQL ?faults sample_notice (\<lambda>_ _. sample_db) = Inr (announced_db, True)" by code_simp
  have "\<And>day. binding_step day announced_db replying_db" by (simp add: binding_step_def replying_db_def)
  then have later: "\<And>day. (binding_step day)\<^sup>*\<^sup>* announced_db replying_db" by blast
  have key: "(rj_bot_id sample_reply, rj_group_id sample_reply, rj_message_id sample_reply) = message_key sample_notice" by code_simp
  have joins: "\<not> isl ?join" "pa_status (snd (projr ?join)) = ReservationJoined" by code_simp+
  have pig: "map_option dr_pig_id (rolled_today 5 ''b'' replying_db) = Some ''boar''" by code_simp
  obtain joined resp where run: "?join = Inr (joined, resp)" using joins(1) by (cases ?join) auto
  with joins(2) have "pa_status resp = ReservationJoined" by simp
  with reply_joins_announced [OF bound] later key run
  obtain item p roll where "pa_reservation resp = Some item" "rr_reservation_id (ri_reservation item) = rm_reservation_id sample_notice"
    "p \<in> set (ri_participants item)" "rp_user_id p = rj_attacker_id sample_reply"
    "rolled_today (rj_date_str sample_reply) (rj_attacker_id sample_reply) replying_db = Some roll" "rp_pig_id p = dr_pig_id roll" by blast
  moreover have "rj_date_str sample_reply = 5" "rj_attacker_id sample_reply = ''b''" "rm_reservation_id sample_notice = ''r''"
    by (simp_all add: sample_reply_def sample_notice_def)
  ultimately show ?thesis using run pig by auto
qed

end
