(* ===== verification/Spec2Isabelle.thy ===== *)
theory Spec2Isabelle
  imports Usage Progress Refills Protections ProtectionGrants Keys Events Lifecycle DailyRolls
    ReportDelivery ReportProfiles Catalog Migrations SchemaUpgrade LegacyImport Middleware Requests Routes Application Service
    Startup Connections Replies
begin

text \<open>
  A verification library for RollPig Cloud, the HTTP service that several chat bots share to play
  the daily pig game: users roll one pig per day, collect and feed pigs, roast each other's pigs,
  gather for protected targets, and get a report per group and day.

  \<^bold>\<open>How the program works.\<close> Every route under \<^verbatim>\<open>rollpig_cloud/routers\<close> runs one or two
  transactions on an SQL database (SQLite or MySQL); the routes share the functions of
  \<^verbatim>\<open>rollpig_cloud/services\<close>. The bots retry lost responses and race each other, so nearly
  everything has to be safe to repeat, to happen at most once, or to be handed to one bot at a
  time. What decides a race is a unique key (the loser's insert raises \<open>IntegrityError\<close> and the
  route starts again) or an UPDATE whose WHERE repeats what was read.

  \<^bold>\<open>How it is modelled.\<close> The database is the record \<open>db\<close> of theory Models, one list of rows per
  table. A route or service function is a HOL function of its arguments and the database; it
  returns the new database and the answer, and \<open>Inl\<close> of an \<open>error\<close> where the source raises
  (the transaction is then rolled back, so there is no state to return). What the program takes from
  outside is an argument: the clock (\<open>now\<close>, microseconds), fresh identifiers and tokens
  (\<open>fresh\<close>), the tenant, the SQL dialect, SHA-256 and the JSON parser. Concurrency is explicit: a
  retry loop gets the outcome of each attempt on whatever database it then meets
  (\<open>retry_loop\<close>), a handler that queries before it writes gets the state of its query
  (\<open>seen\<close>) apart from the state of its write, and the state machines are relations whose steps
  are the transactions of all bots in any order. Sessions do not flush before a query
  (\<^verbatim>\<open>autoflush=False\<close> in \<^verbatim>\<open>db.py\<close>), which the models of \<open>apply_created_roll_progress\<close>
  and of the import tool depend on.

  \<^bold>\<open>The theories.\<close>

  \<^item> Prelude and Tables: the basic types, Python idioms, dictionaries, tables as row lists and the
    laws of lookups after updates. Models: the tables of \<^verbatim>\<open>models.py\<close> with their unique keys, and
    the errors. Transactions: the retry loops of \<^verbatim>\<open>db.py\<close> and the routers.
  \<^item> Contracts: the locales \<open>retry_safe\<close>, \<open>replay_safe\<close>, \<open>send_once\<close> and \<open>quota\<close>.
    \<open>quota\<close> is interpreted by the roast charges and the forced roast (Usage), \<open>replay_safe\<close>
    by feeds (Progress), group activity (Activity) and roast outcomes (Lifecycle), \<open>retry_safe\<close>
    by events (Events), \<open>send_once\<close> by refill votes (Refills), reservations (Lifecycle) and
    report deliveries (Reports).
  \<^item> Usage (\<^verbatim>\<open>services/usage.py\<close>, \<^verbatim>\<open>routers/cooldowns.py\<close>): the charge bucket is
    refined to a time credit, from which the rate bound and the exactness of refusals follow.
  \<^item> Progress (\<^verbatim>\<open>services/progress.py\<close>): copies, levels, the daily feed, the draw state.
    DailyRolls (\<^verbatim>\<open>routers/daily_rolls.py\<close>, \<^verbatim>\<open>routers/group_rolls.py\<close>): who decides the pig
    of the day, makeups, the appearance snapshot with the validators of \<^verbatim>\<open>schemas.py\<close>.
  \<^item> Activity and Refills (\<^verbatim>\<open>services/roast_refills.py\<close>): the active users of a group and the votes
    on refilling their charges; their routes are in Catalog.
  \<^item> Protections and ProtectionGrants (\<^verbatim>\<open>services/protections.py\<close>, \<^verbatim>\<open>routers/protections.py\<close>):
    the level a protection has from its sources, manual grants, the daily list of a group.
  \<^item> Reservations (\<^verbatim>\<open>services/reservations.py\<close>), Delivery (\<^verbatim>\<open>routers/roast_reservations.py\<close>)
    and Lifecycle: gathering for a target, activation, claims, outcomes, waiting notices and
    completion; the relation \<open>reservation_step\<close> and the invariants of its reachable states.
    Replies: the notice that announces a reservation, who joins by replying to it, and for how long
    the notice is kept.
  \<^item> Events (\<^verbatim>\<open>services/events.py\<close>, \<^verbatim>\<open>services/roast_statistics.py\<close>,
    \<^verbatim>\<open>routers/events.py\<close>): the log of roasts, its listing, the statistics.
  \<^item> Reports and ReportDelivery (the delivery part of \<^verbatim>\<open>routers/daily_reports.py\<close>): leases on the
    reports to send. The specification is the automaton \<open>job_move\<close>; claims and transitions
    refine it, whatever states their queries read (\<open>claim_reports_at\<close>; \<open>claim_reports_once\<close>, which
    the exact statements about leases and deadlines are about, reads its rows under the lock that
    MySQL takes, or with no other writer in between). ReportProfiles: the profile queries of the same
    router, equal to a per-user reference.
  \<^item> Keys (\<^verbatim>\<open>config.py\<close>, \<^verbatim>\<open>auth.py\<close>, \<^verbatim>\<open>services/key_usage.py\<close>) and Middleware
    (\<^verbatim>\<open>main.py\<close>): named keys, the token check, the counters of each key, the access record.
  \<^item> Calendar: Python's dates and the text of times in answers, with a reader that inverts it.
    Requests (\<^verbatim>\<open>schemas.py\<close>): what each request class lets through to its handler.
    Routes: the twelve routers with their dependencies and paths, the health check, and the table
    \<^verbatim>\<open>main.py\<close> builds from them. Application: the settings, and a request through the table, the
    token check and the middleware; what FastAPI answers itself (an exception, an unknown path, an
    unreadable body, a static file) is a parameter, and so are the handlers, whose models are in the
    other theories.
  \<^item> Service: all writing routes on one database. Each is shown to be a sequence of the steps every
    component's invariants are proved for, so the invariants hold together in every state that any
    traffic leads to (\<open>service_keeps_promises\<close>); \<open>served_request_steps\<close> in Application adds
    the routes, the token check and the middleware around them.
  \<^item> Catalog: the reading routes (\<^verbatim>\<open>catalog.py\<close>, \<^verbatim>\<open>collections.py\<close>,
    \<^verbatim>\<open>draw_state.py\<close>, \<^verbatim>\<open>groups.py\<close>) and the refill routes. The catalogue's query
    filters events by a substring test on serialised JSON, a parameter that only has to find what is
    there; \<open>text_contains\<close>, on the text \<open>json.dumps\<close> writes, is shown to.
  \<^item> Migrations (\<^verbatim>\<open>migrations.py\<close>, \<^verbatim>\<open>tools/backfill_p1a_progress.py\<close>) and LegacyImport
    (\<^verbatim>\<open>tools/import_legacy_json.py\<close>): what a restart and the tools do to the rows.
    SchemaUpgrade: the schema part of the migrations, statement by statement, with other instances
    running in between and any statement failing; a small logic with rely and guarantee
    (\<open>works\<close>) carries its proofs. Startup (\<open>init_db\<close>, \<^verbatim>\<open>main.py\<close>,
    \<^verbatim>\<open>tools/migrate_roast_charges.py\<close>): the whole start from an empty or an old database;
    \<open>create_all\<close> of SQLAlchemy is a parameter with the hypothesis \<open>creates_missing\<close>.
  \<^item> Connections (\<open>get_session\<close>, the session of the counters): the connections that concurrent requests
    take from the pool and give back, as a step relation; no pool size lets them block each other,
    while sessions kept until the request is counted would (\<open>request_scope_deadlocks\<close>).

  \<^bold>\<open>Conventions.\<close> A loaded row that the source mutates is passed by value and written back where
  the source flushes. A column that holds a state name is a datatype, a nullable column an option, a
  JSON column has the type of what the program writes into it. Dates are day numbers, times
  microseconds without a zone; a float argument is the rational it denotes. One clock plays the
  server's and the database's. A Python set that is iterated is taken in the order of the table.
  Rows are never deleted where the model identifies a row by its unique key instead of its \<open>id\<close>.

  \<^bold>\<open>Bounds.\<close> No definition needs fuel: the retry loops run over the attempts the source allows (two,
  three, or three rounds of two), and every other loop is over a list. The bounds of the program
  itself are the source's constants: six charges, five levels, twelve participants, leases of five
  minutes, four attempts per report, batches of 500 users.

  \<^bold>\<open>Behaviours to know.\<close> Four lemmas state what is surprising: a gathering request for a target whose
  earlier, unprotected reservation is still being delivered ends in a server error
  (\<open>occupied_slot_is_unanswerable\<close>); the import tool cannot import a user with two pigs
  (\<open>legacy_import_rejects_collectors\<close>); a restart takes charges from a user who has rushed but never
  roasted, if his client grants more than two (\<open>restart_costs_a_charge\<close>); and a lease on a report can be taken over only after the
  five minutes, not at their end (\<open>report_lease_exclusive\<close>), although the claim's answer names
  their end as the time to ask again.

  \<^bold>\<open>Not modelled.\<close> Column types and SQL texts of \<^verbatim>\<open>migrations.py\<close>; the engine and the session
  factory of \<^verbatim>\<open>db.py\<close> and how the tables are created, which are SQLAlchemy's; the
  content of the static files and the durations in the log of \<^verbatim>\<open>main.py\<close>; pydantic's parsing of a JSON body into typed fields; the parsing of the legacy file;
  the deployment scripts. Strings are sequences of characters below 256, and the white space and
  case functions are those of that range.
\<close>

end
